(* ===== verification/Go_Prelude.thy ===== *)
theory Go_Prelude
  imports
    Main
    "HOL-Library.Char_ord"
    "HOL-Library.List_Lexorder"
    "HOL-Library.Sublist"
    "HOL-Library.Word"
begin

text \<open>
  The prelude of the development: how Go values are represented, the parts of Go's
  \<^verbatim>\<open>strings\<close> package the server uses, and the generic lemmas the components share.

  A Go \<^verbatim>\<open>string\<close> or \<^verbatim>\<open>[]byte\<close> is a list of \<^typ>\<open>char\<close>: a HOL character is one
  byte, and the order of \<open>Char_ord\<close> and \<open>List_Lexorder\<close> is the bytewise lexicographic
  order that Go's \<open><\<close> and SQLite's BINARY collation use. An \<^verbatim>\<open>int64\<close> is an \<^typ>\<open>int\<close> with the
  two's complement wrap-around \<open>wrap64\<close> written out where the code computes with it.
  A Go error return is a sum whose left side is the error.
\<close>

named_theorems go_str \<open>facts about the model of Go's strings package\<close>
named_theorems go_err \<open>elimination facts for results of fallible operations\<close>

section \<open>Types\<close>

type_synonym bytes = string

text \<open>A Go map or a SQL table with a primary key: an association list sorted by key.\<close>

type_synonym ('k, 'v) table = "('k \<times> 'v) list"

text \<open>Custom metadata of an object, \<^verbatim>\<open>map[string]string\<close>; a nil map is the empty list.\<close>

type_synonym metadata = "(string, string) table"

section \<open>Machine integers\<close>

definition wrap64 :: "int \<Rightarrow> int" where
  "wrap64 i = (i + 2 ^ 63) mod 2 ^ 64 - 2 ^ 63"

definition max_int64 :: int where
  "max_int64 = 2 ^ 63 - 1"

definition min_int64 :: int where
  "min_int64 = - (2 ^ 63)"

definition int64 :: "int \<Rightarrow> bool" where
  "int64 i \<longleftrightarrow> min_int64 \<le> i \<and> i \<le> max_int64"

lemmas int64_defs = int64_def min_int64_def max_int64_def

lemma wrap64_int64 [simp]: "int64 (wrap64 i)"
  by (simp add: int64_defs wrap64_def)

lemma wrap64_id [simp]: "int64 i \<Longrightarrow> wrap64 i = i"
  by (simp add: int64_defs wrap64_def)

section \<open>Byte strings\<close>

definition byte_val :: "char \<Rightarrow> nat" where
  "byte_val c = of_char c"

lemma byte_val_less [simp]: "byte_val c < 256"
  by (simp add: byte_val_def)

lemma byte_val_le [simp]: "byte_val c \<le> 255"
  using byte_val_less [of c] by linarith

lemma byte_less_iff: "c < d \<longleftrightarrow> byte_val c < byte_val d"
  by (simp add: byte_val_def less_char_def)

lemma byte_le_iff: "c \<le> d \<longleftrightarrow> byte_val c \<le> byte_val d"
  by (simp add: byte_val_def less_eq_char_def)

lemma byte_val_inject: "byte_val c = byte_val d \<longleftrightarrow> c = d"
  by (simp add: byte_val_def)

lemma byte_val_char_of [simp]: "n < 256 \<Longrightarrow> byte_val (char_of n) = n"
  by (simp add: byte_val_def)

text \<open>Go's conversion \<^verbatim>\<open>string(r)\<close> of an integer is the UTF-8 encoding of the code point
  \<open>r\<close>, not the one-byte string; these are the encodings of one and of two bytes, all that a
  byte-sized \<open>r\<close> needs.\<close>

definition rune_string :: "nat \<Rightarrow> string" where
  "rune_string r =
     (if r < 128 then [char_of r]
      else [char_of (192 + r div 64), char_of (128 + r mod 64)])"

section \<open>The strings package\<close>

definition HasPrefix :: "string \<Rightarrow> string \<Rightarrow> bool" where
  "HasPrefix s p \<longleftrightarrow> prefix p s"

definition HasSuffix :: "string \<Rightarrow> string \<Rightarrow> bool" where
  "HasSuffix s p \<longleftrightarrow> suffix p s"

text \<open>\<^verbatim>\<open>strings.Index\<close>: the first position of \<open>d\<close> in \<open>s\<close>; Go's -1 is \<open>None\<close>.\<close>

fun Index :: "string \<Rightarrow> string \<Rightarrow> nat option" where
  "Index [] d = (if d = [] then Some 0 else None)"
| "Index (c # s) d = (if prefix d (c # s) then Some 0 else map_option Suc (Index s d))"

definition Contains :: "string \<Rightarrow> string \<Rightarrow> bool" where
  "Contains s d \<longleftrightarrow> Index s d \<noteq> None"

definition ContainsAny :: "string \<Rightarrow> string \<Rightarrow> bool" where
  "ContainsAny s cs \<longleftrightarrow> list_ex (\<lambda>c. c \<in> set cs) s"

definition trim_left :: "(char \<Rightarrow> bool) \<Rightarrow> string \<Rightarrow> string" where
  "trim_left P s = dropWhile P s"

definition trim_right :: "(char \<Rightarrow> bool) \<Rightarrow> string \<Rightarrow> string" where
  "trim_right P s = rev (dropWhile P (rev s))"

definition Trim :: "string \<Rightarrow> string \<Rightarrow> string" where
  "Trim s cs = trim_right (\<lambda>c. c \<in> set cs) (trim_left (\<lambda>c. c \<in> set cs) s)"

definition TrimRight :: "string \<Rightarrow> string \<Rightarrow> string" where
  "TrimRight s cs = trim_right (\<lambda>c. c \<in> set cs) s"

definition TrimPrefix :: "string \<Rightarrow> string \<Rightarrow> string" where
  "TrimPrefix s p = (if prefix p s then drop (length p) s else s)"

text \<open>\<^verbatim>\<open>strings.Split(s, sep)\<close> for a one-byte separator.\<close>

fun Split :: "string \<Rightarrow> char \<Rightarrow> string list" where
  "Split [] sep = [[]]"
| "Split (c # s) sep =
     (if c = sep then [] # Split s sep
      else (case Split s sep of [] \<Rightarrow> [[c]] | p # ps \<Rightarrow> (c # p) # ps))"

fun Join :: "string list \<Rightarrow> string \<Rightarrow> string" where
  "Join [] sep = []"
| "Join [s] sep = s"
| "Join (s # t # ss) sep = s @ sep @ Join (t # ss) sep"

text \<open>\<^verbatim>\<open>strings.Cut\<close>: before, after, found.\<close>

definition Cut :: "string \<Rightarrow> string \<Rightarrow> string \<times> string \<times> bool" where
  "Cut s sep =
     (case Index s sep of
        None \<Rightarrow> (s, [], False)
      | Some i \<Rightarrow> (take i s, drop (i + length sep) s, True))"

subsection \<open>Facts about positions and prefixes\<close>

lemma Index_Some_prefix [go_str]: "Index s d = Some i \<Longrightarrow> prefix d (drop i s)"
  by (induction s arbitrary: i) (auto split: if_splits)

lemma Index_Some_bound [go_str]: "Index s d = Some i \<Longrightarrow> i + length d \<le> length s"
  by (induction s arbitrary: i) (auto split: if_splits dest: prefix_length_le)

lemma Index_take [go_str]: "Index s d = Some i \<Longrightarrow> take (i + length d) s = take i s @ d"
proof -
  assume i: "Index s d = Some i"
  then obtain r where r: "drop i s = d @ r"
    using Index_Some_prefix prefixE by blast
  have "s = take i s @ drop i s" by simp
  then have "take (i + length d) s = take i s @ take (length d) (drop i s)"
    by (simp add: take_add)
  with r show ?thesis by simp
qed

text \<open>The first occurrence depends only on the bytes up to its end.\<close>

lemma Index_determined [go_str]:
  "Index s d = Some i \<Longrightarrow> prefix (take (i + length d) s) t \<Longrightarrow> Index t d = Some i"
proof (induction s arbitrary: i t)
  case Nil
  then show ?case by (cases t) (auto split: if_splits)
next
  case (Cons c s)
  show ?case
  proof (cases "prefix d (c # s)")
    case True
    with Cons.prems(1) have "i = 0" by simp
    with True Cons.prems(2) have "prefix d t"
      by (auto simp: prefix_def)
    with \<open>i = 0\<close> show ?thesis by (cases t) auto
  next
    case False
    with Cons.prems(1) obtain j where j: "Index s d = Some j" "i = Suc j" by auto
    with Cons.prems(2) obtain t' where t: "t = c # t'" "prefix (take (j + length d) s) t'"
      by (cases t) auto
    have "\<not> prefix d t"
    proof
      assume "prefix d t"
      moreover have "prefix (take (Suc j + length d) (c # s)) t" using t by simp
      moreover have "length d \<le> length (take (Suc j + length d) (c # s))"
        using Index_Some_bound [OF j(1)] by simp
      ultimately have "prefix d (take (Suc j + length d) (c # s))"
        by (metis prefix_length_prefix)
      then have "prefix d (c # s)"
        using take_is_prefix prefix_order.trans by blast
      with False show False ..
    qed
    with Cons.IH [OF j(1) t(2)] t(1) j(2) show ?thesis by simp
  qed
qed

lemma Index_append [go_str]: "Index s d = Some i \<Longrightarrow> Index (s @ t) d = Some i"
  by (rule Index_determined) (auto intro: prefix_prefix take_is_prefix)

lemma Join_Split [go_str]: "Join (Split s sep) [sep] = s"
proof (induction s)
  case (Cons c s)
  show ?case
  proof (cases "Split s sep")
    case Nil
    then have "s = []" using Cons by simp
    with Nil show ?thesis by simp
  next
    case (Cons p ps)
    with \<open>Join (Split s sep) [sep] = s\<close> show ?thesis by (cases ps) auto
  qed
qed simp

lemma Split_nonempty [simp]: "Split s sep \<noteq> []"
  by (cases s) (auto split: list.splits)

lemma Split_no_sep [go_str]: "p \<in> set (Split s sep) \<Longrightarrow> sep \<notin> set p"
  by (induction s arbitrary: p) (auto split: if_splits list.splits)

section \<open>Results\<close>

text \<open>The Go idiom \<^verbatim>\<open>if err != nil { return err }\<close> as a bind on results.\<close>

definition result_bind :: "'e + 'a \<Rightarrow> ('a \<Rightarrow> 'e + 'b) \<Rightarrow> 'e + 'b" where
  "result_bind r f = (case r of Inl e \<Rightarrow> Inl e | Inr x \<Rightarrow> f x)"

lemma result_bind_simps [simp]:
  "result_bind (Inl e) f = Inl e"
  "result_bind (Inr x) f = f x"
  by (simp_all add: result_bind_def)

lemma result_bind_Inr [go_err]:
  "result_bind r f = Inr y \<longleftrightarrow> (\<exists>x. r = Inr x \<and> f x = Inr y)"
  by (cases r) auto

end
