(* ===== verification/Go_Conv.thy ===== *)
theory Go_Conv
  imports Go_Prelude
begin

text \<open>
  The conversions of Go's standard library that the server uses: \<^verbatim>\<open>encoding/hex\<close>,
  \<^verbatim>\<open>strconv.ParseInt\<close>, \<^verbatim>\<open>strconv.Atoi\<close> and \<^verbatim>\<open>strconv.FormatInt\<close>.
\<close>

section \<open>Hexadecimal\<close>

definition hex_digit :: "nat \<Rightarrow> char" where
  "hex_digit n = ''0123456789abcdef'' ! (n mod 16)"

text \<open>\<^verbatim>\<open>hex.EncodeToString\<close>.\<close>

fun hexEncode :: "bytes \<Rightarrow> string" where
  "hexEncode [] = []"
| "hexEncode (c # s) = hex_digit (byte_val c div 16) # hex_digit (byte_val c mod 16) # hexEncode s"

lemma length_hexEncode [simp]: "length (hexEncode s) = 2 * length s"
  by (induction s) auto

lemma hex_digit_inject:
  assumes "m < 16" "n < 16" "hex_digit m = hex_digit n"
  shows "m = n"
proof -
  have d: "distinct ''0123456789abcdef''" by simp
  have "''0123456789abcdef'' ! m = ''0123456789abcdef'' ! n"
    using assms by (simp add: hex_digit_def)
  moreover have "length ''0123456789abcdef'' = 16" by simp
  ultimately show ?thesis using d assms(1,2) nth_eq_iff_index_eq by metis
qed

lemma hexEncode_inject [simp]: "hexEncode s = hexEncode t \<longleftrightarrow> s = t"
proof (induction s arbitrary: t)
  case Nil
  then show ?case by (cases t) auto
next
  case (Cons c s)
  show ?case
  proof (cases t)
    case (Cons d t')
    have "byte_val c div 16 < 16" "byte_val d div 16 < 16"
      using byte_val_less [of c] byte_val_less [of d] by (simp_all add: less_mult_imp_div_less)
    then have "hexEncode [c] = hexEncode [d] \<longleftrightarrow> byte_val c = byte_val d"
      by (auto dest!: hex_digit_inject [rotated 2]) (metis div_mult_mod_eq)
    with Cons Cons.IH [of t'] show ?thesis by (auto simp: byte_val_inject)
  qed simp
qed

section \<open>Integers\<close>

datatype num_error = ErrSyntax | ErrRange

definition digit_val :: "char \<Rightarrow> nat option" where
  "digit_val c =
     (let v = byte_val c
      in if 48 \<le> v \<and> v \<le> 57 then Some (v - 48)
         else if 97 \<le> v \<and> v \<le> 122 then Some (v - 97 + 10)
         else if 65 \<le> v \<and> v \<le> 90 then Some (v - 65 + 10)
         else None)"

definition max_uint64 :: nat where
  "max_uint64 = 2 ^ 64 - 1"

text \<open>The digit loop of \<^verbatim>\<open>strconv.ParseUint\<close>: a digit that is not one in this base is a syntax
  error, a value past 64 bits a range error, whichever comes first.\<close>

fun parseUint_loop :: "nat \<Rightarrow> nat \<Rightarrow> string \<Rightarrow> num_error + nat" where
  "parseUint_loop base n [] = Inr n"
| "parseUint_loop base n (c # s) =
     (case digit_val c of
        None \<Rightarrow> Inl ErrSyntax
      | Some d \<Rightarrow>
          if base \<le> d then Inl ErrSyntax
          else if max_uint64 div base + 1 \<le> n then Inl ErrRange
          else if max_uint64 < n * base + d then Inl ErrRange
          else parseUint_loop base (n * base + d) s)"

text \<open>\<^verbatim>\<open>strconv.ParseInt(s, base, 64)\<close> returns a value also when it fails: 0 on a syntax error,
  the nearest bound on a range error. Callers that drop the error use that value.\<close>

definition ParseInt :: "string \<Rightarrow> nat \<Rightarrow> int \<times> num_error option" where
  "ParseInt s base =
     (let neg = (s \<noteq> [] \<and> hd s = CHR ''-'');
          ds = (if s \<noteq> [] \<and> (hd s = CHR ''-'' \<or> hd s = CHR ''+'') then tl s else s)
      in if ds = [] then (0, Some ErrSyntax)
         else (case parseUint_loop base 0 ds of
                 Inl ErrSyntax \<Rightarrow> (0, Some ErrSyntax)
               | Inl ErrRange \<Rightarrow> (if neg then min_int64 else max_int64, Some ErrRange)
               | Inr un \<Rightarrow>
                   if \<not> neg \<and> 2 ^ 63 \<le> un then (max_int64, Some ErrRange)
                   else if neg \<and> 2 ^ 63 < un then (min_int64, Some ErrRange)
                   else (if neg then - int un else int un, None)))"

text \<open>\<^verbatim>\<open>strconv.Atoi\<close> on a 64-bit platform.\<close>

definition Atoi :: "string \<Rightarrow> int \<times> num_error option" where
  "Atoi s = ParseInt s 10"

lemma ParseInt_int64: "int64 (fst (ParseInt s base))"
  by (auto simp: ParseInt_def Let_def int64_defs split: sum.splits num_error.splits)

subsection \<open>Printing\<close>

fun nat_digits :: "nat \<Rightarrow> nat \<Rightarrow> string" where
  "nat_digits base n =
     (if base < 2 \<or> n < base then [hex_digit n] else nat_digits base (n div base) @ [hex_digit (n mod base)])"

declare nat_digits.simps [simp del]

text \<open>\<^verbatim>\<open>strconv.FormatInt(i, base)\<close> for a base up to 16.\<close>

definition FormatInt :: "int \<Rightarrow> nat \<Rightarrow> string" where
  "FormatInt i base = (if i < 0 then CHR ''-'' # nat_digits base (nat (- i)) else nat_digits base (nat i))"

lemma digit_val_hex_digit: "n < 16 \<Longrightarrow> digit_val (hex_digit n) = Some n"
proof -
  assume "n < 16"
  moreover have "\<forall>n \<in> set [0..<16]. digit_val (hex_digit n) = Some n"
    by code_simp
  ultimately show ?thesis by simp
qed

lemma parseUint_loop_append:
  "parseUint_loop base n (s @ t) =
     (case parseUint_loop base n s of Inl e \<Rightarrow> Inl e | Inr m \<Rightarrow> parseUint_loop base m t)"
  by (induction base n s rule: parseUint_loop.induct) (auto split: option.splits)

lemma parseUint_digits:
  "2 \<le> base \<Longrightarrow> base \<le> 16 \<Longrightarrow> n \<le> max_uint64 \<Longrightarrow>
   parseUint_loop base 0 (nat_digits base n) = Inr n"
proof (induction base n rule: nat_digits.induct)
  case (1 base n)
  show ?case
  proof (cases "n < base")
    case True
    with 1 show ?thesis
      by (simp add: nat_digits.simps [of base n] digit_val_hex_digit)
  next
    case False
    with 1 have ih: "parseUint_loop base 0 (nat_digits base (n div base)) = Inr (n div base)"
      by (meson div_le_dividend le_trans leD)
    have "n div base \<le> max_uint64 div base" using 1 by (simp add: div_le_mono)
    moreover have "n div base * base + n mod base = n" by simp
    moreover have "\<not> base \<le> n mod base" using 1 by (simp add: not_le)
    moreover from this 1 have "digit_val (hex_digit (n mod base)) = Some (n mod base)"
      by (intro digit_val_hex_digit) linarith
    ultimately show ?thesis using False 1 ih
      by (simp add: nat_digits.simps [of base n] parseUint_loop_append digit_val_hex_digit)
  qed
qed

lemma nat_digits_first:
  "2 \<le> base \<Longrightarrow> base \<le> 16 \<Longrightarrow> \<exists>d s. d < 16 \<and> nat_digits base n = hex_digit d # s"
proof (induction base n rule: nat_digits.induct)
  case (1 base n)
  show ?case
  proof (cases "n < base")
    case True
    with 1 show ?thesis by (force simp: nat_digits.simps [of base n])
  next
    case False
    with 1 obtain d s where "d < 16" "nat_digits base (n div base) = hex_digit d # s"
      by (meson leD)
    with False 1 show ?thesis by (simp add: nat_digits.simps [of base n])
  qed
qed

lemma hex_digit_no_sign: "d < 16 \<Longrightarrow> hex_digit d \<noteq> CHR ''-'' \<and> hex_digit d \<noteq> CHR ''+''"
  using digit_val_hex_digit [of d] by (auto simp: digit_val_def byte_val_def)

text \<open>Reading back what was printed.\<close>

lemma ParseInt_FormatInt:
  assumes "2 \<le> base" "base \<le> 16" "int64 i"
  shows "ParseInt (FormatInt i base) base = (i, None)"
proof -
  obtain d s where ds: "d < 16" "nat_digits base (nat \<bar>i\<bar>) = hex_digit d # s"
    using nat_digits_first [OF assms(1,2)] by blast
  have "nat \<bar>i\<bar> \<le> max_uint64" using assms(3) by (auto simp: int64_defs max_uint64_def)
  then have p: "parseUint_loop base 0 (hex_digit d # s) = Inr (nat \<bar>i\<bar>)"
    using parseUint_digits [OF assms(1,2)] ds by metis
  show ?thesis
  proof (cases "i < 0")
    case True
    then have f: "FormatInt i base = CHR ''-'' # hex_digit d # s"
      using ds by (simp add: FormatInt_def)
    with True assms(3) show ?thesis
      by (simp add: ParseInt_def p del: parseUint_loop.simps) (auto simp: int64_defs)
  next
    case False
    then have f: "FormatInt i base = hex_digit d # s"
      using ds by (simp add: FormatInt_def)
    with False assms(3) hex_digit_no_sign [OF ds(1)] show ?thesis
      by (simp add: ParseInt_def p del: parseUint_loop.simps) (auto simp: int64_defs)
  qed
qed

end
