(* ===== verification/Store_Types.thy ===== *)
theory Store_Types
  imports Go_Prelude
begin

text \<open>
  The data types of \<^verbatim>\<open>pkg/store/types.go\<close>: the store's errors, the descriptions of buckets and
  objects, and the preconditions with their evaluation. Times are Unix microseconds, the
  precision the database keeps.
\<close>

section \<open>Errors\<close>

text \<open>Where the environment (file system, database driver) can fail: one constructor per call
  site, so that a run can be told which calls fail in it.\<close>

datatype syscall =
    Sys_MkdirRoot | Sys_Mkdir | Sys_MkdirSub | Sys_ReadDir | Sys_RemoveAll
  | Sys_Schema | Sys_InsertInfo | Sys_BucketInfo | Sys_DbClose
  | Sys_CreateTemp | Sys_Write | Sys_Sync | Sys_CloseTemp | Sys_MkdirShard | Sys_Rename
  | Sys_Begin | Sys_SelectObject | Sys_UpsertBlob | Sys_UpdateBlob | Sys_SelectBlob
  | Sys_DeleteBlob | Sys_Marshal | Sys_InsertObject | Sys_DeleteObject | Sys_TxCommit
  | Sys_RemoveTmp | Sys_RemoveBlob | Sys_OpenBlob | Sys_Count | Sys_Query

text \<open>The sentinel errors of \<^verbatim>\<open>types.go\<close>; \<^verbatim>\<open>ErrInvalidName\<close> is only ever returned wrapped
  with a message. The other constructors are the errors that are not sentinels: a failed
  call, use of a closed database, use of a finished writer, and an object row whose metadata
  column does not decode. \<open>ErrBody\<close> is a failed read of a request body, \<open>Panicked\<close> a run-time
  panic (an out-of-range slice), which ends the request.\<close>

datatype store_error =
    ErrBucketNotFound
  | ErrBucketExists
  | ErrBucketNotEmpty
  | ErrObjectNotFound
  | ErrPreconditionFailed
  | ErrInvalidName string
  | ErrCall syscall
  | ErrDbClosed
  | ErrFinished string
  | ErrCorrupt string
  | ErrBody string
  | Panicked string

section \<open>Descriptions\<close>

record bucket_info =
  bi_Name :: string
  bi_Created :: int
  bi_Metageneration :: int

record object_info =
  oi_Bucket :: string
  oi_Name :: string
  oi_Generation :: int
  oi_Metageneration :: int
  oi_Size :: int
  oi_SHA256 :: string
  oi_MD5 :: bytes
  oi_CRC32C :: "32 word"
  oi_ContentType :: string
  oi_Metadata :: metadata
  oi_Created :: int
  oi_Updated :: int

section \<open>Preconditions\<close>

record conditions =
  GenerationMatch :: "int option"
  GenerationNotMatch :: "int option"
  MetagenerationMatch :: "int option"
  MetagenerationNotMatch :: "int option"

definition no_conditions :: conditions where
  "no_conditions = \<lparr>GenerationMatch = None, GenerationNotMatch = None,
     MetagenerationMatch = None, MetagenerationNotMatch = None\<rparr>"

record put_options =
  po_ContentType :: string
  po_Metadata :: metadata
  po_Conditions :: conditions

text \<open>\<^verbatim>\<open>Conditions.check\<close>: a missing object has generation and metageneration 0; the NotMatch
  conditions are skipped for it.\<close>

definition check :: "conditions \<Rightarrow> object_info option \<Rightarrow> store_error + unit" where
  "check c existing =
     (let gen = (case existing of None \<Rightarrow> 0 | Some i \<Rightarrow> oi_Generation i);
          metagen = (case existing of None \<Rightarrow> 0 | Some i \<Rightarrow> oi_Metageneration i)
      in if GenerationMatch c \<noteq> None \<and> gen \<noteq> the (GenerationMatch c)
         then Inl ErrPreconditionFailed
         else if GenerationNotMatch c \<noteq> None \<and> existing \<noteq> None \<and> gen = the (GenerationNotMatch c)
         then Inl ErrPreconditionFailed
         else if MetagenerationMatch c \<noteq> None \<and> metagen \<noteq> the (MetagenerationMatch c)
         then Inl ErrPreconditionFailed
         else if MetagenerationNotMatch c \<noteq> None \<and> existing \<noteq> None
                 \<and> metagen = the (MetagenerationNotMatch c)
         then Inl ErrPreconditionFailed
         else Inr ())"

text \<open>What the four conditions demand of the live version of an object.\<close>

definition conditions_hold :: "conditions \<Rightarrow> object_info option \<Rightarrow> bool" where
  "conditions_hold c existing \<longleftrightarrow>
     (\<forall>g. GenerationMatch c = Some g \<longrightarrow>
        (case existing of None \<Rightarrow> g = 0 | Some i \<Rightarrow> oi_Generation i = g)) \<and>
     (\<forall>g. GenerationNotMatch c = Some g \<longrightarrow>
        (case existing of None \<Rightarrow> True | Some i \<Rightarrow> oi_Generation i \<noteq> g)) \<and>
     (\<forall>g. MetagenerationMatch c = Some g \<longrightarrow>
        (case existing of None \<Rightarrow> g = 0 | Some i \<Rightarrow> oi_Metageneration i = g)) \<and>
     (\<forall>g. MetagenerationNotMatch c = Some g \<longrightarrow>
        (case existing of None \<Rightarrow> True | Some i \<Rightarrow> oi_Metageneration i \<noteq> g))"

lemma check_cases: "check c existing = Inr () \<or> check c existing = Inl ErrPreconditionFailed"
  by (simp add: check_def Let_def)

lemma check_ok_iff: "check c existing = Inr () \<longleftrightarrow> conditions_hold c existing"
  unfolding check_def conditions_hold_def Let_def
  by (cases existing; cases "GenerationMatch c"; cases "GenerationNotMatch c"; cases "MetagenerationMatch c"; cases "MetagenerationNotMatch c") simp_all

lemma check_error_iff:
  "check c existing = Inl e \<longleftrightarrow> e = ErrPreconditionFailed \<and> \<not> conditions_hold c existing"
  using check_cases [of c existing] check_ok_iff [of c existing] by auto

lemma no_conditions_hold [simp]: "conditions_hold no_conditions existing"
  by (simp add: conditions_hold_def no_conditions_def)

lemma check_no_conditions [simp]: "check no_conditions existing = Inr ()"
  by (simp add: check_ok_iff)

section \<open>Listing\<close>

record list_request =
  lq_Prefix :: string
  lq_Delimiter :: string
  lq_PageToken :: string
  lq_MaxResults :: int

record list_result =
  lr_Objects :: "object_info list"
  lr_Prefixes :: "string list"
  lr_NextPageToken :: string

end
