(* ===== verification/Store_Table.thy ===== *)
theory Store_Table
  imports Store_Types "HOL-Library.Multiset"
begin

text \<open>
  Tables. The SQL statements of \<^verbatim>\<open>pkg/store\<close> act on tables with a text primary key, and the
  server's Go maps are keyed by strings; both are key-sorted association lists here.
  The locale \<open>sql_table\<close> states what the code relies on (a lookup after an insert, which rows
  a statement leaves alone), \<open>ordered_table\<close> adds the order of \<^verbatim>\<open>ORDER BY name\<close>; the
  facts about counting rows, on which the reference counts rest, are proved inside it once,
  and the interpretation at the end discharges the laws for the lists.
\<close>

section \<open>Operations\<close>

text \<open>\<^verbatim>\<open>INSERT OR REPLACE\<close>, \<^verbatim>\<open>m[k] = v\<close>.\<close>

fun tput :: "'k::linorder \<Rightarrow> 'v \<Rightarrow> ('k, 'v) table \<Rightarrow> ('k, 'v) table" where
  "tput k v [] = [(k, v)]"
| "tput k v (e # t) =
     (if fst e < k then e # tput k v t
      else (k, v) # (if fst e = k then t else e # t))"

text \<open>\<^verbatim>\<open>DELETE ... WHERE key = ?\<close>, \<^verbatim>\<open>delete(m, k)\<close>.\<close>

definition tdel :: "'k \<Rightarrow> ('k, 'v) table \<Rightarrow> ('k, 'v) table" where
  "tdel k t = filter (\<lambda>e. fst e \<noteq> k) t"

definition tsorted :: "('k::linorder, 'v) table \<Rightarrow> bool" where
  "tsorted t \<longleftrightarrow> sorted_wrt (<) (map fst t)"

text \<open>The number of rows whose value satisfies \<open>P\<close>: \<^verbatim>\<open>SELECT COUNT\<close> with a condition.\<close>

definition count_rows :: "('v \<Rightarrow> bool) \<Rightarrow> ('k \<times> 'v) list \<Rightarrow> nat" where
  "count_rows P t = length (filter (P \<circ> snd) t)"

section \<open>The interface\<close>

locale sql_table =
  fixes empty :: 't
    and get :: "'t \<Rightarrow> 'k \<Rightarrow> 'v option"
    and put :: "'k \<Rightarrow> 'v \<Rightarrow> 't \<Rightarrow> 't"
    and del :: "'k \<Rightarrow> 't \<Rightarrow> 't"
    and rows :: "'t \<Rightarrow> ('k \<times> 'v) list"
    and inv :: "'t \<Rightarrow> bool"
  assumes inv_empty: "inv empty"
    and rows_empty: "rows empty = []"
    and inv_put: "inv t \<Longrightarrow> inv (put k v t)"
    and inv_del: "inv t \<Longrightarrow> inv (del k t)"
    and get_rows: "inv t \<Longrightarrow> get t k = Some v \<longleftrightarrow> (k, v) \<in> set (rows t)"
    and mset_put: "inv t \<Longrightarrow>
      mset (rows (put k v t)) = add_mset (k, v) (filter_mset (\<lambda>e. fst e \<noteq> k) (mset (rows t)))"
    and mset_del: "inv t \<Longrightarrow> mset (rows (del k t)) = filter_mset (\<lambda>e. fst e \<noteq> k) (mset (rows t))"
    and distinct_keys: "inv t \<Longrightarrow> distinct (map fst (rows t))"
begin

lemma set_put: "inv t \<Longrightarrow> set (rows (put k v t)) = insert (k, v) {e \<in> set (rows t). fst e \<noteq> k}"
  using mset_put [of t k v] by (metis set_mset_add_mset_insert set_mset_filter set_mset_mset)

lemma set_del: "inv t \<Longrightarrow> set (rows (del k t)) = {e \<in> set (rows t). fst e \<noteq> k}"
  using mset_del [of t k] by (metis set_mset_filter set_mset_mset)

lemma get_put: "inv t \<Longrightarrow> get (put k v t) k' = (if k' = k then Some v else get t k')"
proof -
  assume t: "inv t"
  show ?thesis
  proof (cases "k' = k")
    case True
    with t show ?thesis by (simp add: get_rows inv_put set_put)
  next
    case False
    then have "get (put k v t) k' = Some w \<longleftrightarrow> get t k' = Some w" for w
      using t by (auto simp: get_rows inv_put set_put)
    with False show ?thesis by (metis not_None_eq)
  qed
qed

lemma get_del: "inv t \<Longrightarrow> get (del k t) k' = (if k' = k then None else get t k')"
proof -
  assume t: "inv t"
  have "get (del k t) k' = Some w \<longleftrightarrow> k' \<noteq> k \<and> get t k' = Some w" for w
    using t by (auto simp: get_rows inv_del set_del)
  then show ?thesis by (metis not_None_eq)
qed

lemma get_empty: "get empty k = None"
  using get_rows [OF inv_empty, of k] by (cases "get empty k") (auto simp: rows_empty)

text \<open>Splitting off the row of one key.\<close>

lemma mset_split:
  assumes t: "inv t"
  shows "mset (rows t) =
    (case get t k of None \<Rightarrow> {#} | Some v \<Rightarrow> {#(k, v)#}) + filter_mset (\<lambda>e. fst e \<noteq> k) (mset (rows t))"
proof -
  have "filter_mset (\<lambda>e. fst e = k) (mset (rows t)) =
      (case get t k of None \<Rightarrow> {#} | Some v \<Rightarrow> {#(k, v)#})"
  proof (cases "get t k")
    case None
    then have "\<forall>e \<in> set (rows t). fst e \<noteq> k"
      using get_rows [OF t, of k] by (metis option.distinct(1) prod.collapse)
    then have "filter (\<lambda>e. fst e = k) (rows t) = []" by (simp add: filter_empty_conv)
    then have "filter_mset (\<lambda>e. fst e = k) (mset (rows t)) = {#}"
      by (metis mset.simps(1) mset_filter)
    with None show ?thesis by simp
  next
    case (Some v)
    then have "(k, v) \<in> set (rows t)" using get_rows [OF t] by blast
    then obtain xs ys where r: "rows t = xs @ (k, v) # ys" by (meson split_list)
    with distinct_keys [OF t] have "k \<notin> fst ` set xs" "k \<notin> fst ` set ys" by auto
    then have "filter (\<lambda>e. fst e = k) xs = []" "filter (\<lambda>e. fst e = k) ys = []"
      by (auto simp: filter_empty_conv)
    with r have "filter (\<lambda>e. fst e = k) (rows t) = [(k, v)]" by simp
    then have "filter_mset (\<lambda>e. fst e = k) (mset (rows t)) = {#(k, v)#}"
      by (metis mset.simps mset_filter)
    with Some show ?thesis by simp
  qed
  then show ?thesis
    by (metis multiset_partition)
qed

lemma count_rows_mset: "count_rows P (rows t) = size (filter_mset (P \<circ> snd) (mset (rows t)))"
  by (simp add: count_rows_def flip: mset_filter)

text \<open>How a statement changes the number of rows that satisfy \<open>P\<close>.\<close>

lemma count_split:
  assumes "inv t"
  shows "count_rows P (rows t) =
    (case get t k of None \<Rightarrow> 0 | Some v \<Rightarrow> if P v then 1 else 0) +
    size (filter_mset (P \<circ> snd) (filter_mset (\<lambda>e. fst e \<noteq> k) (mset (rows t))))"
  unfolding count_rows_mset
  by (subst (1) mset_split [OF assms, of k]) (auto split: option.splits)

lemma count_put:
  assumes "inv t"
  shows "count_rows P (rows (put k v t)) + (case get t k of None \<Rightarrow> 0 | Some w \<Rightarrow> if P w then 1 else 0) =
    count_rows P (rows t) + (if P v then 1 else 0)"
  using count_split [OF assms, of P k]
  by (simp add: count_rows_mset mset_put [OF assms])

lemma count_del:
  assumes "inv t"
  shows "count_rows P (rows (del k t)) + (case get t k of None \<Rightarrow> 0 | Some w \<Rightarrow> if P w then 1 else 0) =
    count_rows P (rows t)"
  using count_split [OF assms, of P k]
  by (simp add: count_rows_mset mset_del [OF assms])

lemma count_zero_iff: "inv t \<Longrightarrow> count_rows P (rows t) = 0 \<longleftrightarrow> (\<forall>k v. get t k = Some v \<longrightarrow> \<not> P v)"
  by (auto simp: count_rows_def filter_empty_conv get_rows)

lemma count_pos: "inv t \<Longrightarrow> get t k = Some v \<Longrightarrow> P v \<Longrightarrow> 0 < count_rows P (rows t)"
  using count_zero_iff by (metis gr0I)

end

text \<open>Tables read in key order, as the primary key's index is.\<close>

locale ordered_table = sql_table empty get put del rows inv
  for empty :: 't
    and get :: "'t \<Rightarrow> 'k::linorder \<Rightarrow> 'v option"
    and put :: "'k \<Rightarrow> 'v \<Rightarrow> 't \<Rightarrow> 't"
    and del :: "'k \<Rightarrow> 't \<Rightarrow> 't"
    and rows :: "'t \<Rightarrow> ('k \<times> 'v) list"
    and inv :: "'t \<Rightarrow> bool" +
  assumes rows_sorted: "inv t \<Longrightarrow> sorted_wrt (<) (map fst (rows t))"
begin

text \<open>A table is determined by its lookups.\<close>

lemma rows_eqI:
  assumes "inv t" "inv u" "\<And>k. get t k = get u k"
  shows "rows t = rows u"
proof -
  have s: "set (rows t) = set (rows u)"
    using assms get_rows [OF assms(1)] get_rows [OF assms(2)] by (auto simp: set_eq_iff)
  have "sorted_wrt (<) (map fst (rows t))" "sorted_wrt (<) (map fst (rows u))"
    using assms rows_sorted by auto
  then have m: "map fst (rows t) = map fst (rows u)"
    using s by (intro strict_sorted_equal) auto
  have "inj_on fst (set (rows t) \<union> set (rows u))"
    using s distinct_keys [OF assms(1)] by (simp add: distinct_map)
  with m show ?thesis by (rule map_inj_on)
qed

end

section \<open>The interpretation\<close>

lemma set_tput: "set (tput k v t) \<subseteq> insert (k, v) (set t)"
  by (induction t) auto

lemma keys_tput: "fst ` set (tput k v t) = insert k (fst ` set t)"
  by (induction t) (auto split: if_splits)

lemma tsorted_Cons: "tsorted (e # t) \<longleftrightarrow> (\<forall>e' \<in> set t. fst e < fst e') \<and> tsorted t"
  by (auto simp: tsorted_def)

lemma tsorted_tput: "tsorted t \<Longrightarrow> tsorted (tput k v t)"
proof (induction t)
  case Nil
  then show ?case by (simp add: tsorted_def)
next
  case (Cons e t)
  then have t: "tsorted t" and lt: "\<And>x. x \<in> fst ` set t \<Longrightarrow> fst e < x" by (auto simp: tsorted_Cons)
  show ?case
  proof (cases "fst e < k")
    case True
    then have "\<And>x. x \<in> fst ` set (tput k v t) \<Longrightarrow> fst e < x"
      using lt keys_tput [of k v t] by auto
    with True Cons.IH [OF t] show ?thesis by (simp add: tsorted_Cons)
  next
    case False
    with lt t show ?thesis by (force simp: tsorted_Cons)
  qed
qed

lemma tsorted_tdel: "tsorted t \<Longrightarrow> tsorted (tdel k t)"
  by (auto simp: tsorted_def tdel_def sorted_wrt_map intro: sorted_wrt_filter)

lemma mset_tput:
  "tsorted t \<Longrightarrow> mset (tput k v t) = add_mset (k, v) (filter_mset (\<lambda>e. fst e \<noteq> k) (mset t))"
proof (induction t)
  case (Cons e t)
  then have t: "tsorted t" and lt: "\<forall>e' \<in> set t. fst e < fst e'" by (auto simp: tsorted_Cons)
  show ?case
  proof (cases "fst e < k")
    case True
    with Cons.IH [OF t] show ?thesis by auto
  next
    case False
    with lt have "\<forall>e' \<in> set t. fst e' \<noteq> k" by auto
    then have "filter_mset (\<lambda>e. fst e \<noteq> k) (mset t) = mset t"
      by (simp flip: mset_filter)
    with False show ?thesis by auto
  qed
qed simp

lemma distinct_tsorted: "tsorted t \<Longrightarrow> distinct (map fst t)"
  by (simp add: tsorted_def strict_sorted_iff)

interpretation tbl: ordered_table "[]" map_of tput tdel "\<lambda>t. t" tsorted
proof unfold_locales
  fix t :: "('a, 'b) table" and k v
  show "tsorted ([] :: ('a, 'b) table)" by (simp add: tsorted_def)
  show "[] = ([] :: ('a \<times> 'b) list)" by simp
  assume t: "tsorted t"
  show "tsorted (tput k v t)" using t by (rule tsorted_tput)
  show "tsorted (tdel k t)" using t by (rule tsorted_tdel)
  show "(map_of t k = Some v) = ((k, v) \<in> set t)"
    using distinct_tsorted [OF t] by simp
  show "mset (tput k v t) = add_mset (k, v) (filter_mset (\<lambda>e. fst e \<noteq> k) (mset t))"
    using t by (rule mset_tput)
  show "mset (tdel k t) = filter_mset (\<lambda>e. fst e \<noteq> k) (mset t)"
    by (simp add: tdel_def)
  show "distinct (map fst t)" using t by (rule distinct_tsorted)
  show "sorted_wrt (<) (map fst t)" using t by (simp add: tsorted_def)
qed

lemmas tbl_simps = tbl.get_put tbl.get_del
lemmas tbl_inv = tbl.inv_empty tbl.inv_put tbl.inv_del

end
