(* ===== verification/Store_Bucket.thy ===== *)
theory Store_Bucket
  imports Store_Table Go_Conv
begin

text \<open>
  One bucket: \<^verbatim>\<open>pkg/store/bucket.go\<close> and \<^verbatim>\<open>pkg/store/blobwriter.go\<close>. A bucket is a
  directory with a metadata database (\<open>db\<close>: the tables \<^verbatim>\<open>bucket_info\<close>, \<^verbatim>\<open>objects\<close> and
  \<^verbatim>\<open>blobs\<close>), the blob files and the temporary files. Every operation takes the environment of
  the call (the clock, which system or driver calls fail, the names \<^verbatim>\<open>CreateTemp\<close> tries), so a
  failed call is a branch of the model. A transaction works on a copy of the database that is
  installed when it commits; every early return leaves the old one.
\<close>

section \<open>What the environment and the libraries provide\<close>

text \<open>The digest functions and the JSON coding of the metadata map.\<close>

record lib =
  lib_sha256 :: "bytes \<Rightarrow> bytes"
  lib_md5 :: "bytes \<Rightarrow> bytes"
  lib_crc32c :: "bytes \<Rightarrow> 32 word"
  lib_marshal :: "metadata \<Rightarrow> string"
  lib_unmarshal :: "string \<Rightarrow> metadata option"

text \<open>\<open>env_accepts i = Some n\<close>: the device takes only \<open>n\<close> bytes in the \<open>i\<close>-th write of the
  operation and reports an error.\<close>

record env =
  env_now :: int
  env_fails :: "syscall \<Rightarrow> bool"
  env_tmp_names :: "string list"
  env_accepts :: "nat \<Rightarrow> nat option"

section \<open>State\<close>

record object_row =
  or_generation :: int
  or_metageneration :: int
  or_sha256 :: string
  or_size :: int
  or_md5 :: bytes
  or_crc32c :: int
  or_content_type :: string
  or_metadata :: string
  or_created :: int
  or_updated :: int

record blob_row =
  br_size :: int
  br_refcount :: int

text \<open>\<open>db_info\<close> is the single row of \<^verbatim>\<open>bucket_info\<close>: creation time and metageneration.\<close>

record db =
  db_info :: "(int \<times> int) option"
  db_objects :: "(string, object_row) table"
  db_blobs :: "(string, blob_row) table"

text \<open>What a bucket's directory holds: \<^verbatim>\<open>data.sqlite\<close>, the blob files under \<^verbatim>\<open>objects/\<close> by their
  relative path, and the files of \<^verbatim>\<open>tmp/\<close> (\<open>None\<close>: there is no such subdirectory).\<close>

record bucket_dir =
  bd_db :: "db option"
  bd_objects :: "(string, bytes) table"
  bd_tmp :: "(string, bytes) table option"

text \<open>A bucket handle (\<^verbatim>\<open>*Bucket\<close>) together with what its directory holds at the time of the
  call; the directory is \<open>None\<close> once it has been removed.\<close>

record bucket =
  b_name :: string
  b_closed :: bool
  b_dir :: "bucket_dir option"

definition empty_dir :: bucket_dir where
  "empty_dir = \<lparr>bd_db = None, bd_objects = [], bd_tmp = None\<rparr>"

definition dir_tmp :: "bucket \<Rightarrow> (string, bytes) table" where
  "dir_tmp b = (case b_dir b of None \<Rightarrow> [] | Some d \<Rightarrow> (case bd_tmp d of None \<Rightarrow> [] | Some t \<Rightarrow> t))"

definition dir_objects :: "bucket \<Rightarrow> (string, bytes) table" where
  "dir_objects b = (case b_dir b of None \<Rightarrow> [] | Some d \<Rightarrow> bd_objects d)"

definition b_db :: "bucket \<Rightarrow> db option" where
  "b_db b = (case b_dir b of None \<Rightarrow> None | Some d \<Rightarrow> bd_db d)"

definition map_dir :: "(bucket_dir \<Rightarrow> bucket_dir) \<Rightarrow> bucket \<Rightarrow> bucket" where
  "map_dir f b = b\<lparr>b_dir := map_option f (b_dir b)\<rparr>"

definition set_db :: "db \<Rightarrow> bucket \<Rightarrow> bucket" where
  "set_db x b = map_dir (\<lambda>d. d\<lparr>bd_db := Some x\<rparr>) b"

section \<open>Names and paths\<close>

definition validObjectName :: "string \<Rightarrow> bool" where
  "validObjectName name \<longleftrightarrow>
     name \<noteq> [] \<and> name \<noteq> ''.'' \<and> name \<noteq> ''..'' \<and>
     \<not> ContainsAny name [char_of (0::nat), char_of (10::nat), char_of (13::nat)] \<and> length name \<le> 1024"

text \<open>The path of a blob below the bucket's \<^verbatim>\<open>objects\<close> directory.\<close>

definition blobPath :: "string \<Rightarrow> string" where
  "blobPath sha256Hex = take 2 sha256Hex @ ''/'' @ sha256Hex"

lemma blobPath_inject [simp]: "blobPath s = blobPath t \<longleftrightarrow> s = t"
proof
  assume eq: "blobPath s = blobPath t"
  then have "length (blobPath s) = length (blobPath t)" by simp
  then have "length s = length t" by (simp add: blobPath_def min_def split: if_splits)
  with eq show "s = t" by (simp add: blobPath_def)
qed simp

section \<open>Reading the database\<close>

definition scanObject :: "lib \<Rightarrow> string \<Rightarrow> string \<Rightarrow> object_row \<Rightarrow> store_error + object_info" where
  "scanObject L bname name r =
     (if or_crc32c r < 0 \<or> 2 ^ 32 \<le> or_crc32c r then Inl (ErrCorrupt name)
      else (case (if or_metadata r \<noteq> [] \<and> or_metadata r \<noteq> ''{}''
                  then lib_unmarshal L (or_metadata r) else Some []) of
              None \<Rightarrow> Inl (ErrCorrupt name)
            | Some md \<Rightarrow>
                Inr \<lparr>oi_Bucket = bname, oi_Name = name, oi_Generation = or_generation r,
                     oi_Metageneration = or_metageneration r, oi_Size = or_size r,
                     oi_SHA256 = or_sha256 r, oi_MD5 = or_md5 r,
                     oi_CRC32C = word_of_int (or_crc32c r), oi_ContentType = or_content_type r,
                     oi_Metadata = md, oi_Created = or_created r, oi_Updated = or_updated r\<rparr>))"

text \<open>The query \<^verbatim>\<open>SELECT ... FROM objects WHERE name = ?\<close> with the row scanned; no row is not an
  error here.\<close>

definition selectObject ::
  "lib \<Rightarrow> env \<Rightarrow> string \<Rightarrow> string \<Rightarrow> db \<Rightarrow> store_error + object_info option" where
  "selectObject L e bname name x =
     (if env_fails e Sys_SelectObject then Inl (ErrCall Sys_SelectObject)
      else (case map_of (db_objects x) name of
              None \<Rightarrow> Inr None
            | Some r \<Rightarrow> result_bind (scanObject L bname name r) (\<lambda>i. Inr (Some i))))"

text \<open>An operation on the database of a closed handle fails.\<close>

definition openDb :: "bucket \<Rightarrow> store_error + db" where
  "openDb b =
     (if b_closed b then Inl ErrDbClosed
      else (case b_db b of None \<Rightarrow> Inl ErrDbClosed | Some x \<Rightarrow> Inr x))"

definition getObject_b :: "lib \<Rightarrow> env \<Rightarrow> bucket \<Rightarrow> string \<Rightarrow> store_error + object_info" where
  "getObject_b L e b name =
     result_bind (openDb b) (\<lambda>x.
     result_bind (selectObject L e (b_name b) name x) (\<lambda>row.
     case row of None \<Rightarrow> Inl ErrObjectNotFound | Some i \<Rightarrow> Inr i))"

text \<open>\<^verbatim>\<open>OpenObject\<close>: the description and the content of the blob file, which is never written
  again once it is in place.\<close>

definition openObject_b :: "lib \<Rightarrow> env \<Rightarrow> bucket \<Rightarrow> string \<Rightarrow> store_error + object_info \<times> bytes" where
  "openObject_b L e b name =
     result_bind (getObject_b L e b name) (\<lambda>i.
     case (if env_fails e Sys_OpenBlob then None else map_of (dir_objects b) (blobPath (oi_SHA256 i))) of
       None \<Rightarrow> Inl (ErrCall Sys_OpenBlob)
     | Some c \<Rightarrow> Inr (i, c))"

definition info_b :: "env \<Rightarrow> bucket \<Rightarrow> store_error + bucket_info" where
  "info_b e b =
     result_bind (openDb b) (\<lambda>x.
     if env_fails e Sys_BucketInfo then Inl (ErrCall Sys_BucketInfo)
     else (case db_info x of
             None \<Rightarrow> Inl (ErrCall Sys_BucketInfo)
           | Some (created, metagen) \<Rightarrow>
               Inr \<lparr>bi_Name = b_name b, bi_Created = created, bi_Metageneration = metagen\<rparr>))"

section \<open>Deleting\<close>

text \<open>\<^verbatim>\<open>decrefBlob\<close>, inside a transaction: whether the blob file is now orphaned.\<close>

definition decrefBlob :: "env \<Rightarrow> string \<Rightarrow> db \<Rightarrow> store_error + bool \<times> db" where
  "decrefBlob e sha x =
     (if env_fails e Sys_UpdateBlob then Inl (ErrCall Sys_UpdateBlob)
      else
        let x1 = (case map_of (db_blobs x) sha of
                    None \<Rightarrow> x
                  | Some r \<Rightarrow> x\<lparr>db_blobs := tput sha (r\<lparr>br_refcount := br_refcount r - 1\<rparr>) (db_blobs x)\<rparr>)
        in if env_fails e Sys_SelectBlob then Inl (ErrCall Sys_SelectBlob)
           else (case map_of (db_blobs x1) sha of
                   None \<Rightarrow> Inr (False, x1)
                 | Some r \<Rightarrow>
                     if br_refcount r \<le> 0
                     then (if env_fails e Sys_DeleteBlob then Inl (ErrCall Sys_DeleteBlob)
                           else Inr (True, x1\<lparr>db_blobs := tdel sha (db_blobs x1)\<rparr>))
                     else Inr (False, x1)))"

definition removeBlob :: "env \<Rightarrow> string \<Rightarrow> bucket \<Rightarrow> bucket" where
  "removeBlob e sha b =
     (if env_fails e Sys_RemoveBlob then b
      else map_dir (\<lambda>d. d\<lparr>bd_objects := tdel (blobPath sha) (bd_objects d)\<rparr>) b)"

text \<open>The transaction of \<^verbatim>\<open>DeleteObject\<close>: the new database, whether the blob is orphaned, and
  its digest.\<close>

definition delete_tx ::
  "lib \<Rightarrow> env \<Rightarrow> string \<Rightarrow> string \<Rightarrow> conditions \<Rightarrow> db \<Rightarrow> store_error + db \<times> bool \<times> string" where
  "delete_tx L e bname name conds x =
     result_bind (selectObject L e bname name x) (\<lambda>existing.
     result_bind (check conds existing) (\<lambda>_.
     case existing of
       None \<Rightarrow> Inl ErrObjectNotFound
     | Some i \<Rightarrow>
         if env_fails e Sys_DeleteObject then Inl (ErrCall Sys_DeleteObject)
         else result_bind (decrefBlob e (oi_SHA256 i) (x\<lparr>db_objects := tdel name (db_objects x)\<rparr>))
                (\<lambda>(orphan, x'). Inr (x', orphan, oi_SHA256 i))))"

definition beginTx :: "env \<Rightarrow> bucket \<Rightarrow> store_error + db" where
  "beginTx e b =
     result_bind (openDb b) (\<lambda>x. if env_fails e Sys_Begin then Inl (ErrCall Sys_Begin) else Inr x)"

text \<open>\<^verbatim>\<open>DeleteObject\<close> from the point where the handle is known and the commit lock is held.\<close>

definition deleteObject_b ::
  "lib \<Rightarrow> env \<Rightarrow> bucket \<Rightarrow> string \<Rightarrow> conditions \<Rightarrow> (store_error + unit) \<times> bucket" where
  "deleteObject_b L e b name conds =
     (case result_bind (beginTx e b) (delete_tx L e (b_name b) name conds) of
        Inl er \<Rightarrow> (Inl er, b)
      | Inr (x', orphan, sha) \<Rightarrow>
          if env_fails e Sys_TxCommit then (Inl (ErrCall Sys_TxCommit), b)
          else (Inr (), (if orphan then removeBlob e sha (set_db x' b) else set_db x' b)))"

section \<open>Writing: the BlobWriter\<close>

text \<open>The three digests are functions of the bytes fed to them, so each running hash is the
  list of bytes it has been given. \<open>bw_b\<close> is the handle the writer was opened on.\<close>

record blob_writer =
  bw_b :: nat
  bw_tmp :: string
  bw_sha :: bytes
  bw_md5h :: bytes
  bw_crc :: bytes
  bw_size :: int
  bw_done :: bool

text \<open>\<^verbatim>\<open>os.CreateTemp\<close>: the first of the random names that does not exist.\<close>

definition createTemp :: "env \<Rightarrow> bucket \<Rightarrow> (store_error + string) \<times> bucket" where
  "createTemp e b =
     (case b_dir b of
        None \<Rightarrow> (Inl (ErrCall Sys_CreateTemp), b)
      | Some d \<Rightarrow>
          (case bd_tmp d of
             None \<Rightarrow> (Inl (ErrCall Sys_CreateTemp), b)
           | Some t \<Rightarrow>
               (case (if env_fails e Sys_CreateTemp then None
                      else find (\<lambda>n. map_of t n = None) (env_tmp_names e)) of
                  None \<Rightarrow> (Inl (ErrCall Sys_CreateTemp), b)
                | Some n \<Rightarrow> (Inr n, b\<lparr>b_dir := Some (d\<lparr>bd_tmp := Some (tput n [] t)\<rparr>)\<rparr>))))"

text \<open>The end of \<^verbatim>\<open>NewBlobWriter\<close>.\<close>

definition newBlobWriter_b :: "env \<Rightarrow> nat \<Rightarrow> bucket \<Rightarrow> (store_error + blob_writer) \<times> bucket" where
  "newBlobWriter_b e h b =
     (case createTemp e b of
        (Inl er, b') \<Rightarrow> (Inl er, b')
      | (Inr n, b') \<Rightarrow>
          (Inr \<lparr>bw_b = h, bw_tmp = n, bw_sha = [], bw_md5h = [], bw_crc = [], bw_size = 0,
                bw_done = False\<rparr>, b'))"

text \<open>Appending to a file through its open handle; a file that has been unlinked has no entry.\<close>

definition appendTmp :: "string \<Rightarrow> bytes \<Rightarrow> bucket \<Rightarrow> bucket" where
  "appendTmp n p b =
     map_dir (\<lambda>d. d\<lparr>bd_tmp := map_option (\<lambda>t.
        case map_of t n of None \<Rightarrow> t | Some c \<Rightarrow> tput n (c @ p) t) (bd_tmp d)\<rparr>) b"

text \<open>\<^verbatim>\<open>BlobWriter.Write\<close>: the number of bytes written and whether it failed. \<open>acc\<close> is what the
  device accepts in this call.\<close>

definition write_b ::
  "nat option \<Rightarrow> blob_writer \<Rightarrow> bytes \<Rightarrow> bucket \<Rightarrow> (nat \<times> store_error option) \<times> blob_writer \<times> bucket" where
  "write_b acc w p b =
     (if bw_done w then ((0, Some (ErrFinished ''write on finished BlobWriter'')), w, b)
      else
        let n = (case acc of None \<Rightarrow> length p | Some k \<Rightarrow> min k (length p));
            err = (case acc of None \<Rightarrow> None | Some _ \<Rightarrow> Some (ErrCall Sys_Write));
            q = take n p
        in if 0 < n
           then ((n, err),
                 w\<lparr>bw_sha := bw_sha w @ q, bw_md5h := bw_md5h w @ q, bw_crc := bw_crc w @ q,
                   bw_size := wrap64 (bw_size w + int n)\<rparr>,
                 appendTmp (bw_tmp w) q b)
           else ((n, err), w, b))"

text \<open>A body being read: the chunks its reads return, then how it ends.\<close>

datatype read_end = EOF | ReadErr string

text \<open>\<^verbatim>\<open>io.Copy\<close> into a writer: bytes written and the error, if any; \<open>i\<close> counts the writes.\<close>

fun copy_b ::
  "env \<Rightarrow> nat \<Rightarrow> blob_writer \<Rightarrow> bytes list \<Rightarrow> read_end \<Rightarrow> bucket
   \<Rightarrow> (nat \<times> store_error option) \<times> blob_writer \<times> bucket" where
  "copy_b e i w [] end b =
     ((0, case end of EOF \<Rightarrow> None | ReadErr m \<Rightarrow> Some (ErrBody m)), w, b)"
| "copy_b e i w (p # ps) end b =
     (if p = [] then copy_b e i w ps end b
      else (case write_b (env_accepts e i) w p b of
              ((n, Some er), w', b') \<Rightarrow> ((n, Some er), w', b')
            | ((n, None), w', b') \<Rightarrow>
                if n \<noteq> length p then ((n, Some (ErrBody ''short write'')), w', b')
                else (case copy_b e (Suc i) w' ps end b' of ((m, r), w2, b2) \<Rightarrow> ((n + m, r), w2, b2))))"

definition checksums :: "lib \<Rightarrow> blob_writer \<Rightarrow> string \<times> bytes \<times> 32 word" where
  "checksums L w =
     (hexEncode (lib_sha256 L (bw_sha w)), lib_md5 L (bw_md5h w), lib_crc32c L (bw_crc w))"

definition removeTmp :: "env \<Rightarrow> string \<Rightarrow> bucket \<Rightarrow> bucket" where
  "removeTmp e n b =
     (if env_fails e Sys_RemoveTmp then b
      else map_dir (\<lambda>d. d\<lparr>bd_tmp := map_option (tdel n) (bd_tmp d)\<rparr>) b)"

definition abort_b :: "env \<Rightarrow> blob_writer \<Rightarrow> bucket \<Rightarrow> blob_writer \<times> bucket" where
  "abort_b e w b =
     (if bw_done w then (w, b) else (w\<lparr>bw_done := True\<rparr>, removeTmp e (bw_tmp w) b))"

section \<open>Committing\<close>

text \<open>Installing the blob file: an existing file is the same content already. \<^verbatim>\<open>MkdirAll\<close>
  creates every missing directory on the path, the bucket's own included.\<close>

definition installBlob :: "env \<Rightarrow> string \<Rightarrow> string \<Rightarrow> bucket \<Rightarrow> (store_error + unit) \<times> bucket" where
  "installBlob e sha tmp b =
     (if map_of (dir_objects b) (blobPath sha) \<noteq> None then (Inr (), b)
      else if env_fails e Sys_MkdirShard then (Inl (ErrCall Sys_MkdirShard), b)
      else
        let d = (case b_dir b of None \<Rightarrow> empty_dir | Some d \<Rightarrow> d)
        in (case (if env_fails e Sys_Rename then None else map_of (dir_tmp b) tmp) of
              None \<Rightarrow> (Inl (ErrCall Sys_Rename), b\<lparr>b_dir := Some d\<rparr>)
            | Some c \<Rightarrow>
                (Inr (), b\<lparr>b_dir := Some (d\<lparr>bd_tmp := map_option (tdel tmp) (bd_tmp d),
                                             bd_objects := tput (blobPath sha) c (bd_objects d)\<rparr>)\<rparr>)))"

definition upsertBlob :: "string \<Rightarrow> int \<Rightarrow> db \<Rightarrow> db" where
  "upsertBlob sha sz x =
     x\<lparr>db_blobs := tput sha
        (case map_of (db_blobs x) sha of
           None \<Rightarrow> \<lparr>br_size = sz, br_refcount = 1\<rparr>
         | Some r \<Rightarrow> r\<lparr>br_refcount := br_refcount r + 1\<rparr>) (db_blobs x)\<rparr>"

definition next_generation :: "int \<Rightarrow> object_info option \<Rightarrow> int" where
  "next_generation now existing =
     (case existing of
        None \<Rightarrow> now
      | Some i \<Rightarrow> if now \<le> oi_Generation i then wrap64 (oi_Generation i + 1) else now)"

text \<open>The row \<^verbatim>\<open>Commit\<close> inserts and the description it returns.\<close>

definition commit_row ::
  "lib \<Rightarrow> int \<Rightarrow> put_options \<Rightarrow> int \<Rightarrow> string \<Rightarrow> bytes \<Rightarrow> 32 word \<Rightarrow> int \<Rightarrow> object_row" where
  "commit_row L now opts generation shaHex md5Sum crc sz =
     \<lparr>or_generation = generation, or_metageneration = 1, or_sha256 = shaHex, or_size = sz,
      or_md5 = md5Sum, or_crc32c = uint crc, or_content_type = po_ContentType opts,
      or_metadata = (if po_Metadata opts \<noteq> [] then lib_marshal L (po_Metadata opts) else ''{}''),
      or_created = now, or_updated = now\<rparr>"

definition commit_info ::
  "string \<Rightarrow> string \<Rightarrow> int \<Rightarrow> put_options \<Rightarrow> int \<Rightarrow> string \<Rightarrow> bytes \<Rightarrow> 32 word \<Rightarrow> int \<Rightarrow> object_info" where
  "commit_info bname name now opts generation shaHex md5Sum crc sz =
     \<lparr>oi_Bucket = bname, oi_Name = name, oi_Generation = generation, oi_Metageneration = 1,
      oi_Size = sz, oi_SHA256 = shaHex, oi_MD5 = md5Sum, oi_CRC32C = crc,
      oi_ContentType = po_ContentType opts, oi_Metadata = po_Metadata opts,
      oi_Created = now, oi_Updated = now\<rparr>"

text \<open>The transaction of \<^verbatim>\<open>Commit\<close>: the new database, the description of the new object and the
  digest of a blob orphaned by the overwrite (empty if none).\<close>

definition commit_tx ::
  "lib \<Rightarrow> env \<Rightarrow> string \<Rightarrow> string \<Rightarrow> put_options \<Rightarrow> string \<Rightarrow> bytes \<Rightarrow> 32 word \<Rightarrow> int \<Rightarrow> db
   \<Rightarrow> store_error + db \<times> object_info \<times> string" where
  "commit_tx L e bname name opts shaHex md5Sum crc sz x =
     result_bind (selectObject L e bname name x) (\<lambda>existing.
     result_bind (check (po_Conditions opts) existing) (\<lambda>_.
     let now = env_now e; generation = next_generation now existing
     in if env_fails e Sys_UpsertBlob then Inl (ErrCall Sys_UpsertBlob)
        else
          result_bind
            (case existing of
               None \<Rightarrow> Inr (False, upsertBlob shaHex sz x)
             | Some i \<Rightarrow> decrefBlob e (oi_SHA256 i) (upsertBlob shaHex sz x))
            (\<lambda>(orphaned, x2).
          let orphan = (if orphaned then oi_SHA256 (the existing) else [])
          in if po_Metadata opts \<noteq> [] \<and> env_fails e Sys_Marshal then Inl (ErrCall Sys_Marshal)
             else if env_fails e Sys_InsertObject then Inl (ErrCall Sys_InsertObject)
             else Inr (x2\<lparr>db_objects := tput name
                              (commit_row L now opts generation shaHex md5Sum crc sz) (db_objects x2)\<rparr>,
                       commit_info bname name now opts generation shaHex md5Sum crc sz,
                       orphan))))"

text \<open>The body of \<^verbatim>\<open>Commit\<close> between the check of \<^verbatim>\<open>w.done\<close> and the deferred removal of the
  temporary file.\<close>

definition commit_body ::
  "lib \<Rightarrow> env \<Rightarrow> blob_writer \<Rightarrow> string \<Rightarrow> put_options \<Rightarrow> bucket
   \<Rightarrow> (store_error + object_info) \<times> bucket" where
  "commit_body L e w name opts b =
     (if \<not> validObjectName name then (Inl (ErrInvalidName name), b)
      else if env_fails e Sys_Sync then (Inl (ErrCall Sys_Sync), b)
      else if env_fails e Sys_CloseTemp then (Inl (ErrCall Sys_CloseTemp), b)
      else
        let (shaHex, md5Sum, crc) = checksums L w
        in (case installBlob e shaHex (bw_tmp w) b of
              (Inl er, b1) \<Rightarrow> (Inl er, b1)
            | (Inr _, b1) \<Rightarrow>
                (case result_bind (beginTx e b1)
                        (commit_tx L e (b_name b) name opts shaHex md5Sum crc (bw_size w)) of
                   Inl er \<Rightarrow> (Inl er, b1)
                 | Inr (x', i, orphan) \<Rightarrow>
                     if env_fails e Sys_TxCommit then (Inl (ErrCall Sys_TxCommit), b1)
                     else (Inr i, (if orphan \<noteq> [] then removeBlob e orphan (set_db x' b1)
                                   else set_db x' b1)))))"

definition commit_b ::
  "lib \<Rightarrow> env \<Rightarrow> blob_writer \<Rightarrow> string \<Rightarrow> put_options \<Rightarrow> bucket
   \<Rightarrow> (store_error + object_info) \<times> blob_writer \<times> bucket" where
  "commit_b L e w name opts b =
     (if bw_done w then (Inl (ErrFinished ''commit on finished BlobWriter''), w, b)
      else (let (r, b') = commit_body L e w name opts b
            in (r, w\<lparr>bw_done := True\<rparr>, removeTmp e (bw_tmp w) b')))"

end
