(* ===== verification/Http.thy ===== *)
theory Http
  imports Go_Conv Store_Bucket
begin

text \<open>
  What the two protocol servers use of Go's \<^verbatim>\<open>net/http\<close>, \<^verbatim>\<open>net/url\<close>, \<^verbatim>\<open>encoding/base64\<close> and
  \<^verbatim>\<open>encoding/binary\<close>: requests with their headers, query parameters and body, responses as
  values, and the escaping and coding functions. A response body is the value handed to the XML
  or JSON encoder; the text of an error that is not a constant of the source is the error itself.
\<close>

section \<open>Requests and responses\<close>

text \<open>A body being read: what its reads return one after the other, and how it ends.\<close>

type_synonym body = "bytes list \<times> read_end"

text \<open>Header names are in canonical form, as \<^verbatim>\<open>http.Server\<close> delivers them; query parameters are
  decoded. \<open>rq_TLS\<close> tells whether the connection is encrypted.\<close>

record request =
  rq_Method :: string
  rq_EscapedPath :: string
  rq_Path :: string
  rq_Query :: "(string \<times> string) list"
  rq_Header :: "(string \<times> string list) list"
  rq_Host :: string
  rq_TLS :: bool
  rq_ContentLength :: int
  rq_Body :: body

definition lower_char :: "char \<Rightarrow> char" where
  "lower_char c = (if 65 \<le> byte_val c \<and> byte_val c \<le> 90 then char_of (byte_val c + 32) else c)"

definition upper_char :: "char \<Rightarrow> char" where
  "upper_char c = (if 97 \<le> byte_val c \<and> byte_val c \<le> 122 then char_of (byte_val c - 32) else c)"

text \<open>\<^verbatim>\<open>strings.ToLower\<close> and \<^verbatim>\<open>strings.EqualFold\<close> on ASCII, which header names are.\<close>

definition ToLower :: "string \<Rightarrow> string" where
  "ToLower s = map lower_char s"

definition EqualFold :: "string \<Rightarrow> string \<Rightarrow> bool" where
  "EqualFold s t \<longleftrightarrow> ToLower s = ToLower t"

text \<open>\<^verbatim>\<open>CanonicalMIMEHeaderKey\<close> on a header name: the first letter and every letter after a hyphen
  upper case, the others lower case.\<close>

fun canonical_loop :: "bool \<Rightarrow> string \<Rightarrow> string" where
  "canonical_loop up [] = []"
| "canonical_loop up (c # s) = (if up then upper_char c else lower_char c) # canonical_loop (c = CHR ''-'') s"

definition canonicalKey :: "string \<Rightarrow> string" where
  "canonicalKey k = canonical_loop True k"

text \<open>\<^verbatim>\<open>Header.Get\<close> and \<^verbatim>\<open>Values.Get\<close>: the first value, empty if there is none.\<close>

definition header_get :: "request \<Rightarrow> string \<Rightarrow> string" where
  "header_get r k =
     (case map_of (rq_Header r) (canonicalKey k) of Some (v # vs) \<Rightarrow> v | _ \<Rightarrow> [])"

definition query_get :: "request \<Rightarrow> string \<Rightarrow> string" where
  "query_get r k = (case map_of (rq_Query r) k of None \<Rightarrow> [] | Some v \<Rightarrow> v)"

definition query_has :: "request \<Rightarrow> string \<Rightarrow> bool" where
  "query_has r k \<longleftrightarrow> map_of (rq_Query r) k \<noteq> None"

text \<open>A message of a response: a text of the source, with the text of an error behind it, or a
  number or a header between two texts; \<open>Num_text\<close> is the text of a \<^verbatim>\<open>strconv.NumError\<close>.\<close>

datatype message = Text string | Error_text string store_error | Other_error string string
  | Text_int string int string | Text_int2 string int string string | Num_text string num_error

text \<open>A response: status, headers in the order they were set, and the body.\<close>

record 'b response =
  rs_Status :: nat
  rs_Header :: "(string \<times> string) list"
  rs_Body :: 'b

definition respond :: "nat \<Rightarrow> (string \<times> string) list \<Rightarrow> 'b \<Rightarrow> 'b response" where
  "respond status hs b = \<lparr>rs_Status = status, rs_Header = hs, rs_Body = b\<rparr>"

section \<open>Escaping\<close>

definition hex_val :: "char \<Rightarrow> nat option" where
  "hex_val c =
     (let v = byte_val c
      in if 48 \<le> v \<and> v \<le> 57 then Some (v - 48)
         else if 97 \<le> v \<and> v \<le> 102 then Some (v - 97 + 10)
         else if 65 \<le> v \<and> v \<le> 70 then Some (v - 65 + 10)
         else None)"

text \<open>\<^verbatim>\<open>url.PathUnescape\<close>: \<open>None\<close> is its error.\<close>

fun PathUnescape :: "string \<Rightarrow> string option" where
  "PathUnescape [] = Some []"
| "PathUnescape (c # s) =
     (if c = CHR ''%'' then
        (case s of
           a # b # s' \<Rightarrow>
             (case (hex_val a, hex_val b) of
                (Some x, Some y) \<Rightarrow> map_option ((#) (char_of (16 * x + y))) (PathUnescape s')
              | _ \<Rightarrow> None)
         | _ \<Rightarrow> None)
      else map_option ((#) c) (PathUnescape s))"

text \<open>Unescaping the segments of a path; \<open>None\<close> is an encoding error.\<close>

fun unescapeAll :: "string list \<Rightarrow> string list option" where
  "unescapeAll [] = Some []"
| "unescapeAll (p # ps) =
     (case PathUnescape p of None \<Rightarrow> None | Some seg \<Rightarrow> map_option ((#) seg) (unescapeAll ps))"

definition upper_hex :: "nat \<Rightarrow> char" where
  "upper_hex n = ''0123456789ABCDEF'' ! (n mod 16)"

definition unreserved :: "char \<Rightarrow> bool" where
  "unreserved c \<longleftrightarrow>
     (let v = byte_val c
      in (97 \<le> v \<and> v \<le> 122) \<or> (65 \<le> v \<and> v \<le> 90) \<or> (48 \<le> v \<and> v \<le> 57) \<or> c \<in> set ''-_.~'')"

definition escape_char :: "char \<Rightarrow> string" where
  "escape_char c = [CHR ''%'', upper_hex (byte_val c div 16), upper_hex (byte_val c)]"

text \<open>\<^verbatim>\<open>url.QueryEscape\<close>.\<close>

definition QueryEscape :: "string \<Rightarrow> string" where
  "QueryEscape s =
     concat (map (\<lambda>c. if unreserved c then [c] else if c = CHR '' '' then ''+'' else escape_char c) s)"

text \<open>What a client does to put a name into a path: \<^verbatim>\<open>url.PathEscape\<close> escapes at least every
  byte that is not unreserved.\<close>

definition path_escape :: "string \<Rightarrow> string" where
  "path_escape s = concat (map (\<lambda>c. if unreserved c then [c] else escape_char c) s)"

lemma hex_val_upper_hex: "n < 16 \<Longrightarrow> hex_val (upper_hex n) = Some n"
proof -
  assume "n < 16"
  moreover have "\<forall>n \<in> set [0..<16]. hex_val (upper_hex n) = Some n" by code_simp
  ultimately show ?thesis by simp
qed

lemma PathUnescape_escape_char: "PathUnescape (escape_char c @ s) = map_option ((#) c) (PathUnescape s)"
proof -
  have "byte_val c div 16 < 16" using byte_val_less [of c] by (simp add: less_mult_imp_div_less)
  then have "hex_val (upper_hex (byte_val c div 16)) = Some (byte_val c div 16)" by (rule hex_val_upper_hex)
  moreover have "hex_val (upper_hex (byte_val c)) = Some (byte_val c mod 16)"
    using hex_val_upper_hex [of "byte_val c mod 16"] by (simp add: upper_hex_def)
  moreover have "char_of (16 * (byte_val c div 16) + byte_val c mod 16) = c"
    by (simp add: byte_val_def)
  ultimately show ?thesis by (simp add: escape_char_def)
qed

lemma unreserved_not_percent: "unreserved c \<Longrightarrow> c \<noteq> CHR ''%'' \<and> c \<noteq> CHR ''/''"
  by (auto simp: unreserved_def Let_def byte_val_def)

lemma PathUnescape_path_escape: "PathUnescape (path_escape s) = Some s"
  by (induction s) (auto simp: path_escape_def PathUnescape_escape_char dest: unreserved_not_percent)

section \<open>Base 64 and big-endian numbers\<close>

text \<open>The standard alphabet: upper case letters, lower case letters, digits, plus and slash.\<close>

definition b64_digit :: "nat \<Rightarrow> char" where
  "b64_digit n =
     (if n < 26 then char_of (n + 65) else if n < 52 then char_of (n + 71)
      else if n < 62 then char_of (n - 4) else if n = 62 then CHR ''+'' else CHR ''/'')"

definition b64_val :: "char \<Rightarrow> nat option" where
  "b64_val c =
     (let v = byte_val c
      in if 65 \<le> v \<and> v \<le> 90 then Some (v - 65)
         else if 97 \<le> v \<and> v \<le> 122 then Some (v - 97 + 26)
         else if 48 \<le> v \<and> v \<le> 57 then Some (v - 48 + 52)
         else if c = CHR ''+'' then Some 62 else if c = CHR ''/'' then Some 63 else None)"

text \<open>\<^verbatim>\<open>base64.StdEncoding.EncodeToString\<close>.\<close>

fun b64_encode :: "bytes \<Rightarrow> string" where
  "b64_encode [] = []"
| "b64_encode [a] =
     (let x = byte_val a in [b64_digit (x div 4), b64_digit (x mod 4 * 16), CHR ''='', CHR ''=''])"
| "b64_encode [a, b] =
     (let x = byte_val a; y = byte_val b
      in [b64_digit (x div 4), b64_digit (x mod 4 * 16 + y div 16), b64_digit (y mod 16 * 4), CHR ''=''])"
| "b64_encode (a # b # c # s) =
     (let x = byte_val a; y = byte_val b; z = byte_val c
      in b64_digit (x div 4) # b64_digit (x mod 4 * 16 + y div 16) # b64_digit (y mod 16 * 4 + z div 64) #
         b64_digit (z mod 64) # b64_encode s)"

text \<open>\<^verbatim>\<open>base64.StdEncoding.DecodeString\<close>: line breaks are skipped, padding is required, and bits
  behind the last byte are ignored. \<open>None\<close> is its error.\<close>

fun b64_quads :: "string \<Rightarrow> bytes option" where
  "b64_quads [] = Some []"
| "b64_quads [p, q, r, s] =
     (case (b64_val p, b64_val q) of
        (Some w, Some x) \<Rightarrow>
          (if r = CHR ''='' then (if s = CHR ''='' then Some [char_of (w * 4 + x div 16)] else None)
           else (case b64_val r of
                   None \<Rightarrow> None
                 | Some y \<Rightarrow>
                     if s = CHR ''='' then Some [char_of (w * 4 + x div 16), char_of (x mod 16 * 16 + y div 4)]
                     else (case b64_val s of
                             None \<Rightarrow> None
                           | Some z \<Rightarrow> Some [char_of (w * 4 + x div 16), char_of (x mod 16 * 16 + y div 4),
                                             char_of (y mod 4 * 64 + z)])))
      | _ \<Rightarrow> None)"
| "b64_quads (p # q # r # s # t # ts) =
     (case (b64_val p, b64_val q, b64_val r, b64_val s) of
        (Some w, Some x, Some y, Some z) \<Rightarrow>
          map_option (\<lambda>bs. char_of (w * 4 + x div 16) # char_of (x mod 16 * 16 + y div 4) #
                           char_of (y mod 4 * 64 + z) # bs) (b64_quads (t # ts))
      | _ \<Rightarrow> None)"
| "b64_quads ts = None"

definition b64_decode :: "string \<Rightarrow> bytes option" where
  "b64_decode s = b64_quads (filter (\<lambda>c. c \<noteq> CHR 0x0A \<and> c \<noteq> CHR 0x0D) s)"

text \<open>\<^verbatim>\<open>binary.BigEndian.PutUint32\<close> and \<^verbatim>\<open>Uint32\<close>.\<close>

definition be32_put :: "32 word \<Rightarrow> bytes" where
  "be32_put v = map (\<lambda>k. char_of (nat (uint v) div 2 ^ k mod 256)) [24, 16, 8, 0]"

definition be32_get :: "bytes \<Rightarrow> 32 word" where
  "be32_get b = of_nat (foldl (\<lambda>n c. n * 256 + byte_val c) 0 (take 4 b))"

subsection \<open>Round trips\<close>

lemma byte_val_nl: "byte_val (CHR ''='') = 61" "byte_val (CHR 0x0A) = 10" "byte_val (CHR 0x0D) = 13"
  "byte_val (CHR ''+'') = 43" "byte_val (CHR ''/'') = 47"
  by code_simp+

lemma b64_digit_props:
  assumes "n < 64"
  shows "b64_val (b64_digit n) = Some n" "b64_digit n \<noteq> CHR ''=''" "b64_digit n \<noteq> CHR 0x0A" "b64_digit n \<noteq> CHR 0x0D"
proof -
  have v: "byte_val (b64_digit n) =
      (if n < 26 then n + 65 else if n < 52 then n + 71 else if n < 62 then n - 4 else if n = 62 then 43 else 47)"
    using assms by (simp add: b64_digit_def byte_val_nl)
  show "b64_val (b64_digit n) = Some n"
    using assms v by (auto simp: b64_val_def Let_def b64_digit_def byte_val_nl)
  have "byte_val (b64_digit n) \<noteq> 61" "byte_val (b64_digit n) \<noteq> 10" "byte_val (b64_digit n) \<noteq> 13"
    using assms v by auto
  then show "b64_digit n \<noteq> CHR ''=''" "b64_digit n \<noteq> CHR 0x0A" "b64_digit n \<noteq> CHR 0x0D"
    using byte_val_nl by metis+
qed

lemma byte_div [simp]:
  "byte_val a div 16 div 16 = 0" "byte_val a div 16 mod 16 = byte_val a div 16"
  "byte_val a div 64 div 4 = 0" "byte_val a div 64 mod 4 = byte_val a div 64"
  "byte_val a div 4 * 4 + byte_val a mod 4 = byte_val a" "byte_val a div 64 * 64 + byte_val a mod 64 = byte_val a"
  "byte_val a div 16 * 16 + byte_val a mod 16 = byte_val a"
proof -
  have "byte_val a div 16 < 16" "byte_val a div 64 < 4"
    using byte_val_less [of a] by (simp_all add: less_mult_imp_div_less)
  then show "byte_val a div 16 div 16 = 0" "byte_val a div 16 mod 16 = byte_val a div 16"
    "byte_val a div 64 div 4 = 0" "byte_val a div 64 mod 4 = byte_val a div 64" by simp_all
qed simp_all

lemma byte_bounds: "byte_val a div 4 < 64" "byte_val a div 16 < 16" "byte_val a div 64 < 4"
  using byte_val_less [of a] by (simp_all add: less_mult_imp_div_less)

lemma b64_bounds [simp]:
  "byte_val a div 4 < 64" "byte_val a mod 4 * 16 < 64" "byte_val a mod 4 * 16 + byte_val b div 16 < 64"
  "byte_val a mod 16 * 4 < 64" "byte_val a mod 16 * 4 + byte_val b div 64 < 64" "byte_val a mod 64 < 64"
proof -
  have "byte_val a mod 4 \<le> 3" "byte_val a mod 16 \<le> 15"
    using mod_less_divisor [of 4 "byte_val a"] mod_less_divisor [of 16 "byte_val a"] by simp_all
  then have m: "byte_val a mod 4 * 16 \<le> 48" "byte_val a mod 16 * 4 \<le> 60" by simp_all
  show "byte_val a div 4 < 64" "byte_val a mod 64 < 64" by (simp_all add: byte_bounds)
  show "byte_val a mod 4 * 16 < 64" "byte_val a mod 16 * 4 < 64" using m by simp_all
  show "byte_val a mod 4 * 16 + byte_val b div 16 < 64" using m(1) byte_bounds(2) [of b] by simp
  show "byte_val a mod 16 * 4 + byte_val b div 64 < 64" using m(2) byte_bounds(3) [of b] by simp
qed

lemma char_of_byte_val [simp]: "char_of (byte_val a) = a"
  by (simp add: byte_val_def)

lemmas b64_digit_simps [simp] = b64_digit_props(1,2)

lemma b64_quads_encode: "b64_quads (b64_encode s) = Some s"
proof (induction s rule: b64_encode.induct)
  case (4 a b c s)
  show ?case
  proof (cases "b64_encode s")
    case Nil
    then have "s = []" by (cases s rule: b64_encode.cases) (auto simp: Let_def)
    with Nil show ?thesis by (simp add: Let_def)
  next
    case (Cons t ts)
    with 4 show ?thesis by (simp add: Let_def)
  qed
qed (simp_all add: Let_def)

lemma b64_encode_no_newline: "c \<in> set (b64_encode s) \<Longrightarrow> c \<noteq> CHR 0x0A \<and> c \<noteq> CHR 0x0D"
  by (induction s rule: b64_encode.induct) (auto simp: Let_def b64_digit_props(3,4))

lemma b64_decode_encode: "b64_decode (b64_encode s) = Some s"
proof -
  have "filter (\<lambda>c. c \<noteq> CHR 0x0A \<and> c \<noteq> CHR 0x0D) (b64_encode s) = b64_encode s"
    using b64_encode_no_newline by (auto simp: filter_id_conv)
  then show ?thesis by (simp add: b64_decode_def b64_quads_encode)
qed

lemma be32_get_put: "be32_get (be32_put v) = v"
proof -
  define n where "n = unat v"
  have "n < 2 ^ 32" using unsigned_less [of v] by (simp add: n_def)
  then have "n div 256 div 256 div 256 < 256" by (simp add: less_mult_imp_div_less)
  moreover from this have top: "n div 16777216 mod 256 = n div 16777216" by (simp flip: div_mult2_eq)
  moreover have "n div 2 ^ 24 = n div 256 div 256 div 256" "n div 2 ^ 16 = n div 256 div 256"
    by (simp_all flip: div_mult2_eq)
  ultimately have "((n div 2 ^ 24 * 256 + n div 2 ^ 16 mod 256) * 256 + n div 2 ^ 8 mod 256) * 256 + n div 2 ^ 0 mod 256 = n"
    by (simp add: div_mult_mod_eq)
  then have "foldl (\<lambda>n c. n * 256 + byte_val c) 0 (take 4 (be32_put v)) = n"
    using top by (simp add: be32_put_def byte_val_def n_def)
  then show ?thesis by (simp add: be32_get_def n_def)
qed

lemma length_be32_put [simp]: "length (be32_put v) = 4"
  by (simp add: be32_put_def)

end
