(* ===== verification/S3_Chunked.thy ===== *)
theory S3_Chunked
  imports Http
begin

text \<open>
  Upload bodies: \<^verbatim>\<open>pkg/s3/awschunked.go\<close>. The reader decodes the aws-chunked framing from a
  buffered reader. How many bytes the buffered reader hands out in one call, and whether it
  reports the end together with the last bytes, depends on the network: both are given by a
  schedule, and the decoded body is shown not to depend on it.
\<close>

section \<open>The buffered reader\<close>

text \<open>What is still to come: the bytes and how the stream ends.\<close>

type_synonym stream = "bytes \<times> read_end"

definition LF :: char where "LF = CHR 0x0A"
definition CR :: char where "CR = CHR 0x0D"

text \<open>\<^verbatim>\<open>bufio.Reader.ReadString\<close> up to and with the next line feed.\<close>

definition ReadString :: "stream \<Rightarrow> (string \<times> read_end option) \<times> stream" where
  "ReadString s =
     (case s of (bs, en) \<Rightarrow>
        (case Index bs [LF] of
           None \<Rightarrow> ((bs, Some en), ([], en))
         | Some i \<Rightarrow> ((take (Suc i) bs, None), (drop (Suc i) bs, en))))"

definition ReadByte :: "stream \<Rightarrow> (read_end + char) \<times> stream" where
  "ReadByte s = (case s of ([], en) \<Rightarrow> (Inl en, s) | (b # bs, en) \<Rightarrow> (Inr b, (bs, en)))"

text \<open>\<^verbatim>\<open>bufio.Reader.Read\<close> into a buffer of \<open>len\<close> bytes: at least one byte and at most \<open>k\<close> if there
  is one, the end when there is none, and with \<open>eager\<close> the end together with the last bytes (which
  happens when a read bypasses the buffer).\<close>

definition br_Read :: "nat \<times> bool \<Rightarrow> nat \<Rightarrow> stream \<Rightarrow> (bytes \<times> read_end option) \<times> stream" where
  "br_Read choice len s =
     (case (choice, s) of ((k, eager), (bs, en)) \<Rightarrow>
        if bs = [] then (([], Some en), s)
        else
          let n = min (max 1 k) (min len (length bs))
          in ((take n bs, if eager \<and> n = length bs then Some en else None), (drop n bs, en)))"

section \<open>strings.TrimSpace\<close>

text \<open>The white space of Unicode in UTF-8.\<close>

definition space_seqs :: "string list" where
  "space_seqs =
     map (\<lambda>n. [char_of n]) [9 :: nat, 10, 11, 12, 13, 32] @
     map (map char_of) ([[0xC2, 0x85], [0xC2, 0xA0], [0xE1, 0x9A, 0x80], [0xE2, 0x80, 0xA8], [0xE2, 0x80, 0xA9],
        [0xE2, 0x80, 0xAF], [0xE2, 0x81, 0x9F], [0xE3, 0x80, 0x80]] @
        map (\<lambda>n. [0xE2, 0x80, n]) [0x80..<0x8B :: nat])"

fun strip_left :: "nat \<Rightarrow> string list \<Rightarrow> string \<Rightarrow> string" where
  "strip_left 0 seqs s = s"
| "strip_left (Suc k) seqs s =
     (case find (\<lambda>q. prefix q s) seqs of None \<Rightarrow> s | Some q \<Rightarrow> strip_left k seqs (drop (length q) s))"

definition TrimSpace :: "string \<Rightarrow> string" where
  "TrimSpace s =
     (let l = strip_left (length s) space_seqs s
      in rev (strip_left (length l) (map rev space_seqs) (rev l)))"

section \<open>The reader\<close>

record aws_reader =
  ac_remaining :: int
  ac_done :: bool

definition new_aws_reader :: aws_reader where
  "new_aws_reader = \<lparr>ac_remaining = 0, ac_done = False\<rparr>"

fun discardCRLF_loop :: "nat \<Rightarrow> stream \<Rightarrow> read_end option \<times> stream" where
  "discardCRLF_loop 0 s = (None, s)"
| "discardCRLF_loop (Suc i) s =
     (case ReadByte s of
        (Inl e, s') \<Rightarrow> (Some e, s')
      | (Inr b, s') \<Rightarrow>
          if b \<noteq> CR \<and> b \<noteq> LF then (Some (ReadErr ''expected CRLF after aws-chunked chunk''), s')
          else discardCRLF_loop i s')"

definition discardCRLF :: "stream \<Rightarrow> read_end option \<times> stream" where
  "discardCRLF s = discardCRLF_loop 2 s"

text \<open>The size of a chunk from its header line.\<close>

definition header_size :: "string \<Rightarrow> int \<times> num_error option" where
  "header_size line =
     (let h = TrimRight line [CR, LF];
          h' = (case Index h '';'' of None \<Rightarrow> h | Some idx \<Rightarrow> take idx h)
      in ParseInt (TrimSpace h') 16)"

lemma ReadString_shorter: "ReadString s = ((line, None), s') \<Longrightarrow> length (fst s') < length (fst s)"
  using Index_Some_bound [of "fst s" "[LF]"] by (auto simp: ReadString_def split: prod.splits option.splits)

text \<open>Trailers up to the blank line or the end: an error to return, if any.\<close>

function skipTrailers :: "stream \<Rightarrow> read_end option \<times> stream" where
  "skipTrailers s =
     (case ReadString s of
        ((line, err), s') \<Rightarrow>
          if err = Some EOF \<or> TrimRight line [CR, LF] = [] then (None, s')
          else (case err of Some e \<Rightarrow> (Some e, s') | None \<Rightarrow> skipTrailers s'))"
  by pat_completeness auto
termination
  by (relation "measure (\<lambda>s. length (fst s))") (auto dest!: ReadString_shorter [OF sym])

declare skipTrailers.simps [simp del]

text \<open>\<^verbatim>\<open>awsChunkedReader.Read\<close> into a buffer of \<open>len\<close> bytes: the bytes read and the error.\<close>

function aws_Read :: "nat \<times> bool \<Rightarrow> nat \<Rightarrow> aws_reader \<Rightarrow> stream \<Rightarrow> (bytes \<times> read_end option) \<times> aws_reader \<times> stream" where
  "aws_Read choice len c s =
     (if ac_done c then (([], Some EOF), c, s)
      else if 0 < ac_remaining c then
        let len' = (if ac_remaining c < int len then nat (ac_remaining c) else len)
        in (case br_Read choice len' s of
              ((p, err), s') \<Rightarrow>
                let c' = c\<lparr>ac_remaining := ac_remaining c - int (length p)\<rparr>
                in if ac_remaining c' = 0
                   then (case discardCRLF s' of
                           (err2, s2) \<Rightarrow> ((p, if err = None then err2 else err), c', s2))
                   else ((p, err), c', s'))
      else
        (case ReadString s of
           ((_, Some _), s') \<Rightarrow> (([], Some (ReadErr ''reading aws-chunked header'')), c, s')
         | ((line, None), s') \<Rightarrow>
             (case header_size line of
                (_, Some _) \<Rightarrow> (([], Some (ReadErr ''invalid aws-chunked size'')), c, s')
              | (sz, None) \<Rightarrow>
                  if sz = 0
                  then (case skipTrailers s' of
                          (Some e, s2) \<Rightarrow> (([], Some e), c, s2)
                        | (None, s2) \<Rightarrow> (([], Some EOF), c\<lparr>ac_done := True\<rparr>, s2))
                  else aws_Read choice len (c\<lparr>ac_remaining := sz\<rparr>) s')))"
  by pat_completeness auto
termination
  by (relation "measure (\<lambda>(choice, len, c, s). length (fst s))") (auto dest!: ReadString_shorter [OF sym])

declare aws_Read.simps [simp del]

section \<open>Copying from the reader\<close>

lemma br_Read_shorter:
  "br_Read choice len s = ((p, err), s') \<Longrightarrow> 0 < len \<Longrightarrow> length (fst s') \<le> length (fst s) \<and>
   (err = None \<longrightarrow> length (fst s') < length (fst s))"
  by (auto simp: br_Read_def Let_def split: prod.splits if_splits)

lemma discardCRLF_loop_shorter: "discardCRLF_loop i s = (err, s') \<Longrightarrow> length (fst s') \<le> length (fst s)"
proof (induction i arbitrary: s)
  case (Suc i)
  then show ?case by (fastforce simp: ReadByte_def split: prod.splits list.splits sum.splits if_splits)
qed simp

text \<open>The three ways a call goes: inside a chunk, past a chunk header, or to its end.\<close>

lemma aws_Read_chunk:
  assumes "\<not> ac_done c" "0 < ac_remaining c"
    "br_Read choice (if ac_remaining c < int len then nat (ac_remaining c) else len) s = ((p, err), s')"
  shows "aws_Read choice len c s =
    (if ac_remaining c = int (length p)
     then (case discardCRLF s' of (err2, s2) \<Rightarrow> ((p, if err = None then err2 else err), c\<lparr>ac_remaining := 0\<rparr>, s2))
     else ((p, err), c\<lparr>ac_remaining := ac_remaining c - int (length p)\<rparr>, s'))"
  using assms by (subst aws_Read.simps) (simp add: Let_def)

text \<open>What a header line says: the end of the body, or the size of a chunk and what follows.\<close>

definition next_chunk :: "stream \<Rightarrow> read_end + int \<times> stream" where
  "next_chunk s =
     (case ReadString s of
        ((_, Some _), s') \<Rightarrow> Inl (ReadErr ''reading aws-chunked header'')
      | ((line, None), s') \<Rightarrow>
          (case header_size line of
             (_, Some _) \<Rightarrow> Inl (ReadErr ''invalid aws-chunked size'')
           | (sz, None) \<Rightarrow>
               if sz = 0 then Inl (case fst (skipTrailers s') of Some e \<Rightarrow> e | None \<Rightarrow> EOF) else Inr (sz, s')))"

lemma next_chunk_shorter: "next_chunk s = Inr (sz, s') \<Longrightarrow> length (fst s') < length (fst s) \<and> sz \<noteq> 0"
  by (auto simp: next_chunk_def dest: ReadString_shorter split: prod.splits option.splits if_splits)

lemma aws_Read_header:
  assumes "\<not> ac_done c" "\<not> 0 < ac_remaining c" "next_chunk s = Inr (sz, s')"
  shows "aws_Read choice len c s = aws_Read choice len (c\<lparr>ac_remaining := sz\<rparr>) s'"
  using assms by (subst aws_Read.simps) (auto simp: next_chunk_def split: prod.splits option.splits if_splits)

lemma aws_Read_stop:
  assumes "\<not> ac_done c" "\<not> 0 < ac_remaining c" "next_chunk s = Inl e"
  shows "\<exists>c' s'. aws_Read choice len c s = (([], Some e), c', s')"
  using assms by (subst aws_Read.simps) (auto simp: next_chunk_def split: prod.splits option.splits if_splits)

lemma aws_Read_shorter:
  "aws_Read choice len c s = ((p, None), c', s') \<Longrightarrow> 0 < len \<Longrightarrow> length (fst s') < length (fst s)"
proof (induction "length (fst s)" arbitrary: c s rule: less_induct)
  case less
  have nd: "\<not> ac_done c" using less.prems(1) by (subst (asm) aws_Read.simps) (auto split: if_splits)
  show ?case
  proof (cases "0 < ac_remaining c")
    case True
    let ?len = "if ac_remaining c < int len then nat (ac_remaining c) else len"
    obtain q err s1 where r: "br_Read choice ?len s = ((q, err), s1)" by (metis surj_pair)
    have "0 < ?len" using True less.prems(2) by simp
    note b = br_Read_shorter [OF r this]
    obtain err2 s2 where d: "discardCRLF s1 = (err2, s2)" by (metis surj_pair)
    with discardCRLF_loop_shorter [of 2 s1 err2 s2] have "length (fst s2) \<le> length (fst s1)" by (simp add: discardCRLF_def)
    with d aws_Read_chunk [OF nd True r] less.prems(1) b show ?thesis by (auto split: if_splits)
  next
    case False
    show ?thesis
    proof (cases "next_chunk s")
      case (Inr h)
      obtain sz s1 where h: "h = (sz, s1)" by (cases h)
      note n = next_chunk_shorter [OF Inr [unfolded h]]
      with less.hyps [of s1 "c\<lparr>ac_remaining := sz\<rparr>"] aws_Read_header [OF nd False Inr [unfolded h]] less.prems
      show ?thesis by simp
    next
      case (Inl e)
      from aws_Read_stop [OF nd False Inl] less.prems(1) show ?thesis by (metis option.distinct(1) prod.inject)
    qed
  qed
qed

text \<open>\<^verbatim>\<open>io.Copy\<close> reads with a buffer of 32 KiB until the reader returns an error. The result is the
  body the store reads: the pieces and how it ends.\<close>

definition copy_buffer :: nat where "copy_buffer = 32768"

function aws_copy :: "(nat \<Rightarrow> nat \<times> bool) \<Rightarrow> nat \<Rightarrow> aws_reader \<Rightarrow> stream \<Rightarrow> body" where
  "aws_copy schedule i c s =
     (case aws_Read (schedule i) copy_buffer c s of
        ((p, Some e), _, _) \<Rightarrow> (if p = [] then [] else [p], e)
      | ((p, None), c', s') \<Rightarrow> (case aws_copy schedule (Suc i) c' s' of (ps, e) \<Rightarrow> (p # ps, e)))"
  by pat_completeness auto
termination
  by (relation "measure (\<lambda>(schedule, i, c, s). length (fst s))")
     (auto simp: copy_buffer_def dest!: aws_Read_shorter [OF sym])

declare aws_copy.simps [simp del]

section \<open>The reference decoder\<close>

text \<open>The framing decoded in one go: the content and how the body ends.\<close>

function aws_decode :: "stream \<Rightarrow> bytes \<times> read_end" where
  "aws_decode s =
     (case next_chunk s of
        Inl e \<Rightarrow> ([], e)
      | Inr (sz, bs, en) \<Rightarrow>
          if sz < 0 then aws_decode (bs, en)
          else if length bs < nat sz then (bs, en)
          else (case discardCRLF (drop (nat sz) bs, en) of
                  (Some e, _) \<Rightarrow> (take (nat sz) bs, e)
                | (None, s2) \<Rightarrow> (case aws_decode s2 of (c, e) \<Rightarrow> (take (nat sz) bs @ c, e))))"
  by pat_completeness auto
termination
  by (relation "measure (\<lambda>s. length (fst s))")
     (auto simp: discardCRLF_def dest!: next_chunk_shorter discardCRLF_loop_shorter [OF sym])

declare aws_decode.simps [simp del]

text \<open>The same from the middle of a chunk with \<open>r\<close> bytes to come.\<close>

definition aws_rest :: "int \<Rightarrow> stream \<Rightarrow> bytes \<times> read_end" where
  "aws_rest r s =
     (case s of (bs, en) \<Rightarrow>
        if r \<le> 0 then aws_decode s
        else if length bs < nat r then (bs, en)
        else (case discardCRLF (drop (nat r) bs, en) of
                (Some e, _) \<Rightarrow> (take (nat r) bs, e)
              | (None, s2) \<Rightarrow> (case aws_decode s2 of (c, e) \<Rightarrow> (take (nat r) bs @ c, e))))"

lemma aws_decode_rest: "aws_decode s = (case next_chunk s of Inl e \<Rightarrow> ([], e) | Inr (sz, s') \<Rightarrow> aws_rest sz s')"
  by (subst aws_decode.simps) (auto simp: aws_rest_def dest: next_chunk_shorter split: sum.split prod.split)

lemma aws_rest_advance:
  assumes "n \<le> length bs" "int n < r"
  shows "aws_rest r (bs, en) = (case aws_rest (r - int n) (drop n bs, en) of (c, e) \<Rightarrow> (take n bs @ c, e))"
proof -
  have e: "nat (r - int n) = nat r - n" "nat r - n + n = nat r" using assms(2) by auto
  have t: "take n bs @ take (nat r - n) (drop n bs) = take (nat r) bs"
    using assms(2) by (metis e(2) add.commute take_add)
  have d: "drop (nat r - n) (drop n bs) = drop (nat r) bs" using e(2) by simp
  have t': "take n bs @ take (nat r - n) (drop n bs) @ c = take (nat r) bs @ c" for c using t by (metis append_assoc)
  show ?thesis
    using assms by (auto simp: aws_rest_def e d t t' split: prod.splits option.splits)
qed

text \<open>One call inside a chunk: it returns some of the bytes, and the end only with the last ones.\<close>

lemma aws_Read_bytes:
  assumes "\<not> ac_done c" "0 < ac_remaining c" "bs \<noteq> []" "0 < len"
  obtains n err where "0 < n" "n \<le> length bs" "int n \<le> ac_remaining c" "err = None \<or> err = Some en \<and> n = length bs"
    "aws_Read choice len c (bs, en) =
      (if ac_remaining c = int n
       then (case discardCRLF (drop n bs, en) of (err2, s2) \<Rightarrow> ((take n bs, if err = None then err2 else err), c\<lparr>ac_remaining := 0\<rparr>, s2))
       else ((take n bs, err), c\<lparr>ac_remaining := ac_remaining c - int n\<rparr>, (drop n bs, en)))"
proof -
  let ?len = "if ac_remaining c < int len then nat (ac_remaining c) else len"
  obtain k eager where ch: "choice = (k, eager)" by (cases choice)
  define n where "n = min (max 1 k) (min ?len (length bs))"
  have n: "0 < n" "n \<le> length bs" "int n \<le> ac_remaining c" using assms by (auto simp: n_def)
  have "br_Read choice ?len (bs, en) = ((take n bs, if eager \<and> n = length bs then Some en else None), (drop n bs, en))"
    using assms(3) by (simp add: br_Read_def ch n_def Let_def)
  from aws_Read_chunk [OF assms(1,2) this] n show thesis
    by (intro that [of n "if eager \<and> n = length bs then Some en else None"]) auto
qed

lemma discardCRLF_empty: "discardCRLF ([], en) = (Some en, ([], en))"
  by (simp add: discardCRLF_def numeral_2_eq_2 ReadByte_def)

lemma discardCRLF_shorter: "discardCRLF s = (err, s') \<Longrightarrow> length (fst s') \<le> length (fst s)"
  unfolding discardCRLF_def by (rule discardCRLF_loop_shorter)

text \<open>A call that ends a chunk, and one that does not, given the claim for the rest of the stream.\<close>

lemma aws_copy_chunk_end:
  assumes IH: "\<And>i ps. aws_copy schedule i (c\<lparr>ac_remaining := 0\<rparr>) s2 = (ps, e) \<Longrightarrow> (concat ps, e) = aws_decode s2"
    and d: "discardCRLF (drop n bs, en) = (err2, s2)" and n: "0 < n" "n \<le> length bs"
    and err: "err = None \<or> err = Some en \<and> n = length bs"
    and read: "aws_Read (schedule i) copy_buffer c (bs, en) = ((take n bs, if err = None then err2 else err), c\<lparr>ac_remaining := 0\<rparr>, s2)"
    and run: "aws_copy schedule i c (bs, en) = (ps, e)"
  shows "(concat ps, e) = aws_rest (int n) (bs, en)"
proof -
  have same: "(if err = None then err2 else err) = err2" using err d discardCRLF_empty [of en] by auto
  note step = aws_copy.simps [of schedule i c "(bs, en)", unfolded read same]
  show ?thesis
  proof (cases err2)
    case None
    then obtain ps' where "aws_copy schedule (Suc i) (c\<lparr>ac_remaining := 0\<rparr>) s2 = (ps', e)" "ps = take n bs # ps'"
      using step run by (auto split: prod.splits)
    with IH [of "Suc i" ps'] None d n show ?thesis by (auto simp: aws_rest_def split: prod.splits)
  next
    case (Some e')
    with step run n have "ps = [take n bs]" "e = e'" by (auto split: if_splits)
    with d Some n show ?thesis by (simp add: aws_rest_def)
  qed
qed

lemma aws_copy_chunk_part:
  assumes IH: "\<And>i ps. aws_copy schedule i (c\<lparr>ac_remaining := r - int n\<rparr>) (drop n bs, en) = (ps, e) \<Longrightarrow>
      (concat ps, e) = aws_rest (r - int n) (drop n bs, en)"
    and n: "0 < n" "n \<le> length bs" "int n < r" and err: "err = None \<or> err = Some en \<and> n = length bs"
    and read: "aws_Read (schedule i) copy_buffer c (bs, en) = ((take n bs, err), c\<lparr>ac_remaining := r - int n\<rparr>, (drop n bs, en))"
    and run: "aws_copy schedule i c (bs, en) = (ps, e)"
  shows "(concat ps, e) = aws_rest r (bs, en)"
proof -
  note step = aws_copy.simps [of schedule i c "(bs, en)", unfolded read]
  show ?thesis
  proof (cases err)
    case None
    then obtain ps' where "aws_copy schedule (Suc i) (c\<lparr>ac_remaining := r - int n\<rparr>) (drop n bs, en) = (ps', e)" "ps = take n bs # ps'"
      using step run by (auto split: prod.splits)
    with IH [of "Suc i" ps'] aws_rest_advance [OF n(2,3), of en] show ?thesis by (simp split: prod.splits)
  next
    case (Some e')
    with err have n': "n = length bs" "e' = en" by auto
    with Some step run n(1) have "ps = [bs]" "e = en" by auto
    moreover have "length bs < nat r" "\<not> r \<le> 0" using n(1,3) n'(1) by linarith+
    ultimately show ?thesis by (simp add: aws_rest_def)
  qed
qed

text \<open>Whatever the schedule, the body is the one the reference decoder finds.\<close>

lemma aws_copy_rest:
  "\<not> ac_done c \<Longrightarrow> aws_copy schedule i c s = (ps, e) \<Longrightarrow> (concat ps, e) = aws_rest (ac_remaining c) s"
proof (induction "length (fst s)" arbitrary: i c s ps rule: less_induct)
  case less
  obtain bs en where s: "s = (bs, en)" by (cases s)
  note nd = less.prems(1) and run = less.prems(2) [unfolded s]
  consider (header) "\<not> 0 < ac_remaining c" | (none) "0 < ac_remaining c" "bs = []" | (chunk) "0 < ac_remaining c" "bs \<noteq> []" by blast
  then show ?case
  proof cases
    case header
    then have rest: "aws_rest (ac_remaining c) s = aws_decode s" by (simp add: aws_rest_def s)
    show ?thesis
    proof (cases "next_chunk s")
      case (Inl e')
      with aws_Read_stop [OF nd header, of s e' "schedule i" copy_buffer] less.prems(2) rest show ?thesis
        by (auto simp: aws_copy.simps [of schedule i c s] aws_decode_rest)
    next
      case (Inr h)
      obtain sz s1 where h: "h = (sz, s1)" by (cases h)
      have "aws_copy schedule i c s = aws_copy schedule i (c\<lparr>ac_remaining := sz\<rparr>) s1"
        using aws_Read_header [OF nd header Inr [unfolded h]] by (simp add: aws_copy.simps [of schedule i])
      with less.hyps [of s1 "c\<lparr>ac_remaining := sz\<rparr>"] next_chunk_shorter [OF Inr [unfolded h]] less.prems Inr h rest
      show ?thesis by (simp add: aws_decode_rest)
    qed
  next
    case none
    have "br_Read (schedule i) l s = (([], Some en), s)" for l using none by (simp add: br_Read_def s split: prod.split)
    from aws_Read_chunk [OF nd none(1) this] none run show ?thesis
      by (simp add: aws_copy.simps [of schedule i] s aws_rest_def)
  next
    case chunk
    have "0 < copy_buffer" by (simp add: copy_buffer_def)
    from nd chunk this obtain n err where n: "0 < n" "n \<le> length bs" "int n \<le> ac_remaining c"
        and err: "err = None \<or> err = Some en \<and> n = length bs"
        and read: "aws_Read (schedule i) copy_buffer c (bs, en) =
          (if ac_remaining c = int n
           then (case discardCRLF (drop n bs, en) of (err2, s2) \<Rightarrow> ((take n bs, if err = None then err2 else err), c\<lparr>ac_remaining := 0\<rparr>, s2))
           else ((take n bs, err), c\<lparr>ac_remaining := ac_remaining c - int n\<rparr>, (drop n bs, en)))"
      by (rule aws_Read_bytes)
    obtain err2 s2 where d: "discardCRLF (drop n bs, en) = (err2, s2)" by (metis surj_pair)
    have sh: "length (fst s2) < length (fst s)" "length (fst (drop n bs, en)) < length (fst s)"
      using discardCRLF_shorter [OF d] n by (auto simp: s)
    show ?thesis
    proof (cases "ac_remaining c = int n")
      case True
      have "(concat ps', e) = aws_decode s2" if "aws_copy schedule j (c\<lparr>ac_remaining := 0\<rparr>) s2 = (ps', e)" for j ps'
        using less.hyps [OF sh(1) _ that] nd by (simp add: aws_rest_def split: prod.splits)
      from aws_copy_chunk_end [OF this d n(1,2) err _ run] read d True show ?thesis by (simp add: s)
    next
      case False
      have "(concat ps', e) = aws_rest (ac_remaining c - int n) (drop n bs, en)"
        if "aws_copy schedule j (c\<lparr>ac_remaining := ac_remaining c - int n\<rparr>) (drop n bs, en) = (ps', e)" for j ps'
        using less.hyps [OF sh(2) _ that] nd by simp
      from aws_copy_chunk_part [OF this n(1,2) _ err _ run] read False n(3) show ?thesis by (simp add: s)
    qed
  qed
qed

section \<open>The framing clients write\<close>

text \<open>A chunk with its header, where \<open>ext\<close> is empty or a signature behind a semicolon, and the
  whole body with what follows the last chunk.\<close>

definition CRLF :: string where "CRLF = [CR, LF]"

definition encode_chunk :: "string \<times> bytes \<Rightarrow> bytes" where
  "encode_chunk = (\<lambda>(ext, c). FormatInt (int (length c)) 16 @ ext @ CRLF @ c @ CRLF)"

definition aws_encode :: "(string \<times> bytes) list \<Rightarrow> string \<Rightarrow> bytes" where
  "aws_encode chunks trailer = concat (map encode_chunk chunks) @ ''0'' @ CRLF @ trailer"

definition chunk_ok :: "string \<times> bytes \<Rightarrow> bool" where
  "chunk_ok = (\<lambda>(ext, c). c \<noteq> [] \<and> int (length c) \<le> max_int64 \<and> (ext = [] \<or> hd ext = CHR '';'') \<and> LF \<notin> set ext \<and> CR \<notin> set ext)"

text \<open>A size in hexadecimal is left alone by the trimming.\<close>

lemma hex_digit_range: "n < 16 \<Longrightarrow> 48 \<le> byte_val (hex_digit n) \<and> byte_val (hex_digit n) \<le> 102 \<and> byte_val (hex_digit n) \<noteq> 59"
proof -
  assume "n < 16"
  moreover have "\<forall>n \<in> set [0..<16]. 48 \<le> byte_val (hex_digit n) \<and> byte_val (hex_digit n) \<le> 102 \<and> byte_val (hex_digit n) \<noteq> 59"
    by code_simp
  ultimately show ?thesis by simp
qed

lemma space_seqs_range:
  "\<forall>q \<in> set space_seqs. q \<noteq> [] \<and> (byte_val (hd q) < 48 \<or> 102 < byte_val (hd q)) \<and> (byte_val (last q) < 48 \<or> 102 < byte_val (last q))"
  by code_simp

lemma byte_val_marks: "byte_val CR = 13" "byte_val LF = 10" "byte_val (CHR '';'') = 59"
  by code_simp+

lemma hex_digit_class:
  assumes "n < 16"
  shows "hex_digit n \<noteq> CR" "hex_digit n \<noteq> LF" "hex_digit n \<noteq> CHR '';''"
    "\<forall>q \<in> set space_seqs. hd q \<noteq> hex_digit n \<and> last q \<noteq> hex_digit n"
proof -
  note r = hex_digit_range [OF assms]
  from r byte_val_marks show "hex_digit n \<noteq> CR" "hex_digit n \<noteq> LF" "hex_digit n \<noteq> CHR '';''" by auto
  show "\<forall>q \<in> set space_seqs. hd q \<noteq> hex_digit n \<and> last q \<noteq> hex_digit n"
  proof
    fix q assume "q \<in> set space_seqs"
    with space_seqs_range have "byte_val (hd q) < 48 \<or> 102 < byte_val (hd q)" "byte_val (last q) < 48 \<or> 102 < byte_val (last q)" by blast+
    with r show "hd q \<noteq> hex_digit n \<and> last q \<noteq> hex_digit n" by (metis leD)
  qed
qed

definition hex_chars :: "string \<Rightarrow> bool" where
  "hex_chars s \<longleftrightarrow> (\<forall>c \<in> set s. \<exists>n<16. c = hex_digit n)"

lemma nat_digits_hex: "hex_chars (nat_digits 16 n)"
proof (induction "16 :: nat" n rule: nat_digits.induct)
  case (1 n)
  show ?case
  proof (cases "n < 16")
    case True
    then show ?thesis by (auto simp: nat_digits.simps [of 16 n] hex_chars_def)
  next
    case False
    with 1 have "hex_chars (nat_digits 16 (n div 16))" by simp
    moreover have "\<exists>m<16. hex_digit (n mod 16) = hex_digit m" by (metis mod_less_divisor zero_less_numeral)
    ultimately show ?thesis using False by (auto simp: nat_digits.simps [of 16 n] hex_chars_def)
  qed
qed

lemma space_seqs_nonempty: "\<forall>q \<in> set space_seqs. q \<noteq> []"
  using space_seqs_range by blast

lemma strip_left_id: "\<forall>q \<in> set seqs. \<not> prefix q s \<Longrightarrow> strip_left k seqs s = s"
  by (cases k) (auto simp: find_None_iff split: option.split dest!: find_Some_iff [THEN iffD1])

lemma TrimSpace_hex:
  assumes "hex_chars s"
  shows "TrimSpace s = s"
proof (cases "s = []")
  case True
  then show ?thesis by (simp add: TrimSpace_def)
next
  case False
  have h: "\<forall>c \<in> set s. \<forall>q \<in> set space_seqs. hd q \<noteq> c \<and> last q \<noteq> c"
    using assms hex_digit_class(4) by (fastforce simp: hex_chars_def)
  have "\<not> prefix q s" if "q \<in> set space_seqs" for q
    using h that space_seqs_nonempty False by (cases q; cases s) auto
  moreover have "\<not> prefix (rev q) (rev s)" if "q \<in> set space_seqs" for q
  proof -
    have "last q \<noteq> last s" "q \<noteq> []" using h that space_seqs_nonempty False by auto
    then show ?thesis using False by (cases q rule: rev_cases; cases s rule: rev_cases) auto
  qed
  ultimately show ?thesis by (simp add: TrimSpace_def strip_left_id)
qed

lemma TrimRight_CRLF: "(s \<noteq> [] \<Longrightarrow> last s \<noteq> CR \<and> last s \<noteq> LF) \<Longrightarrow> TrimRight (s @ CRLF) [CR, LF] = s"
  by (cases s rule: rev_cases) (auto simp: TrimRight_def trim_right_def CRLF_def)

lemma Index_not_in: "c \<notin> set s \<Longrightarrow> Index (s @ c # t) [c] = Some (length s)"
  by (induction s) auto

lemma Index_None_in: "c \<notin> set s \<Longrightarrow> Index s [c] = None"
  by (induction s) auto

lemma hex_chars_marks: "hex_chars s \<Longrightarrow> CR \<notin> set s \<and> LF \<notin> set s \<and> CHR '';'' \<notin> set s"
  using hex_digit_class by (fastforce simp: hex_chars_def)

lemma header_size_encoded:
  assumes "ext = [] \<or> hd ext = CHR '';''" "LF \<notin> set ext" "CR \<notin> set ext" "0 \<le> n" "n \<le> max_int64"
  shows "header_size (FormatInt n 16 @ ext @ CRLF) = (n, None)"
proof -
  let ?d = "FormatInt n 16"
  have d: "hex_chars ?d" using assms(4) nat_digits_hex by (simp add: FormatInt_def)
  note m = hex_chars_marks [OF d]
  have "set (?d @ ext) \<inter> {CR, LF} = {}" using m assms(2,3) by auto
  then have "TrimRight ((?d @ ext) @ CRLF) [CR, LF] = ?d @ ext"
    using last_in_set [of "?d @ ext"] by (intro TrimRight_CRLF) fastforce
  moreover have "(case Index (?d @ ext) '';'' of None \<Rightarrow> ?d @ ext | Some idx \<Rightarrow> take idx (?d @ ext)) = ?d"
    using assms(1) m Index_not_in [of "CHR '';''" ?d] Index_None_in [of "CHR '';''" ?d] by (cases ext) auto
  moreover have "ParseInt ?d 16 = (n, None)" using assms(4,5) by (intro ParseInt_FormatInt) (auto simp: int64_defs)
  ultimately show ?thesis using TrimSpace_hex [OF d] by (simp add: header_size_def)
qed

lemma ReadString_line: "LF \<notin> set l \<Longrightarrow> ReadString (l @ LF # t, en) = ((l @ [LF], None), (t, en))"
  by (simp add: ReadString_def Index_not_in)

lemma next_chunk_encoded:
  assumes "chunk_ok (ext, c)"
  shows "next_chunk (FormatInt (int (length c)) 16 @ ext @ CRLF @ t, en) = Inr (int (length c), (t, en))"
proof -
  let ?l = "FormatInt (int (length c)) 16 @ ext @ [CR]"
  have "LF \<notin> set ?l"
    using assms hex_chars_marks [OF nat_digits_hex] by (auto simp: FormatInt_def chunk_ok_def CR_def LF_def)
  from ReadString_line [OF this, of t en] have "ReadString (FormatInt (int (length c)) 16 @ ext @ CRLF @ t, en) =
      ((FormatInt (int (length c)) 16 @ ext @ CRLF, None), (t, en))" by (simp add: CRLF_def)
  with assms header_size_encoded [of ext "int (length c)"] show ?thesis by (simp add: next_chunk_def chunk_ok_def)
qed

lemma discardCRLF_CRLF: "discardCRLF (CRLF @ t, en) = (None, (t, en))"
  by (simp add: discardCRLF_def CRLF_def numeral_2_eq_2 ReadByte_def)

lemma aws_decode_chunk:
  assumes "chunk_ok (ext, c)"
  shows "aws_decode (encode_chunk (ext, c) @ t, en) = (case aws_decode (t, en) of (d, e) \<Rightarrow> (c @ d, e))"
proof -
  have "next_chunk (encode_chunk (ext, c) @ t, en) = Inr (int (length c), (c @ CRLF @ t, en))"
    using next_chunk_encoded [OF assms, of "c @ CRLF @ t" en] by (simp add: encode_chunk_def)
  with assms show ?thesis
    by (subst aws_decode.simps) (simp add: discardCRLF_CRLF [simplified])
qed

lemma skipTrailers_EOF: "fst (skipTrailers (bs, EOF)) = None"
proof (induction "length bs" arbitrary: bs rule: less_induct)
  case less
  obtain line err s' where r: "ReadString (bs, EOF) = ((line, err), s')" by (metis surj_pair)
  then have e: "err \<noteq> None \<longrightarrow> err = Some EOF" "snd s' = EOF" by (auto simp: ReadString_def split: option.splits)
  show ?case
  proof (cases err)
    case None
    with r less.hyps [of "fst s'"] ReadString_shorter [of "(bs, EOF)" line s'] e(2) show ?thesis
      by (subst skipTrailers.simps) (cases s', auto)
  qed (use r e in \<open>subst skipTrailers.simps, auto\<close>)
qed

text \<open>Decoding what a client encoded gives the content back.\<close>

lemma aws_decode_encode:
  "list_all chunk_ok chunks \<Longrightarrow> aws_decode (aws_encode chunks trailer, EOF) = (concat (map snd chunks), EOF)"
proof (induction chunks)
  case Nil
  have "ReadString (''0'' @ CRLF @ trailer, EOF) = ((''0'' @ CRLF, None), (trailer, EOF))"
    using ReadString_line [of "''0'' @ [CR]" trailer EOF] by (simp add: CRLF_def CR_def LF_def)
  moreover have "FormatInt 0 16 = ''0''" by code_simp
  with header_size_encoded [of "[]" 0] have "header_size (''0'' @ CRLF) = (0, None)" by (simp add: max_int64_def)
  ultimately have "next_chunk (''0'' @ CRLF @ trailer, EOF) = Inl EOF"
    by (simp add: next_chunk_def skipTrailers_EOF)
  then show ?case by (subst aws_decode.simps) (simp add: aws_encode_def)
next
  case (Cons ch chunks)
  then show ?case by (cases ch) (simp add: aws_encode_def aws_decode_chunk split: prod.splits)
qed

text \<open>A body cut off inside a chunk.\<close>

lemma aws_decode_cut:
  assumes "chunk_ok (ext, c)" "k \<le> length c"
  shows "aws_decode (FormatInt (int (length c)) 16 @ ext @ CRLF @ take k c, en) = (take k c, en)"
proof -
  have "next_chunk (FormatInt (int (length c)) 16 @ ext @ CRLF @ take k c, en) = Inr (int (length c), (take k c, en))"
    by (rule next_chunk_encoded [OF assms(1)])
  with assms show ?thesis
    by (subst aws_decode.simps) (auto simp: discardCRLF_empty min_def)
qed

lemma aws_decode_append:
  "list_all chunk_ok chunks \<Longrightarrow>
   aws_decode (concat (map encode_chunk chunks) @ t, en) = (case aws_decode (t, en) of (d, e) \<Rightarrow> (concat (map snd chunks) @ d, e))"
proof (induction chunks)
  case (Cons ch chunks)
  then show ?case by (cases ch) (simp add: aws_decode_chunk split: prod.splits)
qed (simp split: prod.split)

section \<open>The body of a request\<close>

definition requestBody :: "(nat \<Rightarrow> nat \<times> bool) \<Rightarrow> request \<Rightarrow> body" where
  "requestBody schedule r =
     (if HasPrefix (header_get r ''x-amz-content-sha256'') ''STREAMING-'' \<or>
         Contains (header_get r ''Content-Encoding'') ''aws-chunked''
      then aws_copy schedule 0 new_aws_reader (concat (fst (rq_Body r)), snd (rq_Body r))
      else rq_Body r)"

lemma aws_copy_decode:
  "aws_copy schedule i new_aws_reader s = (ps, e) \<Longrightarrow> (concat ps, e) = aws_decode s"
  using aws_copy_rest [of new_aws_reader schedule i s ps e] by (simp add: new_aws_reader_def aws_rest_def split: prod.splits)

end
