(* ===== verification/Go_Time.thy ===== *)
theory Go_Time
  imports Go_Conv
begin

text \<open>
  The time formats of the two protocols (\<^verbatim>\<open>iso8601\<close> in \<^verbatim>\<open>pkg/s3/xml.go\<close>, \<^verbatim>\<open>rfc3339\<close> in
  \<^verbatim>\<open>pkg/gcs/resource.go\<close>) for a time in Unix microseconds: the date of the proleptic Gregorian
  calendar in UTC, with the year in at least four digits.
\<close>

text \<open>Year, month and day of a day number counted from the first of January 1970, by eras of 400
  years that start on the first of March.\<close>

definition civil :: "int \<Rightarrow> int \<times> int \<times> int" where
  "civil days =
     (let z = days + 719468; era = z div 146097; doe = z mod 146097;
          yoe = (doe - doe div 1460 + doe div 36524 - doe div 146096) div 365;
          doy = doe - (365 * yoe + yoe div 4 - yoe div 100);
          mp = (5 * doy + 2) div 153;
          d = doy - (153 * mp + 2) div 5 + 1;
          m = (if mp < 10 then mp + 3 else mp - 9);
          y = yoe + era * 400 + (if m \<le> 2 then 1 else 0)
      in (y, m, d))"

text \<open>A number with at least \<open>w\<close> digits.\<close>

definition pad :: "nat \<Rightarrow> int \<Rightarrow> string" where
  "pad w n = (let s = FormatInt n 10 in replicate (w - length s) CHR ''0'' @ s)"

definition date_time :: "int \<Rightarrow> string" where
  "date_time micros =
     (let secs = micros div 1000000; tod = secs mod 86400
      in (case civil (secs div 86400) of (y, m, d) \<Rightarrow>
           pad 4 y @ ''-'' @ pad 2 m @ ''-'' @ pad 2 d @ ''T'' @
           pad 2 (tod div 3600) @ '':'' @ pad 2 (tod div 60 mod 60) @ '':'' @ pad 2 (tod mod 60)))"

text \<open>\<^verbatim>\<open>2006-01-02T15:04:05.000Z\<close>: three digits of the fraction.\<close>

definition iso8601 :: "int \<Rightarrow> string" where
  "iso8601 t = date_time t @ ''.'' @ pad 3 (t mod 1000000 div 1000) @ ''Z''"

text \<open>\<^verbatim>\<open>2006-01-02T15:04:05.999999Z07:00\<close>: up to six digits of the fraction without trailing
  zeros, none of it when it is zero.\<close>

definition rfc3339 :: "int \<Rightarrow> string" where
  "rfc3339 t =
     (let frac = trim_right (\<lambda>c. c = CHR ''0'') (pad 6 (t mod 1000000))
      in date_time t @ (if frac = [] then [] else ''.'' @ frac) @ ''Z'')"

end
