(* ===== verification/Store_Bucket_Inv.thy ===== *)
theory Store_Bucket_Inv
  imports Store_Bucket
begin

text \<open>
  The consistency of one bucket and what its operations do. \<open>bucket_inv\<close> ties the three places
  together: the object rows, the reference counts of the \<^verbatim>\<open>blobs\<close> table and the blob files.
  Every operation keeps it whatever system or driver calls fail. \<open>live\<close> is the abstract view of
  a bucket, the map from names to descriptions and contents; a successful commit or delete is an
  update of that map and a failed one leaves it alone.
\<close>

named_theorems bk \<open>projections of the bucket state\<close>

section \<open>Invariants\<close>

definition refs :: "string \<Rightarrow> (string, object_row) table \<Rightarrow> nat" where
  "refs sha t = count_rows (\<lambda>r. or_sha256 r = sha) t"

text \<open>The \<^verbatim>\<open>blobs\<close> table holds exactly the digests with a positive count.\<close>

definition blobs_match :: "(string \<Rightarrow> int) \<Rightarrow> (string, blob_row) table \<Rightarrow> bool" where
  "blobs_match f t \<longleftrightarrow>
     (\<forall>sha. case map_of t sha of None \<Rightarrow> f sha = 0 | Some r \<Rightarrow> br_refcount r = f sha \<and> 0 < f sha)"

text \<open>The row describes some content: all digests and the size are those of one byte string.\<close>

definition row_describes :: "lib \<Rightarrow> object_row \<Rightarrow> bytes \<Rightarrow> bool" where
  "row_describes L r c \<longleftrightarrow>
     or_sha256 r = hexEncode (lib_sha256 L c) \<and> or_md5 r = lib_md5 L c \<and>
     or_crc32c r = uint (lib_crc32c L c) \<and> or_size r = wrap64 (int (length c))"

definition row_ok :: "lib \<Rightarrow> string \<Rightarrow> object_row \<Rightarrow> bool" where
  "row_ok L name r \<longleftrightarrow>
     validObjectName name \<and> or_metageneration r = 1 \<and> (\<exists>c. row_describes L r c) \<and>
     (or_metadata r = ''{}'' \<or> lib_unmarshal L (or_metadata r) \<noteq> None)"

definition db_inv :: "lib \<Rightarrow> db \<Rightarrow> bool" where
  "db_inv L x \<longleftrightarrow>
     tsorted (db_objects x) \<and> tsorted (db_blobs x) \<and>
     blobs_match (\<lambda>sha. int (refs sha (db_objects x))) (db_blobs x) \<and>
     (\<forall>name r. map_of (db_objects x) name = Some r \<longrightarrow> row_ok L name r)"

definition files_ok :: "lib \<Rightarrow> bucket \<Rightarrow> bool" where
  "files_ok L b \<longleftrightarrow>
     tsorted (dir_objects b) \<and> tsorted (dir_tmp b) \<and>
     (\<forall>k c. map_of (dir_objects b) k = Some c \<longrightarrow> k = blobPath (hexEncode (lib_sha256 L c)))"

text \<open>Every counted blob has its file.\<close>

definition blobs_on_disk :: "db \<Rightarrow> bucket \<Rightarrow> bool" where
  "blobs_on_disk x b \<longleftrightarrow>
     (\<forall>sha r. map_of (db_blobs x) sha = Some r \<longrightarrow> map_of (dir_objects b) (blobPath sha) \<noteq> None)"

definition bucket_inv :: "lib \<Rightarrow> bucket \<Rightarrow> bool" where
  "bucket_inv L b \<longleftrightarrow>
     files_ok L b \<and> (\<forall>x. b_db b = Some x \<longrightarrow> db_inv L x \<and> blobs_on_disk x b)"

text \<open>An unfinished writer has hashed what it wrote to its temporary file.\<close>

definition writer_ok :: "blob_writer \<Rightarrow> bucket \<Rightarrow> bool" where
  "writer_ok w b \<longleftrightarrow>
     bw_done w \<or>
     (bw_md5h w = bw_sha w \<and> bw_crc w = bw_sha w \<and> bw_size w = wrap64 (int (length (bw_sha w))) \<and>
      (\<forall>c. map_of (dir_tmp b) (bw_tmp w) = Some c \<longrightarrow> c = bw_sha w))"

text \<open>What is assumed of \<^verbatim>\<open>encoding/json\<close>: an encoded string map decodes.\<close>

definition json_decodes :: "lib \<Rightarrow> bool" where
  "json_decodes L \<longleftrightarrow> (\<forall>m. lib_unmarshal L (lib_marshal L m) \<noteq> None)"

section \<open>Projections\<close>

lemma map_dir_simps [bk]:
  "b_name (map_dir f b) = b_name b"
  "b_closed (map_dir f b) = b_closed b"
  "b_dir (map_dir f b) = map_option f (b_dir b)"
  by (simp_all add: map_dir_def)

lemma set_db_simps [bk]:
  "b_name (set_db x b) = b_name b"
  "b_closed (set_db x b) = b_closed b"
  "dir_objects (set_db x b) = dir_objects b"
  "dir_tmp (set_db x b) = dir_tmp b"
  "b_db (set_db x b) = (if b_dir b = None then None else Some x)"
  "b_dir (set_db x b) = None \<longleftrightarrow> b_dir b = None"
  by (auto simp: set_db_def map_dir_simps dir_objects_def dir_tmp_def b_db_def split: option.splits)

lemma removeBlob_simps [bk]:
  "b_name (removeBlob e sha b) = b_name b"
  "b_closed (removeBlob e sha b) = b_closed b"
  "dir_objects (removeBlob e sha b) =
     (if env_fails e Sys_RemoveBlob then dir_objects b else tdel (blobPath sha) (dir_objects b))"
  "dir_tmp (removeBlob e sha b) = dir_tmp b"
  "b_db (removeBlob e sha b) = b_db b"
  "b_dir (removeBlob e sha b) = None \<longleftrightarrow> b_dir b = None"
  by (auto simp: removeBlob_def map_dir_simps dir_objects_def dir_tmp_def b_db_def tdel_def
      split: option.splits)

lemma removeTmp_simps [bk]:
  "b_name (removeTmp e n b) = b_name b"
  "b_closed (removeTmp e n b) = b_closed b"
  "dir_objects (removeTmp e n b) = dir_objects b"
  "dir_tmp (removeTmp e n b) = (if env_fails e Sys_RemoveTmp then dir_tmp b else tdel n (dir_tmp b))"
  "b_db (removeTmp e n b) = b_db b"
  "b_dir (removeTmp e n b) = None \<longleftrightarrow> b_dir b = None"
  by (auto simp: removeTmp_def map_dir_simps dir_objects_def dir_tmp_def b_db_def tdel_def
      split: option.splits)

lemma appendTmp_simps [bk]:
  "b_name (appendTmp n p b) = b_name b"
  "b_closed (appendTmp n p b) = b_closed b"
  "dir_objects (appendTmp n p b) = dir_objects b"
  "b_db (appendTmp n p b) = b_db b"
  "dir_tmp (appendTmp n p b) =
     (case map_of (dir_tmp b) n of None \<Rightarrow> dir_tmp b | Some c \<Rightarrow> tput n (c @ p) (dir_tmp b))"
  "b_dir (appendTmp n p b) = None \<longleftrightarrow> b_dir b = None"
  by (auto simp: appendTmp_def map_dir_simps dir_objects_def dir_tmp_def b_db_def split: option.splits)

lemma b_db_dir: "b_db b = Some x \<Longrightarrow> b_dir b \<noteq> None"
  by (auto simp: b_db_def split: option.splits)

lemma openDb_Inr: "openDb b = Inr x \<longleftrightarrow> \<not> b_closed b \<and> b_db b = Some x"
  by (auto simp: openDb_def split: option.splits)

lemma beginTx_Inr: "beginTx e b = Inr x \<longleftrightarrow> \<not> b_closed b \<and> b_db b = Some x \<and> \<not> env_fails e Sys_Begin"
  by (auto simp: beginTx_def openDb_Inr result_bind_Inr)

section \<open>Reference counts\<close>

lemma refs_tput:
  "tsorted t \<Longrightarrow> int (refs sha (tput name r t)) =
     int (refs sha t) + (if or_sha256 r = sha then 1 else 0)
     - (case map_of t name of None \<Rightarrow> 0 | Some r' \<Rightarrow> if or_sha256 r' = sha then 1 else 0)"
  using tbl.count_put [of t "\<lambda>r. or_sha256 r = sha" name r]
  by (auto simp: refs_def split: option.splits if_splits)

lemma refs_tdel:
  "tsorted t \<Longrightarrow> int (refs sha (tdel name t)) =
     int (refs sha t) - (case map_of t name of None \<Rightarrow> 0 | Some r' \<Rightarrow> if or_sha256 r' = sha then 1 else 0)"
  using tbl.count_del [of t "\<lambda>r. or_sha256 r = sha" name]
  by (auto simp: refs_def split: option.splits if_splits)

lemma refs_pos: "tsorted t \<Longrightarrow> map_of t name = Some r \<Longrightarrow> 0 < refs (or_sha256 r) t"
  unfolding refs_def by (rule tbl.count_pos) auto

lemma refs_zero_iff:
  "tsorted t \<Longrightarrow> refs sha t = 0 \<longleftrightarrow> (\<forall>name r. map_of t name = Some r \<longrightarrow> or_sha256 r \<noteq> sha)"
  unfolding refs_def by (rule tbl.count_zero_iff)

lemma upsertBlob_objects [bk]: "db_objects (upsertBlob sha sz x) = db_objects x"
  by (simp add: upsertBlob_def)

lemma blobs_match_iff:
  "blobs_match f t \<longleftrightarrow>
     (\<forall>sha. (map_of t sha = None \<longrightarrow> f sha = 0) \<and>
            (\<forall>r. map_of t sha = Some r \<longrightarrow> br_refcount r = f sha \<and> 0 < f sha))"
  unfolding blobs_match_def by (auto split: option.splits)

lemma upsertBlob_match:
  assumes "tsorted (db_blobs x)" "blobs_match f (db_blobs x)"
  shows "blobs_match (f(sha := f sha + 1)) (db_blobs (upsertBlob sha sz x))"
proof -
  have "0 \<le> f sha" using assms(2) unfolding blobs_match_iff
    by (cases "map_of (db_blobs x) sha") (auto intro: less_imp_le)
  with assms(2) show ?thesis unfolding blobs_match_iff
    by (simp add: upsertBlob_def tbl_simps assms(1) split: option.split)
qed

lemma upsertBlob_sorted: "tsorted (db_blobs x) \<Longrightarrow> tsorted (db_blobs (upsertBlob sha sz x))"
  by (simp add: upsertBlob_def tbl_inv)

lemma upsertBlob_dom:
  "tsorted (db_blobs x) \<Longrightarrow>
   map_of (db_blobs (upsertBlob sha sz x)) s \<noteq> None \<longleftrightarrow> s = sha \<or> map_of (db_blobs x) s \<noteq> None"
  by (auto simp: upsertBlob_def tbl_simps)

text \<open>\<^verbatim>\<open>decrefBlob\<close> on a counted blob: one reference less, and the row is gone exactly when it was
  the last one.\<close>

lemma decrefBlob_Inr:
  assumes "tsorted (db_blobs x)" "blobs_match f (db_blobs x)" "0 < f sha"
    and ok: "decrefBlob e sha x = Inr (orphaned, x')"
  shows "db_objects x' = db_objects x" "tsorted (db_blobs x')"
    "blobs_match (f(sha := f sha - 1)) (db_blobs x')"
    "orphaned \<longleftrightarrow> f sha = 1"
    "\<And>s. map_of (db_blobs x') s \<noteq> None \<longleftrightarrow> map_of (db_blobs x) s \<noteq> None \<and> \<not> (orphaned \<and> s = sha)"
proof -
  obtain r where r: "map_of (db_blobs x) sha = Some r" "br_refcount r = f sha"
    using assms(2,3) unfolding blobs_match_def by (cases "map_of (db_blobs x) sha") (auto dest: spec [of _ sha])
  let ?r = "r\<lparr>br_refcount := br_refcount r - 1\<rparr>"
  let ?t = "tput sha ?r (db_blobs x)"
  have st: "tsorted ?t" using assms(1) by (simp add: tbl_inv)
  have x': "(orphaned, db_objects x', db_blobs x') =
      (if f sha \<le> 1 then (True, db_objects x, tdel sha ?t) else (False, db_objects x, ?t))"
    using ok r by (auto simp: decrefBlob_def Let_def tbl_simps assms(1) split: if_splits)
  then show "db_objects x' = db_objects x" "tsorted (db_blobs x')"
    using st by (auto simp: tbl_inv split: if_splits)
  show o: "orphaned \<longleftrightarrow> f sha = 1" using x' assms(3) by (auto split: if_splits)
  have lk: "map_of (db_blobs x') s =
      (if s = sha then if orphaned then None else Some ?r else map_of (db_blobs x) s)" for s
    using x' tbl.get_put [OF assms(1), of sha ?r] tbl.get_del [OF st, of sha] by (auto split: if_splits)
  show "map_of (db_blobs x') s \<noteq> None \<longleftrightarrow> map_of (db_blobs x) s \<noteq> None \<and> \<not> (orphaned \<and> s = sha)" for s
    using r by (simp add: lk)
  show "blobs_match (f(sha := f sha - 1)) (db_blobs x')"
    using r o assms(2) less_le [of 1 "f sha"] assms(3) unfolding blobs_match_iff
    by (simp add: lk)
qed

section \<open>Transactions\<close>

lemma scanObject_Inr:
  assumes "scanObject L bn name r = Inr i"
  shows "oi_Name i = name" "oi_Bucket i = bn" "oi_SHA256 i = or_sha256 r" "oi_Generation i = or_generation r"
    "oi_Metageneration i = or_metageneration r" "oi_Size i = or_size r" "oi_MD5 i = or_md5 r"
    "uint (oi_CRC32C i) = or_crc32c r" "oi_ContentType i = or_content_type r"
  using assms by (auto simp: scanObject_def uint_word_of_int split: if_splits option.splits)

lemma row_ok_scans: "row_ok L name r \<Longrightarrow> \<exists>i. scanObject L bn name r = Inr i"
proof -
  assume r: "row_ok L name r"
  then obtain w :: "32 word" where "or_crc32c r = uint w"
    by (auto simp: row_ok_def row_describes_def)
  then have "0 \<le> or_crc32c r" "or_crc32c r < 2 ^ 32"
    using uint_lt2p [of w] by simp_all
  with r show ?thesis by (auto simp: row_ok_def scanObject_def)
qed

lemma selectObject_Inr:
  "selectObject L e bn name x = Inr existing \<longleftrightarrow>
     \<not> env_fails e Sys_SelectObject \<and>
     (case map_of (db_objects x) name of
        None \<Rightarrow> existing = None
      | Some r \<Rightarrow> \<exists>i. scanObject L bn name r = Inr i \<and> existing = Some i)"
  by (auto simp: selectObject_def result_bind_Inr split: option.splits)

text \<open>In a consistent database the counted digests are the referenced ones.\<close>

lemma db_inv_blobs: "db_inv L x \<Longrightarrow> map_of (db_blobs x) s \<noteq> None \<longleftrightarrow> refs s (db_objects x) \<noteq> 0"
  by (auto simp: db_inv_def blobs_match_iff)

lemma blobs_on_disk_iff:
  assumes "db_inv L x"
  shows "blobs_on_disk x b \<longleftrightarrow>
    (\<forall>name r. map_of (db_objects x) name = Some r \<longrightarrow> map_of (dir_objects b) (blobPath (or_sha256 r)) \<noteq> None)"
proof -
  have "blobs_on_disk x b \<longleftrightarrow> (\<forall>s. refs s (db_objects x) \<noteq> 0 \<longrightarrow> map_of (dir_objects b) (blobPath s) \<noteq> None)"
    unfolding blobs_on_disk_def using db_inv_blobs [OF assms] by (metis option.distinct(1) not_Some_eq)
  moreover have "tsorted (db_objects x)" using assms by (simp add: db_inv_def)
  ultimately show ?thesis using refs_zero_iff by metis
qed

lemma delete_tx_Inr:
  assumes "db_inv L x" and ok: "delete_tx L e bn name conds x = Inr (x', orphan, sha)"
  obtains r i where "map_of (db_objects x) name = Some r" "scanObject L bn name r = Inr i"
    "conditions_hold conds (Some i)" "sha = or_sha256 r"
    "db_objects x' = tdel name (db_objects x)" "db_inv L x'"
    "orphan \<longleftrightarrow> refs sha (db_objects x') = 0"
proof -
  let ?x = "x\<lparr>db_objects := tdel name (db_objects x)\<rparr>"
  let ?f = "\<lambda>s. int (refs s (db_objects x))"
  obtain r i where ri: "map_of (db_objects x) name = Some r" "scanObject L bn name r = Inr i"
      "conditions_hold conds (Some i)" and d: "decrefBlob e (oi_SHA256 i) ?x = Inr (orphan, x')"
      and sha: "sha = oi_SHA256 i"
    using ok by (auto simp: delete_tx_def result_bind_Inr selectObject_Inr check_ok_iff
        split: option.splits if_splits)
  have sha': "sha = or_sha256 r" using sha scanObject_Inr(3) [OF ri(2)] by simp
  have inv: "tsorted (db_objects x)" "tsorted (db_blobs x)" "blobs_match ?f (db_blobs x)"
    using assms by (auto simp: db_inv_def)
  have pos: "0 < ?f sha" using refs_pos [OF inv(1) ri(1)] sha' by simp
  note dec = decrefBlob_Inr [of ?x ?f sha e orphan x', simplified, OF inv(2,3)]
  have dec1: "db_objects x' = tdel name (db_objects x)" "tsorted (db_blobs x')"
      "blobs_match (?f(sha := ?f sha - 1)) (db_blobs x')" "orphan \<longleftrightarrow> ?f sha = 1"
    using dec pos d sha by auto
  have eq: "int (refs s (db_objects x')) = (?f(sha := ?f sha - 1)) s" for s
    using refs_tdel [OF inv(1), of s name] ri(1) sha' dec1(1) by simp
  have "blobs_match (\<lambda>s. int (refs s (db_objects x'))) (db_blobs x')"
    using dec1(3) by (simp only: eq)
  then have "db_inv L x'"
    using assms dec1(1,2) by (simp add: db_inv_def tbl_inv tbl_simps)
  moreover have "orphan \<longleftrightarrow> refs sha (db_objects x') = 0"
    using dec1(4) eq [of sha] by auto
  ultimately show thesis using that ri sha' dec1(1) by blast
qed

text \<open>The blob bookkeeping of \<^verbatim>\<open>Commit\<close>: one reference more for the new digest, one less for the
  replaced one.\<close>

lemma commit_blobs:
  assumes inv: "tsorted (db_blobs x)" "blobs_match f (db_blobs x)"
    and old: "\<And>i. existing = Some i \<Longrightarrow> 0 < f (oi_SHA256 i)"
    and ok: "(case existing of None \<Rightarrow> Inr (False, upsertBlob sha sz x)
       | Some i \<Rightarrow> decrefBlob e (oi_SHA256 i) (upsertBlob sha sz x)) = Inr (orphaned, x2)"
  defines "g \<equiv> \<lambda>s. f s + (if s = sha then 1 else 0)
      - (case existing of None \<Rightarrow> 0 | Some i \<Rightarrow> if s = oi_SHA256 i then 1 else 0)"
  shows "db_objects x2 = db_objects x" "tsorted (db_blobs x2)" "blobs_match g (db_blobs x2)"
    "orphaned \<longleftrightarrow> (\<exists>i. existing = Some i \<and> g (oi_SHA256 i) = 0)"
proof -
  let ?f = "f(sha := f sha + 1)"
  note up = upsertBlob_sorted [OF inv(1), of sha sz] upsertBlob_match [OF inv, of sha sz]
  have *: "db_objects x2 = db_objects x \<and> tsorted (db_blobs x2) \<and> blobs_match g (db_blobs x2) \<and>
      (orphaned \<longleftrightarrow> (\<exists>i. existing = Some i \<and> g (oi_SHA256 i) = 0))"
  proof (cases existing)
    case None
    have "g = ?f" using None by (auto simp: g_def)
    with None ok up show ?thesis by (auto simp: upsertBlob_objects)
  next
    case (Some i)
    have "0 < ?f (oi_SHA256 i)" using old [OF Some] by auto
    moreover have "g = ?f(oi_SHA256 i := ?f (oi_SHA256 i) - 1)" using Some by (auto simp: g_def)
    ultimately show ?thesis
      using Some ok decrefBlob_Inr [OF up, of "oi_SHA256 i" e orphaned x2]
      by (simp add: upsertBlob_objects)
  qed
  then show "db_objects x2 = db_objects x" "tsorted (db_blobs x2)" "blobs_match g (db_blobs x2)"
    "orphaned \<longleftrightarrow> (\<exists>i. existing = Some i \<and> g (oi_SHA256 i) = 0)" by auto
qed

lemma commit_row_ok:
  assumes "json_decodes L" "validObjectName name" "(sha, m, crc) = (hexEncode (lib_sha256 L c), lib_md5 L c, lib_crc32c L c)"
    "sz = wrap64 (int (length c))"
  shows "row_ok L name (commit_row L now opts gen sha m crc sz)"
  using assms unfolding row_ok_def
  by (auto simp: commit_row_def row_describes_def json_decodes_def)

lemma commit_tx_Inr:
  assumes inv: "db_inv L x" and json: "json_decodes L" and name: "validObjectName name"
    and sums: "(sha, m, crc) = (hexEncode (lib_sha256 L c), lib_md5 L c, lib_crc32c L c)"
    and sz: "sz = wrap64 (int (length c))"
    and ok: "commit_tx L e bn name opts sha m crc sz x = Inr (x', i, orphan)"
  obtains existing where "selectObject L e bn name x = Inr existing"
    "conditions_hold (po_Conditions opts) existing"
    "i = commit_info bn name (env_now e) opts (next_generation (env_now e) existing) sha m crc sz"
    "db_objects x' = tput name
       (commit_row L (env_now e) opts (next_generation (env_now e) existing) sha m crc sz) (db_objects x)"
    "db_inv L x'"
    "orphan = (case existing of None \<Rightarrow> [] | Some j \<Rightarrow>
       if refs (oi_SHA256 j) (db_objects x') = 0 then oi_SHA256 j else [])"
proof -
  let ?f = "\<lambda>s. int (refs s (db_objects x))"
  obtain existing orphaned x2 where sel: "selectObject L e bn name x = Inr existing"
      and conds: "conditions_hold (po_Conditions opts) existing"
      and blobs: "(case existing of None \<Rightarrow> Inr (False, upsertBlob sha sz x)
        | Some i \<Rightarrow> decrefBlob e (oi_SHA256 i) (upsertBlob sha sz x)) = Inr (orphaned, x2)"
      and i: "i = commit_info bn name (env_now e) opts (next_generation (env_now e) existing) sha m crc sz"
      and x': "x' = x2\<lparr>db_objects := tput name
        (commit_row L (env_now e) opts (next_generation (env_now e) existing) sha m crc sz) (db_objects x2)\<rparr>"
      and orphan: "orphan = (if orphaned then oi_SHA256 (the existing) else [])"
    using ok by (auto simp: commit_tx_def Let_def result_bind_Inr check_ok_iff split: if_splits)
  let ?row = "commit_row L (env_now e) opts (next_generation (env_now e) existing) sha m crc sz"
  have t: "tsorted (db_objects x)" "tsorted (db_blobs x)" "blobs_match ?f (db_blobs x)"
    using inv by (auto simp: db_inv_def)
  have old: "(case map_of (db_objects x) name of None \<Rightarrow> existing = None
      | Some r \<Rightarrow> \<exists>j. existing = Some j \<and> oi_SHA256 j = or_sha256 r)"
    using sel by (auto simp: selectObject_Inr scanObject_Inr(3) split: option.splits)
  have pos: "0 < ?f (oi_SHA256 j)" if "existing = Some j" for j
    using old that refs_pos [OF t(1)] by (auto split: option.splits)
  note cb = commit_blobs [OF t(2,3) pos blobs]
  have objs: "db_objects x' = tput name ?row (db_objects x)" using x' cb(1) by simp
  have eq: "int (refs s (db_objects x')) = ?f s + (if s = sha then 1 else 0)
      - (case existing of None \<Rightarrow> 0 | Some i \<Rightarrow> if s = oi_SHA256 i then 1 else 0)" for s
    using refs_tput [OF t(1), of s name ?row] old objs
    by (auto simp: commit_row_def split: option.splits)
  have blobs': "db_blobs x' = db_blobs x2" using x' by simp
  have "blobs_match (\<lambda>s. int (refs s (db_objects x'))) (db_blobs x')"
    unfolding eq blobs' by (rule cb(3))
  moreover have "row_ok L n r" if "map_of (db_objects x') n = Some r" for n r
    using that inv commit_row_ok [OF json name sums sz] t(1)
    by (auto simp: objs tbl_simps db_inv_def split: if_splits)
  ultimately have "db_inv L x'"
    using t(1) cb(2) by (simp add: db_inv_def objs blobs' tbl_inv)
  moreover have "orphaned \<longleftrightarrow> (\<exists>j. existing = Some j \<and> int (refs (oi_SHA256 j) (db_objects x')) = 0)"
    unfolding eq by (rule cb(4))
  then have "orphan = (case existing of None \<Rightarrow> [] | Some j \<Rightarrow>
      if refs (oi_SHA256 j) (db_objects x') = 0 then oi_SHA256 j else [])"
    using orphan by (cases existing) auto
  ultimately show thesis using that sel conds i objs by blast
qed

section \<open>The invariant is kept\<close>

lemma bucket_inv_removeBlob:
  assumes "bucket_inv L b" "\<And>x. b_db b = Some x \<Longrightarrow> refs sha (db_objects x) = 0"
  shows "bucket_inv L (removeBlob e sha b)"
proof -
  have f: "tsorted (dir_objects b)" using assms(1) by (simp add: bucket_inv_def files_ok_def)
  have "blobs_on_disk x (removeBlob e sha b)" if x: "b_db b = Some x" for x
  proof -
    have inv: "db_inv L x" "blobs_on_disk x b" using assms(1) x by (auto simp: bucket_inv_def)
    have "map_of (db_blobs x) sha = None"
      using db_inv_blobs [OF inv(1), of sha] assms(2) [OF x] by auto
    with inv(2) f show ?thesis
      by (auto simp: blobs_on_disk_def bk tbl_simps)
  qed
  with assms(1) f show ?thesis
    by (auto simp: bucket_inv_def files_ok_def bk tbl_inv tbl_simps split: if_splits)
qed

lemma bucket_inv_set_db:
  assumes "bucket_inv L b" "db_inv L x" "blobs_on_disk x b"
  shows "bucket_inv L (set_db x b)"
  using assms by (auto simp: bucket_inv_def files_ok_def blobs_on_disk_def bk split: if_splits)

lemma bucket_inv_tmp:
  assumes "bucket_inv L b" "b_db b' = b_db b" "dir_objects b' = dir_objects b" "tsorted (dir_tmp b')"
  shows "bucket_inv L b'"
  using assms by (auto simp: bucket_inv_def files_ok_def blobs_on_disk_def)

lemma bucket_inv_sorted: "bucket_inv L b \<Longrightarrow> tsorted (dir_tmp b) \<and> tsorted (dir_objects b)"
  by (simp add: bucket_inv_def files_ok_def)

lemma bucket_inv_removeTmp: "bucket_inv L b \<Longrightarrow> bucket_inv L (removeTmp e n b)"
  by (rule bucket_inv_tmp) (auto simp: bk tbl_inv dest: bucket_inv_sorted)

lemma deleteObject_b_inv:
  assumes "bucket_inv L b"
  shows "bucket_inv L (snd (deleteObject_b L e b name conds))"
proof (cases "result_bind (beginTx e b) (delete_tx L e (b_name b) name conds)")
  case (Inl er)
  with assms show ?thesis by (simp add: deleteObject_b_def)
next
  case (Inr t)
  obtain x' orphan sha where t: "t = (x', orphan, sha)" by (cases t) auto
  from Inr t obtain x where x: "b_db b = Some x" and d: "delete_tx L e (b_name b) name conds x = Inr (x', orphan, sha)"
    by (auto simp: result_bind_Inr beginTx_Inr)
  have inv: "db_inv L x" "blobs_on_disk x b" using assms x by (auto simp: bucket_inv_def)
  obtain objs': "db_objects x' = tdel name (db_objects x)" and inv': "db_inv L x'"
      and o: "orphan \<longleftrightarrow> refs sha (db_objects x') = 0"
    using delete_tx_Inr [OF inv(1) d] by blast
  have "tsorted (db_objects x)" using inv(1) by (simp add: db_inv_def)
  then have "blobs_on_disk x' b"
    using inv(2) unfolding blobs_on_disk_iff [OF inv(1)] blobs_on_disk_iff [OF inv']
    by (auto simp: objs' tbl_simps split: if_splits)
  then have b': "bucket_inv L (set_db x' b)"
    by (rule bucket_inv_set_db [OF assms inv'])
  moreover have "bucket_inv L (removeBlob e sha (set_db x' b))" if orphan
    using b' o that by (intro bucket_inv_removeBlob) (auto simp: bk split: if_splits)
  ultimately show ?thesis using assms Inr t by (simp add: deleteObject_b_def)
qed

subsection \<open>Installing the blob\<close>

lemma installBlob_frame:
  assumes "installBlob e sha tmp b = (r, b1)"
  shows "b_name b1 = b_name b" "b_closed b1 = b_closed b" "b_db b1 = b_db b"
  using assms
  by (auto simp: installBlob_def Let_def b_db_def empty_dir_def split: if_splits option.splits)

lemma installBlob_cases:
  assumes "installBlob e sha tmp b = (r, b1)"
  obtains (dedup) "r = Inr ()" "b1 = b" "map_of (dir_objects b) (blobPath sha) \<noteq> None"
  | (moved) c where "r = Inr ()" "map_of (dir_objects b) (blobPath sha) = None" "map_of (dir_tmp b) tmp = Some c"
      "dir_objects b1 = tput (blobPath sha) c (dir_objects b)" "dir_tmp b1 = tdel tmp (dir_tmp b)"
  | (failed) er where "r = Inl er" "dir_objects b1 = dir_objects b" "dir_tmp b1 = dir_tmp b"
proof (cases "map_of (dir_objects b) (blobPath sha)")
  case (Some c)
  with assms show thesis by (intro dedup) (auto simp: installBlob_def)
next
  case None
  show thesis
  proof (cases "env_fails e Sys_MkdirShard")
    case True
    with None assms show thesis by (intro failed) (auto simp: installBlob_def)
  next
    case False
    show thesis
    proof (cases "if env_fails e Sys_Rename then None else map_of (dir_tmp b) tmp")
      case None': None
      with None False assms show thesis
        by (intro failed [of "ErrCall Sys_Rename"])
           (auto simp: installBlob_def Let_def dir_objects_def dir_tmp_def empty_dir_def split: option.splits)
    next
      case (Some c)
      with None False assms show thesis
        by (intro moved [of c])
           (auto simp: installBlob_def Let_def dir_objects_def dir_tmp_def empty_dir_def
             split: option.splits if_splits)
    qed
  qed
qed

lemma installBlob_inv:
  assumes inv: "bucket_inv L b"
    and tmp: "\<And>c. map_of (dir_tmp b) tmp = Some c \<Longrightarrow> sha = hexEncode (lib_sha256 L c)"
    and inst: "installBlob e sha tmp b = (r, b1)"
  shows "bucket_inv L b1" "r = Inr () \<Longrightarrow> map_of (dir_objects b1) (blobPath sha) \<noteq> None"
    "\<And>k c. map_of (dir_objects b) k = Some c \<Longrightarrow> map_of (dir_objects b1) k = Some c"
proof -
  have st: "tsorted (dir_objects b)" "tsorted (dir_tmp b)" using bucket_inv_sorted [OF inv] by auto
  have "bucket_inv L b1 \<and> (r = Inr () \<longrightarrow> map_of (dir_objects b1) (blobPath sha) \<noteq> None) \<and>
      (\<forall>k c. map_of (dir_objects b) k = Some c \<longrightarrow> map_of (dir_objects b1) k = Some c)"
    using inst
  proof (cases rule: installBlob_cases)
    case dedup
    with inv show ?thesis by simp
  next
    case (moved c)
    with inv st tmp [OF moved(3)] installBlob_frame(3) [OF inst] show ?thesis
      by (auto simp: bucket_inv_def files_ok_def blobs_on_disk_def tbl_inv tbl_simps split: if_splits)
  next
    case (failed er)
    with bucket_inv_tmp [OF inv installBlob_frame(3) [OF inst]] st show ?thesis by simp
  qed
  then show "bucket_inv L b1" "r = Inr () \<Longrightarrow> map_of (dir_objects b1) (blobPath sha) \<noteq> None"
    "\<And>k c. map_of (dir_objects b) k = Some c \<Longrightarrow> map_of (dir_objects b1) k = Some c" by auto
qed

subsection \<open>Commit\<close>

text \<open>The temporary file of an unfinished writer has the digest the writer has computed.\<close>

lemma writer_ok_tmp:
  "writer_ok w b \<Longrightarrow> \<not> bw_done w \<Longrightarrow> map_of (dir_tmp b) (bw_tmp w) = Some c \<Longrightarrow> c = bw_sha w"
  by (simp add: writer_ok_def)

lemma writer_ok_sums:
  assumes "writer_ok w b" "\<not> bw_done w" "checksums L w = (sha, m, crc)"
  shows "(sha, m, crc) = (hexEncode (lib_sha256 L (bw_sha w)), lib_md5 L (bw_sha w), lib_crc32c L (bw_sha w))"
    "bw_size w = wrap64 (int (length (bw_sha w)))"
  using assms by (auto simp: writer_ok_def checksums_def)

text \<open>What a run of the body of \<^verbatim>\<open>Commit\<close> can have done: returned an error with the database as it
  was, or run its transaction on it.\<close>

lemma commit_body_cases:
  assumes inv: "bucket_inv L b" and w: "writer_ok w b" "\<not> bw_done w" and json: "json_decodes L"
    and run: "commit_body L e w name opts b = (r, b')"
  obtains (error) er where "r = Inl er" "bucket_inv L b'" "b_db b' = b_db b" "b_name b' = b_name b"
      "b_closed b' = b_closed b"
      "\<And>k c. map_of (dir_objects b) k = Some c \<Longrightarrow> map_of (dir_objects b') k = Some c"
  | (ok) b1 x x' i orphan sha m crc where
      "r = Inr i" "checksums L w = (sha, m, crc)" "validObjectName name"
      "installBlob e sha (bw_tmp w) b = (Inr (), b1)" "bucket_inv L b1"
      "map_of (dir_objects b1) (blobPath sha) \<noteq> None"
      "\<And>k c. map_of (dir_objects b) k = Some c \<Longrightarrow> map_of (dir_objects b1) k = Some c"
      "b_db b = Some x" "\<not> b_closed b" "db_inv L x"
      "commit_tx L e (b_name b) name opts sha m crc (bw_size w) x = Inr (x', i, orphan)"
      "b' = (if orphan \<noteq> [] then removeBlob e orphan (set_db x' b1) else set_db x' b1)"
proof -
  obtain sha m crc where sums: "checksums L w = (sha, m, crc)" by (metis prod_cases3)
  obtain ri b1 where inst: "installBlob e sha (bw_tmp w) b = (ri, b1)" by force
  have tmp: "sha = hexEncode (lib_sha256 L c)" if "map_of (dir_tmp b) (bw_tmp w) = Some c" for c
    using writer_ok_tmp [OF w that] sums by (simp add: checksums_def)
  note b1 = installBlob_inv [OF inv tmp inst]
  note frame = installBlob_frame [OF inst]
  show thesis
  proof (cases "\<exists>er. r = Inl er")
    case True
    then obtain er where er: "r = Inl er" ..
    then have "b' = b \<or> b' = b1"
      using run sums inst by (auto simp: commit_body_def split: if_splits sum.splits)
    with er inv b1(1,3) frame show thesis by (auto intro!: error)
  next
    case False
    with run sums inst obtain x' i orphan where
        "r = Inr i" "validObjectName name" "ri = Inr ()"
        "result_bind (beginTx e b1) (commit_tx L e (b_name b) name opts sha m crc (bw_size w)) = Inr (x', i, orphan)"
        "b' = (if orphan \<noteq> [] then removeBlob e orphan (set_db x' b1) else set_db x' b1)"
      by (auto simp: commit_body_def split: if_splits sum.splits)
    moreover from this(4) obtain x where "b_db b = Some x" "\<not> b_closed b"
        "commit_tx L e (b_name b) name opts sha m crc (bw_size w) x = Inr (x', i, orphan)"
      by (auto simp: result_bind_Inr beginTx_Inr frame)
    moreover from this(1) have "db_inv L x" using inv by (simp add: bucket_inv_def)
    ultimately show thesis using ok sums inst b1 by blast
  qed
qed

lemma commit_body_inv:
  assumes inv: "bucket_inv L b" and w: "writer_ok w b" "\<not> bw_done w" and json: "json_decodes L"
    and run: "commit_body L e w name opts b = (r, b')"
  shows "bucket_inv L b'"
  using inv w json run
proof (cases rule: commit_body_cases)
  case (ok b1 x x' i orphan sha m crc)
  note sums = writer_ok_sums [OF w ok(2)]
  obtain existing where objs: "db_objects x' = tput name
       (commit_row L (env_now e) opts (next_generation (env_now e) existing) sha m crc (bw_size w)) (db_objects x)"
      and inv': "db_inv L x'"
      and orphan: "orphan = (case existing of None \<Rightarrow> [] | Some j \<Rightarrow>
       if refs (oi_SHA256 j) (db_objects x') = 0 then oi_SHA256 j else [])"
    using commit_tx_Inr [OF ok(10) json ok(3) sums ok(11)] by blast
  have "tsorted (db_objects x)" using ok(10) by (simp add: db_inv_def)
  moreover have "blobs_on_disk x b1"
    using ok(5,8) installBlob_frame(3) [OF ok(4)] by (simp add: bucket_inv_def)
  ultimately have "blobs_on_disk x' b1"
    using ok(6) unfolding blobs_on_disk_iff [OF ok(10)] blobs_on_disk_iff [OF inv']
    by (auto simp: objs tbl_simps commit_row_def split: if_splits)
  then have b': "bucket_inv L (set_db x' b1)"
    by (rule bucket_inv_set_db [OF ok(5) inv'])
  moreover have "bucket_inv L (removeBlob e orphan (set_db x' b1))" if "orphan \<noteq> []"
    using b' orphan that by (intro bucket_inv_removeBlob) (auto simp: bk split: if_splits option.splits)
  ultimately show ?thesis using ok(12) by simp
qed

lemma commit_b_inv:
  assumes "bucket_inv L b" "writer_ok w b" "json_decodes L"
  shows "bucket_inv L (snd (snd (commit_b L e w name opts b)))"
proof -
  obtain r b' where run: "commit_body L e w name opts b = (r, b')" by force
  have "bucket_inv L (removeTmp e (bw_tmp w) b')" if "\<not> bw_done w"
    using commit_body_inv [OF assms(1,2) that assms(3) run] by (rule bucket_inv_removeTmp)
  with assms(1) run show ?thesis by (simp add: commit_b_def)
qed

subsection \<open>Writers\<close>

lemma createTemp_cases:
  assumes "createTemp e b = (r, b')"
  obtains (failed) er where "r = Inl er" "b' = b"
  | (made) n where "r = Inr n" "n \<in> set (env_tmp_names e)" "map_of (dir_tmp b) n = None"
      "dir_tmp b' = tput n [] (dir_tmp b)" "dir_objects b' = dir_objects b" "b_db b' = b_db b"
      "b_name b' = b_name b" "b_closed b' = b_closed b" "b_dir b \<noteq> None" "b_dir b' \<noteq> None"
  using assms
  by (auto simp: createTemp_def dir_tmp_def dir_objects_def b_db_def find_Some_iff
      split: option.splits if_splits)

lemma createTemp_inv:
  assumes "bucket_inv L b" "createTemp e b = (r, b')"
  shows "bucket_inv L b'"
  using assms(2)
proof (cases rule: createTemp_cases)
  case (made n)
  with bucket_inv_sorted [OF assms(1)] show ?thesis
    by (intro bucket_inv_tmp [OF assms(1)]) (simp_all add: tbl_inv)
qed (use assms(1) in simp)

text \<open>A new writer is consistent, and so is one whose temporary file has another name.\<close>

lemma newBlobWriter_b_inv:
  assumes "bucket_inv L b" "newBlobWriter_b e h b = (r, b')"
  shows "bucket_inv L b'" "r = Inr w \<Longrightarrow> writer_ok w b'"
proof -
  obtain rt bt where ct: "createTemp e b = (rt, bt)" by force
  with assms(2) have b': "b' = bt" by (auto simp: newBlobWriter_b_def split: sum.splits)
  with createTemp_inv [OF assms(1) ct] show "bucket_inv L b'" by simp
  assume "r = Inr w"
  with assms(2) ct have "rt = Inr (bw_tmp w)" "bw_sha w = []" "bw_md5h w = []" "bw_crc w = []" "bw_size w = 0"
    by (auto simp: newBlobWriter_b_def split: sum.splits)
  with ct b' bucket_inv_sorted [OF assms(1)] show "writer_ok w b'"
    by (auto simp: writer_ok_def tbl_simps wrap64_def elim!: createTemp_cases)
qed

lemma write_b_inv:
  assumes "bucket_inv L b" "write_b acc w p b = (r, w', b')"
  shows "bucket_inv L b'"
proof -
  have "tsorted (dir_tmp (appendTmp n q b))" for n q
    using bucket_inv_sorted [OF assms(1)] by (auto simp: bk tbl_inv split: option.splits)
  then have "bucket_inv L (appendTmp n q b)" for n q
    by (intro bucket_inv_tmp [OF assms(1)]) (simp_all add: bk)
  with assms show ?thesis by (auto simp: write_b_def Let_def split: if_splits)
qed

lemma wrap64_add: "wrap64 (wrap64 a + b) = wrap64 (a + b)"
  by (simp add: wrap64_def mod_simps algebra_simps)

lemma write_b_writer_ok:
  assumes "tsorted (dir_tmp b)" "writer_ok w b" "write_b acc w p b = (r, w', b')"
  shows "writer_ok w' b'"
proof (cases "bw_done w")
  case True
  with assms show ?thesis by (auto simp: write_b_def)
next
  case False
  have "wrap64 (wrap64 (int k) + int n) = wrap64 (int (k + n))" for k n
    by (simp add: wrap64_add)
  with assms False show ?thesis
    by (auto simp: write_b_def Let_def writer_ok_def bk tbl_simps split: if_splits option.splits)
qed

lemma write_b_other:
  assumes "tsorted (dir_tmp b)" "writer_ok v b" "bw_tmp v \<noteq> bw_tmp w" "write_b acc w p b = (r, w', b')"
  shows "writer_ok v b'"
  using assms
  by (auto simp: write_b_def Let_def writer_ok_def bk tbl_simps split: if_splits option.splits)

lemma copy_b_inv:
  assumes "bucket_inv L b" "writer_ok w b" "copy_b e i w ps end b = (r, w', b')"
  shows "bucket_inv L b' \<and> writer_ok w' b' \<and> b_db b' = b_db b \<and> dir_objects b' = dir_objects b \<and>
    b_name b' = b_name b \<and> b_closed b' = b_closed b"
  using assms
proof (induction e i w ps "end" b arbitrary: r w' b' rule: copy_b.induct)
  case (1 e i w "end" b)
  then show ?case by simp
next
  case (2 e i w p ps "end" b)
  show ?case
  proof (cases "p = []")
    case True
    with 2 show ?thesis by simp
  next
    case False
    obtain n er w1 b1 where wr: "write_b (env_accepts e i) w p b = ((n, er), w1, b1)" by (metis surj_pair)
    have inv: "bucket_inv L b1" "writer_ok w1 b1"
      using write_b_inv [OF 2(3) wr] write_b_writer_ok [OF _ 2(4) wr] bucket_inv_sorted [OF 2(3)] by auto
    have fr: "b_db b1 = b_db b" "dir_objects b1 = dir_objects b" "b_name b1 = b_name b" "b_closed b1 = b_closed b"
      using wr by (auto simp: write_b_def Let_def bk split: if_splits)
    show ?thesis
    proof (cases "er = None \<and> n = length p")
      case True
      obtain r2 w2 b2 where c: "copy_b e (Suc i) w1 ps end b1 = (r2, w2, b2)" by (metis prod_cases3)
      have "w' = w2" "b' = b2" using 2(5) False wr True c by (auto split: prod.splits)
      with "2.IH"(2) [OF False wr [symmetric] refl _ refl _ inv c] True fr show ?thesis by auto
    next
      case False': False
      with 2(5) False wr have "w' = w1" "b' = b1" by (auto split: option.splits if_splits)
      with inv fr show ?thesis by simp
    qed
  qed
qed

lemma write_b_None:
  "write_b acc w p b = ((n, None), w', b') \<Longrightarrow>
   n = length p \<and> bw_sha w' = bw_sha w @ p \<and> bw_tmp w' = bw_tmp w \<and> bw_b w' = bw_b w \<and>
   bw_done w' = bw_done w"
  by (auto simp: write_b_def Let_def split: if_splits option.splits)

text \<open>A copy that returns no error has written the whole body.\<close>

lemma copy_b_None:
  "copy_b e i w ps end b = ((n, None), w', b') \<Longrightarrow>
   end = EOF \<and> n = length (concat ps) \<and> bw_sha w' = bw_sha w @ concat ps \<and> bw_tmp w' = bw_tmp w \<and>
   bw_b w' = bw_b w \<and> bw_done w' = bw_done w"
proof (induction e i w ps "end" b arbitrary: n w' b' rule: copy_b.induct)
  case (2 e i w p ps "end" b)
  show ?case
  proof (cases "p = []")
    case False
    obtain k er w1 b1 where wr: "write_b (env_accepts e i) w p b = ((k, er), w1, b1)" by (metis surj_pair)
    with 2(3) False have k: "er = None" "k = length p" by (auto split: option.splits if_splits)
    obtain m r w2 b2 where c: "copy_b e (Suc i) w1 ps end b1 = ((m, r), w2, b2)" by (metis surj_pair)
    with 2(3) False wr k have r: "r = None" "n = k + m" "w' = w2" by auto
    with "2.IH"(2) [OF False wr [symmetric] refl k(1) refl _ c [unfolded r(1)]]
      write_b_None [OF wr [unfolded k(1)]] k show ?thesis by auto
  qed (use 2 in simp)
qed (auto split: read_end.splits)

text \<open>When the device takes every write, a body that ends well is copied in full.\<close>

lemma copy_b_total:
  assumes "\<And>i. env_accepts e i = None" "\<not> bw_done w"
  shows "\<exists>w' b'. copy_b e i w ps EOF b = ((length (concat ps), None), w', b')"
  using assms(2)
proof (induction ps arbitrary: i w b)
  case (Cons p ps)
  show ?case
  proof (cases "p = []")
    case False
    then obtain w1 b1 where wr: "write_b None w p b = ((length p, None), w1, b1)"
      using Cons.prems by (auto simp: write_b_def Let_def)
    then have "\<not> bw_done w1" using write_b_None [OF wr] Cons.prems by simp
    from Cons.IH [OF this, of "Suc i" b1] False wr assms(1) show ?thesis by auto
  qed (use Cons in simp)
qed simp

lemma abort_b_inv: "bucket_inv L b \<Longrightarrow> bucket_inv L (snd (abort_b e w b))"
  by (simp add: abort_b_def bucket_inv_removeTmp)

end
