(* ===== verification/Store_Bucket_Live.thy ===== *)
theory Store_Bucket_Live
  imports Store_Bucket_Inv
begin

text \<open>
  What clients see of one bucket: the map from object names to descriptions and contents.
  Commit and delete refine an update of that map, reads are lookups in it, and an operation
  that returns an error leaves it as it was.
\<close>

section \<open>The abstract view\<close>

text \<open>An environment in which nothing fails.\<close>

definition quiet :: env where
  "quiet = \<lparr>env_now = 0, env_fails = (\<lambda>_. False), env_tmp_names = [], env_accepts = (\<lambda>_. None)\<rparr>"

definition live :: "lib \<Rightarrow> bucket \<Rightarrow> string \<Rightarrow> (object_info \<times> bytes) option" where
  "live L b name =
     (case openObject_b L quiet (b\<lparr>b_closed := False\<rparr>) name of Inl _ \<Rightarrow> None | Inr p \<Rightarrow> Some p)"

definition row_view :: "lib \<Rightarrow> bucket \<Rightarrow> string \<Rightarrow> object_row \<Rightarrow> (object_info \<times> bytes) option" where
  "row_view L b name r =
     (case scanObject L (b_name b) name r of
        Inl _ \<Rightarrow> None
      | Inr i \<Rightarrow> map_option (Pair i) (map_of (dir_objects b) (blobPath (or_sha256 r))))"

lemma row_view_simps [bk]:
  "row_view L (removeTmp e n b) = row_view L b"
  "row_view L (appendTmp n p b) = row_view L b"
  "row_view L (set_db x b) = row_view L b"
  by (auto simp: row_view_def bk fun_eq_iff split: sum.split)

lemma live_eq:
  "live L b name =
     (case b_db b of None \<Rightarrow> None
      | Some x \<Rightarrow> (case map_of (db_objects x) name of None \<Rightarrow> None | Some r \<Rightarrow> row_view L b name r))"
  by (auto simp: live_def openObject_b_def getObject_b_def openDb_def b_db_def selectObject_def quiet_def
      row_view_def dir_objects_def scanObject_Inr(3) split: option.splits sum.splits)

text \<open>In a consistent bucket every row has its content.\<close>

lemma row_view_Some:
  assumes inv: "bucket_inv L b" and x: "b_db b = Some x" and r: "map_of (db_objects x) name = Some r"
  obtains i c where "scanObject L (b_name b) name r = Inr i"
    "map_of (dir_objects b) (blobPath (or_sha256 r)) = Some c"
    "row_view L b name r = Some (i, c)" "or_sha256 r = hexEncode (lib_sha256 L c)"
proof -
  have x': "db_inv L x" "blobs_on_disk x b" using inv x by (auto simp: bucket_inv_def)
  then have "row_ok L name r" using r by (simp add: db_inv_def)
  then obtain i where i: "scanObject L (b_name b) name r = Inr i" using row_ok_scans by blast
  obtain c where c: "map_of (dir_objects b) (blobPath (or_sha256 r)) = Some c"
    using x'(2) r unfolding blobs_on_disk_iff [OF x'(1)] by blast
  moreover have "or_sha256 r = hexEncode (lib_sha256 L c)"
    using inv c unfolding bucket_inv_def files_ok_def by (metis blobPath_inject)
  ultimately show thesis using that i by (simp add: row_view_def)
qed

lemma live_None_iff:
  assumes "bucket_inv L b" "b_db b = Some x"
  shows "live L b name = None \<longleftrightarrow> map_of (db_objects x) name = None"
  using assms row_view_Some [OF assms] by (fastforce simp: live_eq split: option.splits)

text \<open>The view does not change when the database stays, and every file that was there stays.\<close>

lemma live_mono:
  assumes inv: "bucket_inv L b" and db: "b_db b' = b_db b" "b_name b' = b_name b"
    and files: "\<And>k c. map_of (dir_objects b) k = Some c \<Longrightarrow> map_of (dir_objects b') k = Some c"
  shows "live L b' = live L b"
proof
  fix name
  show "live L b' name = live L b name"
  proof (cases "b_db b")
    case None
    then show ?thesis by (simp add: live_eq db)
  next
    case (Some x)
    show ?thesis
    proof (cases "map_of (db_objects x) name")
      case None
      with Some show ?thesis by (simp add: live_eq db)
    next
      case (Some r)
      from inv \<open>b_db b = Some x\<close> Some show ?thesis
      proof (cases rule: row_view_Some)
        case (1 i c)
        with files [OF 1(2)] Some \<open>b_db b = Some x\<close> show ?thesis
          by (simp add: live_eq db row_view_def)
      qed
    qed
  qed
qed

lemma live_removeTmp [bk]: "live L (removeTmp e n b) = live L b"
  by (rule ext) (simp add: live_eq bk split: option.split)

lemma live_appendTmp [bk]: "live L (appendTmp n p b) = live L b"
  by (rule ext) (simp add: live_eq bk split: option.split)

text \<open>Removing the file of a digest no row uses does not change the view.\<close>

lemma live_removeBlob:
  assumes st: "tsorted (dir_objects b)" "b_db b = Some x"
    and unused: "\<And>name r. map_of (db_objects x) name = Some r \<Longrightarrow> or_sha256 r \<noteq> sha"
  shows "live L (removeBlob e sha b) = live L b"
proof
  fix name
  show "live L (removeBlob e sha b) name = live L b name"
    using st unused by (auto simp: live_eq bk row_view_def tbl_simps split: option.splits sum.splits)
qed

section \<open>Reads\<close>

text \<open>A read that returns a value returns the view's, and in a consistent bucket with an open
  database a read whose calls do not fail returns the view's value or not-found.\<close>

lemma openObject_b_live: "openObject_b L e b name = Inr p \<Longrightarrow> live L b name = Some p"
  by (auto simp: live_eq openObject_b_def getObject_b_def openDb_def selectObject_def row_view_def
      result_bind_Inr scanObject_Inr(3) split: option.splits if_splits sum.splits)

lemma openObject_b_total:
  assumes "bucket_inv L b" "\<not> b_closed b" "b_db b = Some x"
    "\<not> env_fails e Sys_SelectObject" "\<not> env_fails e Sys_OpenBlob"
  shows "openObject_b L e b name =
    (case live L b name of None \<Rightarrow> Inl ErrObjectNotFound | Some p \<Rightarrow> Inr p)"
proof (cases "map_of (db_objects x) name")
  case None
  with assms show ?thesis
    by (simp add: live_eq openObject_b_def getObject_b_def openDb_def selectObject_def)
next
  case (Some r)
  from assms(1,3) Some show ?thesis
  proof (cases rule: row_view_Some)
    case (1 i c)
    with assms Some show ?thesis
      by (simp add: live_eq openObject_b_def getObject_b_def openDb_def selectObject_def scanObject_Inr(3))
  qed
qed

lemma getObject_b_total:
  assumes "bucket_inv L b" "\<not> b_closed b" "b_db b = Some x" "\<not> env_fails e Sys_SelectObject"
  shows "getObject_b L e b name =
    (case live L b name of None \<Rightarrow> Inl ErrObjectNotFound | Some (i, c) \<Rightarrow> Inr i)"
proof (cases "map_of (db_objects x) name")
  case None
  with assms show ?thesis
    by (simp add: live_eq getObject_b_def openDb_def selectObject_def)
next
  case (Some r)
  from assms(1,3) Some show ?thesis
  proof (cases rule: row_view_Some)
    case (1 i c)
    with assms Some show ?thesis
      by (simp add: live_eq getObject_b_def openDb_def selectObject_def)
  qed
qed

section \<open>Delete\<close>

text \<open>An error leaves the bucket exactly as it was.\<close>

lemma deleteObject_b_error: "deleteObject_b L e b name conds = (Inl er, b') \<Longrightarrow> b' = b"
  by (auto simp: deleteObject_b_def split: sum.splits if_splits)

lemma deleteObject_b_Inr:
  assumes "deleteObject_b L e b name conds = (Inr u, b')"
  obtains x x' orphan sha where "b_db b = Some x" "\<not> b_closed b"
    "delete_tx L e (b_name b) name conds x = Inr (x', orphan, sha)"
    "b' = (if orphan then removeBlob e sha (set_db x' b) else set_db x' b)"
  using assms
  by (auto simp: deleteObject_b_def result_bind_Inr beginTx_Inr split: sum.splits if_splits)

lemma live_set_db_tdel:
  assumes "b_db b = Some x" "tsorted (db_objects x)" "db_objects x' = tdel name (db_objects x)"
  shows "live L (set_db x' b) = (live L b)(name := None)"
  using assms b_db_dir [OF assms(1)]
  by (intro ext) (auto simp: live_eq bk tbl_simps split: option.split)

lemma deleteObject_b_live:
  assumes inv: "bucket_inv L b" and ok: "deleteObject_b L e b name conds = (Inr u, b')"
  shows "live L b' = (live L b)(name := None)" "live L b name \<noteq> None"
    "conditions_hold conds (map_option fst (live L b name))"
proof -
  from ok obtain x x' orphan sha where x: "b_db b = Some x" "\<not> b_closed b"
      and d: "delete_tx L e (b_name b) name conds x = Inr (x', orphan, sha)"
      and b': "b' = (if orphan then removeBlob e sha (set_db x' b) else set_db x' b)"
    by (rule deleteObject_b_Inr)
  have inv_x: "db_inv L x" using inv x(1) by (simp add: bucket_inv_def)
  from inv_x d obtain r i where ri: "map_of (db_objects x) name = Some r"
      "scanObject L (b_name b) name r = Inr i" "conditions_hold conds (Some i)" "sha = or_sha256 r"
      "db_objects x' = tdel name (db_objects x)" "db_inv L x'" "orphan \<longleftrightarrow> refs sha (db_objects x') = 0"
    by (rule delete_tx_Inr)
  have st: "tsorted (db_objects x)" "tsorted (db_objects x')" using inv_x ri(6) by (auto simp: db_inv_def)
  have upd: "live L (set_db x' b) = (live L b)(name := None)"
    by (rule live_set_db_tdel [OF x(1) st(1) ri(5)])
  have "live L (removeBlob e sha (set_db x' b)) = live L (set_db x' b)" if orphan
    using that ri(7) refs_zero_iff [OF st(2), of sha] bucket_inv_sorted [OF inv] b_db_dir [OF x(1)]
    by (intro live_removeBlob [of _ x']) (auto simp: bk)
  with b' upd show "live L b' = (live L b)(name := None)" by simp
  from inv x(1) ri(1) obtain j c where "live L b name = Some (j, c)" "scanObject L (b_name b) name r = Inr j"
    by (rule row_view_Some) (simp add: live_eq x ri(1))
  with ri(2,3) show "live L b name \<noteq> None" "conditions_hold conds (map_option fst (live L b name))"
    by auto
qed

section \<open>Commit\<close>

text \<open>What is assumed of the digest for the content being written (none of the bucket's blob files
  is another content with the same digest), and of JSON for its metadata map (it reads back what
  it wrote).\<close>

definition collision_free :: "lib \<Rightarrow> (string, bytes) table \<Rightarrow> bytes \<Rightarrow> bool" where
  "collision_free L files c \<longleftrightarrow> list_all (\<lambda>(k, c'). lib_sha256 L c' = lib_sha256 L c \<longrightarrow> c' = c) files"

definition json_roundtrip :: "lib \<Rightarrow> metadata \<Rightarrow> bool" where
  "json_roundtrip L m \<longleftrightarrow>
     (m \<noteq> [] \<longrightarrow> lib_unmarshal L (lib_marshal L m) = Some m \<and>
        lib_marshal L m \<noteq> [] \<and> lib_marshal L m \<noteq> ''{}'')"

lemma scan_commit_row:
  assumes "json_roundtrip L (po_Metadata opts)"
  shows "scanObject L bn name (commit_row L now opts gen sha m crc sz) =
    Inr (commit_info bn name now opts gen sha m crc sz)"
  using assms uint_lt2p [of crc]
  by (auto simp: scanObject_def commit_row_def commit_info_def json_roundtrip_def)

lemma live_set_db_tput:
  assumes "b_db b = Some x" "tsorted (db_objects x)" "db_objects x' = tput name row (db_objects x)"
  shows "live L (set_db x' b) = (live L b)(name := row_view L b name row)"
  using assms b_db_dir [OF assms(1)]
  by (intro ext) (auto simp: live_eq bk tbl_simps split: option.split)

text \<open>A failed commit leaves the database and every blob file in place.\<close>

lemma commit_b_error:
  assumes inv: "bucket_inv L b" and w: "writer_ok w b" and json: "json_decodes L"
    and run: "commit_b L e w name opts b = (Inl er, w', b')"
  shows "live L b' = live L b" "b_db b' = b_db b" "bw_done w'"
proof -
  have "live L b' = live L b \<and> b_db b' = b_db b \<and> bw_done w'"
  proof (cases "bw_done w")
    case True
    with run show ?thesis by (auto simp: commit_b_def)
  next
    case False
    obtain r b1 where body: "commit_body L e w name opts b = (r, b1)" by force
    with run False have r: "r = Inl er" "b' = removeTmp e (bw_tmp w) b1" "bw_done w'"
      by (auto simp: commit_b_def)
    from inv w False json body show ?thesis
    proof (cases rule: commit_body_cases)
      case (error er')
      with r live_mono [OF inv error(3,4,6)] show ?thesis by (simp add: bk)
    next
      case (ok b1 x x' i orphan sha m crc)
      with r show ?thesis by simp
    qed
  qed
  then show "live L b' = live L b" "b_db b' = b_db b" "bw_done w'" by auto
qed

text \<open>A successful commit installs the object: the view is updated at its name, with the
  description it returned and the bytes that were written.\<close>

lemma commit_b_Inr:
  assumes inv: "bucket_inv L b" and w: "writer_ok w b" and json: "json_decodes L"
    and run: "commit_b L e w name opts b = (Inr i, w', b')"
  obtains b1 b2 x x' orphan sha m crc where
      "\<not> bw_done w" "bw_done w'" "b' = removeTmp e (bw_tmp w) b2"
      "checksums L w = (sha, m, crc)" "validObjectName name"
      "installBlob e sha (bw_tmp w) b = (Inr (), b1)" "bucket_inv L b1"
      "map_of (dir_objects b1) (blobPath sha) \<noteq> None"
      "\<And>k c. map_of (dir_objects b) k = Some c \<Longrightarrow> map_of (dir_objects b1) k = Some c"
      "b_db b = Some x" "\<not> b_closed b" "db_inv L x"
      "commit_tx L e (b_name b) name opts sha m crc (bw_size w) x = Inr (x', i, orphan)"
      "b2 = (if orphan \<noteq> [] then removeBlob e orphan (set_db x' b1) else set_db x' b1)"
proof -
  obtain r b2 where body: "commit_body L e w name opts b = (r, b2)" by force
  have nd: "\<not> bw_done w" and r: "r = Inr i" "b' = removeTmp e (bw_tmp w) b2" "bw_done w'"
    using run body by (auto simp: commit_b_def split: if_splits)
  from inv w nd json body show thesis
  proof (cases rule: commit_body_cases)
    case (error er)
    with r(1) show thesis by simp
  next
    case (ok b1 x x' j orphan sha m crc)
    with r(1) have "j = i" by simp
    with ok(11) have tx: "commit_tx L e (b_name b) name opts sha m crc (bw_size w) x = Inr (x', i, orphan)"
      by simp
    show thesis
      by (rule that [OF nd r(3,2) ok(2-10) tx ok(12)])
  qed
qed

lemma existing_live:
  assumes "bucket_inv L b" "b_db b = Some x" "selectObject L e (b_name b) name x = Inr existing"
  shows "existing = map_option fst (live L b name)"
proof (cases "map_of (db_objects x) name")
  case None
  with assms show ?thesis by (simp add: selectObject_Inr live_eq)
next
  case (Some row)
  from assms(1,2) Some show ?thesis
    by (rule row_view_Some) (use assms(2,3) Some in \<open>auto simp: selectObject_Inr live_eq\<close>)
qed

lemma commit_b_live:
  assumes inv: "bucket_inv L b" and w: "writer_ok w b" and json: "json_decodes L"
    and run: "commit_b L e w name opts b = (Inr i, w', b')"
    and sha_ok: "collision_free L (dir_objects b) (bw_sha w)" and md_ok: "json_roundtrip L (po_Metadata opts)"
  shows "live L b' = (live L b)(name \<mapsto> (i, bw_sha w)) \<and>
    i = commit_info (b_name b) name (env_now e) opts
           (next_generation (env_now e) (map_option fst (live L b name)))
           (hexEncode (lib_sha256 L (bw_sha w))) (lib_md5 L (bw_sha w)) (lib_crc32c L (bw_sha w))
           (wrap64 (int (length (bw_sha w)))) \<and>
    conditions_hold (po_Conditions opts) (map_option fst (live L b name)) \<and>
    validObjectName name \<and> bw_done w'"
  using inv w json run
proof (cases rule: commit_b_Inr)
  case (1 b1 b2 x x' orphan sha m crc)
  note sums = writer_ok_sums [OF w 1(1,4)]
  note frame = installBlob_frame [OF 1(6)]
  from 1(12) json 1(5) sums 1(13) obtain existing where
      sel: "selectObject L e (b_name b) name x = Inr existing"
      and conds: "conditions_hold (po_Conditions opts) existing"
      and i: "i = commit_info (b_name b) name (env_now e) opts (next_generation (env_now e) existing) sha m crc (bw_size w)"
      and objs: "db_objects x' = tput name
        (commit_row L (env_now e) opts (next_generation (env_now e) existing) sha m crc (bw_size w)) (db_objects x)"
      and inv': "db_inv L x'"
      and orphan: "orphan = (case existing of None \<Rightarrow> [] | Some j \<Rightarrow>
        if refs (oi_SHA256 j) (db_objects x') = 0 then oi_SHA256 j else [])"
    by (rule commit_tx_Inr)
  let ?row = "commit_row L (env_now e) opts (next_generation (env_now e) existing) sha m crc (bw_size w)"
  have st: "tsorted (db_objects x)" "tsorted (db_objects x')" using 1(12) inv' by (auto simp: db_inv_def)
  have ex: "existing = map_option fst (live L b name)" by (rule existing_live [OF inv 1(10) sel])
  obtain c' where c': "map_of (dir_objects b1) (blobPath sha) = Some c'" using 1(8) by blast
  then have "sha = hexEncode (lib_sha256 L c')"
    using 1(7) unfolding bucket_inv_def files_ok_def by (metis blobPath_inject)
  then have same: "lib_sha256 L c' = lib_sha256 L (bw_sha w)" using sums(1) by simp
  have "c' = bw_sha w"
    using 1(6)
  proof (cases rule: installBlob_cases)
    case dedup
    with c' same sha_ok show ?thesis by (auto simp: collision_free_def list_all_iff dest: map_of_SomeD)
  next
    case (moved c)
    with c' bucket_inv_sorted [OF inv] w 1(1) show ?thesis by (simp add: tbl_simps writer_ok_def)
  qed simp
  then have "row_view L b1 name ?row = Some (i, bw_sha w)"
    using c' i scan_commit_row [OF md_ok] by (simp add: row_view_def frame commit_row_def)
  then have "live L (set_db x' b1) = (live L b1)(name \<mapsto> (i, bw_sha w))"
    using live_set_db_tput [of b1 x x' name ?row] 1(10) st(1) objs by (simp add: frame)
  moreover have "live L b1 = live L b"
    using 1(9) by (intro live_mono [OF inv]) (simp_all add: frame)
  moreover have "live L (removeBlob e orphan (set_db x' b1)) = live L (set_db x' b1)" if "orphan \<noteq> []"
  proof (rule live_removeBlob [of _ x'])
    show "tsorted (dir_objects (set_db x' b1))" using bucket_inv_sorted [OF 1(7)] by (simp add: bk)
    show "b_db (set_db x' b1) = Some x'" using b_db_dir [of b1 x] 1(10) by (simp add: bk frame)
    show "or_sha256 r \<noteq> orphan" if "map_of (db_objects x') n = Some r" for n r
      using that \<open>orphan \<noteq> []\<close> orphan refs_zero_iff [OF st(2)] by (auto split: option.splits if_splits)
  qed
  ultimately have "live L b' = (live L b)(name \<mapsto> (i, bw_sha w))"
    using 1(3,14) by (simp add: bk)
  with i ex sums conds 1(2,5) show ?thesis by simp
qed

end
