(* ===== verification/Store_Core.thy ===== *)
theory Store_Core
  imports Store_Bucket_Live
begin

text \<open>
  The store: \<^verbatim>\<open>pkg/store/store.go\<close>, and the operations of \<^verbatim>\<open>bucket.go\<close> and
  \<^verbatim>\<open>blobwriter.go\<close> that start from a bucket's name. The state is the root directory (the bucket
  directories by name), the table of open handles by bucket name, and every handle ever opened,
  since a writer keeps the handle it was opened on after the bucket has been deleted. A bucket
  handle is a number; \<open>view\<close> pairs it with what its directory holds.
\<close>

section \<open>State\<close>

record handle =
  h_name :: string
  h_closed :: bool

record store =
  st_root :: "(string, bucket_dir) table"
  st_buckets :: "(string, nat) table"
  st_handles :: "handle list"

definition view :: "store \<Rightarrow> nat \<Rightarrow> bucket" where
  "view st h =
     \<lparr>b_name = h_name (st_handles st ! h), b_closed = h_closed (st_handles st ! h),
      b_dir = map_of (st_root st) (h_name (st_handles st ! h))\<rparr>"

definition set_dir :: "string \<Rightarrow> bucket_dir option \<Rightarrow> store \<Rightarrow> store" where
  "set_dir name d st =
     st\<lparr>st_root := (case d of None \<Rightarrow> tdel name (st_root st) | Some x \<Rightarrow> tput name x (st_root st))\<rparr>"

text \<open>Writing back what an operation on a handle did to the directory.\<close>

definition put_view :: "nat \<Rightarrow> bucket \<Rightarrow> store \<Rightarrow> store" where
  "put_view h b st = set_dir (h_name (st_handles st ! h)) (b_dir b) st"

definition close_handle :: "nat \<Rightarrow> store \<Rightarrow> store" where
  "close_handle h st = st\<lparr>st_handles := (st_handles st)[h := (st_handles st ! h)\<lparr>h_closed := True\<rparr>]\<rparr>"

section \<open>Opening and closing\<close>

text \<open>\<^verbatim>\<open>Open\<close>: \<open>root\<close> is what the directory holds already.\<close>

definition Open :: "env \<Rightarrow> (string, bucket_dir) table \<Rightarrow> store_error + store" where
  "Open e root =
     (if env_fails e Sys_MkdirRoot then Inl (ErrCall Sys_MkdirRoot)
      else Inr \<lparr>st_root = root, st_buckets = [], st_handles = []\<rparr>)"

text \<open>\<^verbatim>\<open>Close\<close>: every database is closed, the first error is returned.\<close>

definition Close :: "env \<Rightarrow> store \<Rightarrow> (store_error + unit) \<times> store" where
  "Close e st =
     (if st_buckets st \<noteq> [] \<and> env_fails e Sys_DbClose then Inl (ErrCall Sys_DbClose) else Inr (),
      (fold (\<lambda>(name, h). close_handle h) (st_buckets st) st)\<lparr>st_buckets := []\<rparr>)"

section \<open>Bucket names\<close>

definition name_edge :: "char \<Rightarrow> bool" where
  "name_edge c \<longleftrightarrow>
     (97 \<le> byte_val c \<and> byte_val c \<le> 122) \<or> (48 \<le> byte_val c \<and> byte_val c \<le> 57)"

definition name_inner :: "char \<Rightarrow> bool" where
  "name_inner c \<longleftrightarrow> name_edge c \<or> c = CHR ''.'' \<or> c = CHR ''_'' \<or> c = CHR ''-''"

text \<open>The regular expression \<^verbatim>\<open>^[a-z0-9][a-z0-9._-]{1,61}[a-z0-9]$\<close>.\<close>

definition validBucketName :: "string \<Rightarrow> bool" where
  "validBucketName name \<longleftrightarrow>
     3 \<le> length name \<and> length name \<le> 63 \<and> name_edge (hd name) \<and> name_edge (last name) \<and>
     list_all name_inner (butlast (tl name))"

section \<open>Finding a bucket\<close>

text \<open>The package function \<^verbatim>\<open>openBucket\<close> on a directory: create the tables and the info row if
  they are not there. SQLite creates the database file when it is missing.\<close>

definition openBucket_dir :: "env \<Rightarrow> bucket_dir \<Rightarrow> (store_error + unit) \<times> bucket_dir" where
  "openBucket_dir e d =
     (if env_fails e Sys_Schema then (Inl (ErrCall Sys_Schema), d)
      else
        let x = (case bd_db d of
                   None \<Rightarrow> \<lparr>db_info = None, db_objects = [], db_blobs = []\<rparr>
                 | Some x \<Rightarrow> x)
        in if env_fails e Sys_InsertInfo then (Inl (ErrCall Sys_InsertInfo), d\<lparr>bd_db := Some x\<rparr>)
           else (Inr (), d\<lparr>bd_db := Some (x\<lparr>db_info :=
                  (case db_info x of None \<Rightarrow> Some (env_now e, 1) | Some i \<Rightarrow> Some i)\<rparr>)\<rparr>))"

text \<open>The method \<^verbatim>\<open>Store.openBucket\<close>.\<close>

definition openBucket :: "env \<Rightarrow> string \<Rightarrow> store \<Rightarrow> (store_error + nat) \<times> store" where
  "openBucket e name st =
     (case map_of (st_buckets st) name of
        Some h \<Rightarrow> (Inr h, st)
      | None \<Rightarrow>
          (case map_of (st_root st) name of
             None \<Rightarrow> (Inl (ErrCall Sys_Schema), st)
           | Some d \<Rightarrow>
               (case openBucket_dir e d of
                  (Inl er, d') \<Rightarrow> (Inl er, set_dir name (Some d') st)
                | (Inr _, d') \<Rightarrow>
                    let h = length (st_handles st)
                    in (Inr h, (set_dir name (Some d') st)\<lparr>
                          st_handles := st_handles st @ [\<lparr>h_name = name, h_closed = False\<rparr>],
                          st_buckets := tput name h (st_buckets st)\<rparr>))))"

text \<open>The method \<^verbatim>\<open>Store.bucket\<close>.\<close>

definition bucket :: "env \<Rightarrow> string \<Rightarrow> store \<Rightarrow> (store_error + nat) \<times> store" where
  "bucket e name st =
     (if \<not> validBucketName name then (Inl ErrBucketNotFound, st)
      else (case map_of (st_buckets st) name of
              Some h \<Rightarrow> (Inr h, st)
            | None \<Rightarrow>
                (case map_of (st_root st) name of
                   None \<Rightarrow> (Inl ErrBucketNotFound, st)
                 | Some d \<Rightarrow>
                     if bd_db d = None then (Inl ErrBucketNotFound, st) else openBucket e name st)))"

text \<open>The operations that start with \<^verbatim>\<open>s.bucket(name)\<close>: run \<open>f\<close> on the handle.\<close>

definition on_bucket ::
  "env \<Rightarrow> string \<Rightarrow> (nat \<Rightarrow> store \<Rightarrow> (store_error + 'a) \<times> store) \<Rightarrow> store
   \<Rightarrow> (store_error + 'a) \<times> store" where
  "on_bucket e name f st =
     (case bucket e name st of (Inl er, st') \<Rightarrow> (Inl er, st') | (Inr h, st') \<Rightarrow> f h st')"

section \<open>Buckets\<close>

definition CreateBucket :: "env \<Rightarrow> string \<Rightarrow> store \<Rightarrow> (store_error + bucket_info) \<times> store" where
  "CreateBucket e name st =
     (if \<not> validBucketName name then (Inl (ErrInvalidName name), st)
      else if map_of (st_root st) name \<noteq> None then (Inl ErrBucketExists, st)
      else if env_fails e Sys_Mkdir then (Inl (ErrCall Sys_Mkdir), st)
      else if env_fails e Sys_MkdirSub
      then (Inl (ErrCall Sys_MkdirSub), set_dir name (Some empty_dir) st)
      else
        (case openBucket e name (set_dir name (Some (empty_dir\<lparr>bd_tmp := Some []\<rparr>)) st) of
           (Inl er, st') \<Rightarrow> (Inl er, st')
         | (Inr h, st') \<Rightarrow> (info_b e (view st' h), st')))"

definition GetBucket :: "env \<Rightarrow> string \<Rightarrow> store \<Rightarrow> (store_error + bucket_info) \<times> store" where
  "GetBucket e name st = on_bucket e name (\<lambda>h st'. (info_b e (view st' h), st')) st"

text \<open>The loop of \<^verbatim>\<open>ListBuckets\<close> over the directory entries, which come sorted by name.\<close>

fun listBuckets_loop ::
  "env \<Rightarrow> string list \<Rightarrow> store \<Rightarrow> (store_error + bucket_info list) \<times> store" where
  "listBuckets_loop e [] st = (Inr [], st)"
| "listBuckets_loop e (name # names) st =
     (if (case map_of (st_root st) name of None \<Rightarrow> True | Some d \<Rightarrow> bd_db d = None)
      then listBuckets_loop e names st
      else (case GetBucket e name st of
              (Inl er, st') \<Rightarrow> (Inl er, st')
            | (Inr i, st') \<Rightarrow>
                (case listBuckets_loop e names st' of
                   (Inl er, st2) \<Rightarrow> (Inl er, st2)
                 | (Inr is, st2) \<Rightarrow> (Inr (i # is), st2))))"

definition ListBuckets :: "env \<Rightarrow> store \<Rightarrow> (store_error + bucket_info list) \<times> store" where
  "ListBuckets e st =
     (if env_fails e Sys_ReadDir then (Inl (ErrCall Sys_ReadDir), st)
      else (case listBuckets_loop e (map fst (st_root st)) st of
              (Inl er, st') \<Rightarrow> (Inl er, st')
            | (Inr is, st') \<Rightarrow> (Inr (sort_key bi_Name is), st')))"

text \<open>\<^verbatim>\<open>DeleteBucket\<close> from the point where the handle is known and its commit lock is held.\<close>

definition deleteBucket_h :: "env \<Rightarrow> string \<Rightarrow> nat \<Rightarrow> store \<Rightarrow> (store_error + unit) \<times> store" where
  "deleteBucket_h e name h st =
     (case openDb (view st h) of
        Inl er \<Rightarrow> (Inl er, st)
      | Inr x \<Rightarrow>
          if env_fails e Sys_Count then (Inl (ErrCall Sys_Count), st)
          else if 0 < length (db_objects x) then (Inl ErrBucketNotEmpty, st)
          else
            let st1 = close_handle h (st\<lparr>st_buckets := tdel name (st_buckets st)\<rparr>)
            in if env_fails e Sys_DbClose then (Inl (ErrCall Sys_DbClose), st1)
               else if env_fails e Sys_RemoveAll then (Inl (ErrCall Sys_RemoveAll), st1)
               else (Inr (), set_dir name None st1))"

definition DeleteBucket :: "env \<Rightarrow> string \<Rightarrow> store \<Rightarrow> (store_error + unit) \<times> store" where
  "DeleteBucket e name st = on_bucket e name (deleteBucket_h e name) st"

section \<open>Objects\<close>

definition GetObject :: "lib \<Rightarrow> env \<Rightarrow> string \<Rightarrow> string \<Rightarrow> store \<Rightarrow> (store_error + object_info) \<times> store" where
  "GetObject L e bname name st = on_bucket e bname (\<lambda>h st'. (getObject_b L e (view st' h) name, st')) st"

definition OpenObject ::
  "lib \<Rightarrow> env \<Rightarrow> string \<Rightarrow> string \<Rightarrow> store \<Rightarrow> (store_error + object_info \<times> bytes) \<times> store" where
  "OpenObject L e bname name st = on_bucket e bname (\<lambda>h st'. (openObject_b L e (view st' h) name, st')) st"

definition deleteObject_h ::
  "lib \<Rightarrow> env \<Rightarrow> string \<Rightarrow> conditions \<Rightarrow> nat \<Rightarrow> store \<Rightarrow> (store_error + unit) \<times> store" where
  "deleteObject_h L e name conds h st =
     (case deleteObject_b L e (view st h) name conds of (r, b') \<Rightarrow> (r, put_view h b' st))"

definition DeleteObject ::
  "lib \<Rightarrow> env \<Rightarrow> string \<Rightarrow> string \<Rightarrow> conditions \<Rightarrow> store \<Rightarrow> (store_error + unit) \<times> store" where
  "DeleteObject L e bname name conds st = on_bucket e bname (deleteObject_h L e name conds) st"

definition NewBlobWriter :: "env \<Rightarrow> string \<Rightarrow> store \<Rightarrow> (store_error + blob_writer) \<times> store" where
  "NewBlobWriter e bname st =
     on_bucket e bname (\<lambda>h st'.
       case newBlobWriter_b e h (view st' h) of (r, b') \<Rightarrow> (r, put_view h b' st')) st"

definition TempFile :: "env \<Rightarrow> string \<Rightarrow> store \<Rightarrow> (store_error + string) \<times> store" where
  "TempFile e bname st =
     on_bucket e bname (\<lambda>h st'. case createTemp e (view st' h) of (r, b') \<Rightarrow> (r, put_view h b' st')) st"

text \<open>The writer's methods act on the handle the writer keeps.\<close>

definition Copy ::
  "env \<Rightarrow> blob_writer \<Rightarrow> bytes list \<Rightarrow> read_end \<Rightarrow> store
   \<Rightarrow> (nat \<times> store_error option) \<times> blob_writer \<times> store" where
  "Copy e w ps end st =
     (case copy_b e 0 w ps end (view st (bw_b w)) of (r, w', b') \<Rightarrow> (r, w', put_view (bw_b w) b' st))"

definition Abort :: "env \<Rightarrow> blob_writer \<Rightarrow> store \<Rightarrow> blob_writer \<times> store" where
  "Abort e w st = (case abort_b e w (view st (bw_b w)) of (w', b') \<Rightarrow> (w', put_view (bw_b w) b' st))"

definition Commit ::
  "lib \<Rightarrow> env \<Rightarrow> blob_writer \<Rightarrow> string \<Rightarrow> put_options \<Rightarrow> store
   \<Rightarrow> (store_error + object_info) \<times> blob_writer \<times> store" where
  "Commit L e w name opts st =
     (case commit_b L e w name opts (view st (bw_b w)) of
        (r, w', b') \<Rightarrow> (r, w', put_view (bw_b w) b' st))"

definition PutObject ::
  "lib \<Rightarrow> env \<Rightarrow> string \<Rightarrow> string \<Rightarrow> bytes list \<Rightarrow> read_end \<Rightarrow> put_options \<Rightarrow> store
   \<Rightarrow> (store_error + object_info) \<times> store" where
  "PutObject L e bname name ps end opts st =
     (case NewBlobWriter e bname st of
        (Inl er, st1) \<Rightarrow> (Inl er, st1)
      | (Inr w, st1) \<Rightarrow>
          (case Copy e w ps end st1 of
             ((n, Some er), w', st2) \<Rightarrow> (Inl er, snd (Abort e w' st2))
           | ((n, None), w', st2) \<Rightarrow>
               (case Commit L e w' name opts st2 of (r, w2, st3) \<Rightarrow> (r, st3))))"

end
