(* ===== verification/Store_Inv.thy ===== *)
theory Store_Inv
  imports Store_Core
begin

text \<open>
  The consistency of the whole store and its abstract view \<open>live_st\<close>: for every bucket the map
  from object names to descriptions and contents. Each operation of \<open>Store_Core\<close> keeps the
  consistency, whatever calls fail, and changes the view only as its result says.
\<close>

section \<open>Definitions\<close>

definition dir_bucket :: "string \<Rightarrow> bucket_dir option \<Rightarrow> bucket" where
  "dir_bucket name d = \<lparr>b_name = name, b_closed = False, b_dir = d\<rparr>"

definition dir_inv :: "lib \<Rightarrow> bucket_dir \<Rightarrow> bool" where
  "dir_inv L d \<longleftrightarrow> bucket_inv L (dir_bucket [] (Some d))"

text \<open>An open handle is the one its name is registered under, and its bucket has a database.\<close>

definition handles_ok :: "store \<Rightarrow> bool" where
  "handles_ok st \<longleftrightarrow>
     (\<forall>name h. map_of (st_buckets st) name = Some h \<longrightarrow>
        h < length (st_handles st) \<and> h_name (st_handles st ! h) = name \<and> \<not> h_closed (st_handles st ! h) \<and>
        (\<exists>d. map_of (st_root st) name = Some d \<and> bd_db d \<noteq> None)) \<and>
     (\<forall>h < length (st_handles st). \<not> h_closed (st_handles st ! h) \<longrightarrow>
        map_of (st_buckets st) (h_name (st_handles st ! h)) = Some h)"

definition store_inv :: "lib \<Rightarrow> store \<Rightarrow> bool" where
  "store_inv L st \<longleftrightarrow>
     tsorted (st_root st) \<and> tsorted (st_buckets st) \<and> handles_ok st \<and>
     (\<forall>name d. map_of (st_root st) name = Some d \<longrightarrow> dir_inv L d)"

definition live_st :: "lib \<Rightarrow> store \<Rightarrow> string \<Rightarrow> string \<Rightarrow> (object_info \<times> bytes) option" where
  "live_st L st bname = live L (dir_bucket bname (map_of (st_root st) bname))"

definition bucket_exists :: "store \<Rightarrow> string \<Rightarrow> bool" where
  "bucket_exists st bname \<longleftrightarrow>
     validBucketName bname \<and> (case map_of (st_root st) bname of None \<Rightarrow> False | Some d \<Rightarrow> bd_db d \<noteq> None)"

section \<open>Views\<close>

lemma bucket_inv_dir: "bucket_inv L b \<longleftrightarrow> (case b_dir b of None \<Rightarrow> True | Some d \<Rightarrow> dir_inv L d)"
  by (auto simp: dir_inv_def dir_bucket_def bucket_inv_def files_ok_def blobs_on_disk_def b_db_def
      dir_objects_def dir_tmp_def tbl_inv split: option.splits)

lemma live_dir: "live L b = live L (dir_bucket (b_name b) (b_dir b))"
  by (cases b) (simp add: live_def dir_bucket_def fun_eq_iff)

lemma view_simps [bk]:
  "b_name (view st h) = h_name (st_handles st ! h)"
  "b_closed (view st h) = h_closed (st_handles st ! h)"
  "b_dir (view st h) = map_of (st_root st) (h_name (st_handles st ! h))"
  by (simp_all add: view_def)

lemma view_inv: "store_inv L st \<Longrightarrow> bucket_inv L (view st h)"
  by (auto simp: bucket_inv_dir bk store_inv_def split: option.splits)

lemma live_view: "live L (view st h) = live_st L st (h_name (st_handles st ! h))"
  by (subst live_dir) (simp add: live_st_def bk)

lemma set_dir_simps [bk]:
  "st_buckets (set_dir name d st) = st_buckets st"
  "st_handles (set_dir name d st) = st_handles st"
  "tsorted (st_root st) \<Longrightarrow> tsorted (st_root (set_dir name d st))"
  "tsorted (st_root st) \<Longrightarrow> map_of (st_root (set_dir name d st)) n = (if n = name then d else map_of (st_root st) n)"
  by (auto simp: set_dir_def tbl_inv tbl_simps split: option.splits)

lemma live_st_set_dir:
  "tsorted (st_root st) \<Longrightarrow>
   live_st L (set_dir name d st) = (live_st L st)(name := live L (dir_bucket name d))"
  by (rule ext) (simp add: live_st_def bk)

text \<open>Writing a handle's directory back keeps the store consistent as long as the directory is
  consistent and keeps its database.\<close>

lemma put_view_inv:
  assumes inv: "store_inv L st" and b': "bucket_inv L b'"
    and db: "b_db (view st h) \<noteq> None \<Longrightarrow> b_db b' \<noteq> None"
  shows "store_inv L (put_view h b' st)"
proof -
  let ?n = "h_name (st_handles st ! h)"
  have st: "tsorted (st_root st)" using inv by (simp add: store_inv_def)
  have "\<exists>d. b_dir b' = Some d \<and> bd_db d \<noteq> None" if "map_of (st_root st) ?n = Some d'" "bd_db d' \<noteq> None" for d'
    using db that by (auto simp: b_db_def bk split: option.splits)
  then have "handles_ok (put_view h b' st)"
    using inv st unfolding store_inv_def handles_ok_def by (auto simp: put_view_def bk) metis
  with inv st b' show ?thesis
    by (auto simp: store_inv_def put_view_def bk bucket_inv_dir split: if_splits)
qed

lemma put_view_live:
  assumes "tsorted (st_root st)" "b_name b' = h_name (st_handles st ! h)"
  shows "live_st L (put_view h b' st) = (live_st L st)(h_name (st_handles st ! h) := live L b')"
  using assms live_dir [of L b'] by (simp add: put_view_def live_st_set_dir)

lemma put_view_simps [bk]:
  "st_buckets (put_view h b st) = st_buckets st"
  "st_handles (put_view h b st) = st_handles st"
  by (simp_all add: put_view_def bk)

section \<open>Finding a bucket\<close>

lemma openBucket_dir_inv:
  assumes "dir_inv L d" "openBucket_dir e d = (r, d')"
  shows "dir_inv L d'" "r = Inr u \<Longrightarrow> bd_db d' \<noteq> None" "live L (dir_bucket n (Some d')) = live L (dir_bucket n (Some d))"
    "bd_db d \<noteq> None \<Longrightarrow> bd_db d' \<noteq> None"
proof -
  have e: "db_inv L (x\<lparr>db_info := i\<rparr>) = db_inv L x" "blobs_on_disk (x\<lparr>db_info := i\<rparr>) b = blobs_on_disk x b" for x i b
    by (simp_all add: db_inv_def blobs_on_disk_def)
  have z: "db_inv L \<lparr>db_info = i, db_objects = [], db_blobs = []\<rparr>"
      "blobs_on_disk \<lparr>db_info = i, db_objects = [], db_blobs = []\<rparr> b" for i b
    by (simp_all add: db_inv_def blobs_on_disk_def tbl_inv blobs_match_iff refs_def count_rows_def)
  note defs = openBucket_dir_def Let_def dir_inv_def bucket_inv_def files_ok_def b_db_def dir_bucket_def
    dir_objects_def dir_tmp_def
  show "dir_inv L d'" using assms e z
    by (cases "bd_db d") (auto simp: defs blobs_on_disk_def split: if_splits option.splits)
  show "r = Inr u \<Longrightarrow> bd_db d' \<noteq> None" "bd_db d \<noteq> None \<Longrightarrow> bd_db d' \<noteq> None"
    using assms by (auto simp: openBucket_dir_def Let_def split: if_splits)
  show "live L (dir_bucket n (Some d')) = live L (dir_bucket n (Some d))"
  proof (rule ext)
    fix name
    have "bd_objects d' = bd_objects d"
      using assms by (auto simp: openBucket_dir_def Let_def split: if_splits)
    then have "row_view L (dir_bucket n (Some d')) = row_view L (dir_bucket n (Some d))"
      by (simp add: row_view_def dir_bucket_def dir_objects_def fun_eq_iff split: sum.split)
    with assms show "live L (dir_bucket n (Some d')) name = live L (dir_bucket n (Some d)) name"
      by (cases "bd_db d")
         (auto simp: openBucket_dir_def Let_def live_eq b_db_def dir_bucket_def split: if_splits option.splits)
  qed
qed

text \<open>What a successful lookup of a bucket gives: an open handle with the bucket's name.\<close>

definition handle_for :: "string \<Rightarrow> nat \<Rightarrow> store \<Rightarrow> bool" where
  "handle_for name h st \<longleftrightarrow> map_of (st_buckets st) name = Some h"

lemma handle_forD:
  assumes "store_inv L st" "handle_for name h st"
  shows "h < length (st_handles st)" "h_name (st_handles st ! h) = name" "\<not> b_closed (view st h)"
    "b_db (view st h) \<noteq> None" "b_name (view st h) = name"
proof -
  obtain d where "h < length (st_handles st) \<and> h_name (st_handles st ! h) = name \<and>
      \<not> h_closed (st_handles st ! h) \<and> map_of (st_root st) name = Some d \<and> bd_db d \<noteq> None"
    using assms unfolding store_inv_def handles_ok_def handle_for_def by blast
  then show "h < length (st_handles st)" "h_name (st_handles st ! h) = name" "\<not> b_closed (view st h)"
    "b_db (view st h) \<noteq> None" "b_name (view st h) = name"
    by (auto simp: bk b_db_def)
qed

lemma handles_ok_open:
  assumes st: "tsorted (st_root st)" "tsorted (st_buckets st)" "handles_ok st"
    and new: "map_of (st_buckets st) name = None" and d: "bd_db d \<noteq> None"
  shows "handles_ok ((set_dir name (Some d) st)\<lparr>
    st_handles := st_handles st @ [\<lparr>h_name = name, h_closed = False\<rparr>],
    st_buckets := tput name (length (st_handles st)) (st_buckets st)\<rparr>)" (is "handles_ok ?st")
proof -
  have old: "h < length (st_handles st) \<and> h_name (st_handles st ! h) = n \<and> \<not> h_closed (st_handles st ! h) \<and>
      (\<exists>d. map_of (st_root st) n = Some d \<and> bd_db d \<noteq> None)" if "map_of (st_buckets st) n = Some h" for n h
    using st(3) that unfolding handles_ok_def by blast
  have "h < length (st_handles ?st) \<and> h_name (st_handles ?st ! h) = n \<and> \<not> h_closed (st_handles ?st ! h) \<and>
      (\<exists>d. map_of (st_root ?st) n = Some d \<and> bd_db d \<noteq> None)" if "map_of (st_buckets ?st) n = Some h" for n h
  proof (cases "n = name")
    case True
    with that st(1,2) d show ?thesis by (auto simp: tbl_simps bk nth_append)
  next
    case False
    with that st(2) have "map_of (st_buckets st) n = Some h" by (simp add: tbl_simps)
    from old [OF this] False st(1) show ?thesis by (simp add: bk nth_append)
  qed
  moreover have "map_of (st_buckets ?st) (h_name (st_handles ?st ! h)) = Some h"
    if h: "h < length (st_handles ?st)" "\<not> h_closed (st_handles ?st ! h)" for h
  proof (cases "h < length (st_handles st)")
    case True
    with h(2) st(3) have "map_of (st_buckets st) (h_name (st_handles st ! h)) = Some h"
      by (simp add: handles_ok_def nth_append)
    with new True st(2) show ?thesis by (auto simp: tbl_simps nth_append)
  next
    case False
    with h(1) st(2) show ?thesis by (simp add: tbl_simps less_Suc_eq)
  qed
  ultimately show ?thesis unfolding handles_ok_def by blast
qed

lemma openBucket_inv:
  assumes inv: "store_inv L st" and run: "openBucket e name st = (r, st')"
  shows "store_inv L st'" "live_st L st' = live_st L st" "r = Inr h \<Longrightarrow> handle_for name h st'"
proof -
  have st: "tsorted (st_root st)" "tsorted (st_buckets st)" "handles_ok st" using inv by (auto simp: store_inv_def)
  have "store_inv L st' \<and> live_st L st' = live_st L st \<and> (r = Inr h \<longrightarrow> handle_for name h st')"
  proof (cases "map_of (st_buckets st) name")
    case (Some h')
    with inv run show ?thesis by (auto simp: openBucket_def handle_for_def)
  next
    case None
    show ?thesis
    proof (cases "map_of (st_root st) name")
      case None
      with \<open>map_of (st_buckets st) name = None\<close> inv run show ?thesis by (auto simp: openBucket_def)
    next
      case (Some d)
      obtain ro d' where od: "openBucket_dir e d = (ro, d')" by force
      have d: "dir_inv L d" using inv Some by (auto simp: store_inv_def)
      note d' = openBucket_dir_inv [OF d od]
      have root: "\<And>n x. map_of (st_root (set_dir name (Some d') st)) n = Some x \<Longrightarrow> dir_inv L x"
        using inv d'(1) st by (auto simp: bk store_inv_def split: if_splits)
      have live: "live_st L (set_dir name (Some d') st) = live_st L st"
        using st d'(3) Some by (auto simp: live_st_set_dir live_st_def)
      show ?thesis
      proof (cases ro)
        case (Inl er)
        have "handles_ok (set_dir name (Some d') st)"
          using st(1,3) Some \<open>map_of (st_buckets st) name = None\<close> unfolding handles_ok_def by (auto simp: bk)
        with Inl \<open>map_of (st_buckets st) name = None\<close> Some run od root live st show ?thesis
          by (auto simp: openBucket_def store_inv_def bk)
      next
        case (Inr u)
        let ?st = "(set_dir name (Some d') st)\<lparr>
            st_handles := st_handles st @ [\<lparr>h_name = name, h_closed = False\<rparr>],
            st_buckets := tput name (length (st_handles st)) (st_buckets st)\<rparr>"
        have st': "st' = ?st" "r = Inr (length (st_handles st))"
          using Inr \<open>map_of (st_buckets st) name = None\<close> Some run od by (auto simp: openBucket_def Let_def)
        have "handles_ok ?st"
          by (rule handles_ok_open [OF st None]) (use Inr d'(2) in simp)
        then have "store_inv L ?st" using root st by (auto simp: store_inv_def bk tbl_inv)
        moreover have "live_st L ?st = live_st L st" using live by (simp add: live_st_def fun_eq_iff)
        ultimately show ?thesis using st' st by (simp add: handle_for_def tbl_simps)
      qed
    qed
  qed
  then show "store_inv L st'" "live_st L st' = live_st L st" "r = Inr h \<Longrightarrow> handle_for name h st'" by auto
qed

lemma bucket_lookup:
  assumes "store_inv L st" "bucket e name st = (r, st')"
  shows "store_inv L st'" "live_st L st' = live_st L st" "r = Inr h \<Longrightarrow> handle_for name h st'"
  using assms openBucket_inv [OF assms(1), of e name r st']
  by (auto simp: bucket_def handle_for_def split: if_splits option.splits)

text \<open>Rule for the operations that start with a lookup.\<close>

lemma on_bucket_cases:
  assumes "store_inv L st" "on_bucket e name f st = (r, st')"
  obtains (error) er where "r = Inl er" "store_inv L st'" "live_st L st' = live_st L st"
  | (found) h st1 where "store_inv L st1" "live_st L st1 = live_st L st" "handle_for name h st1" "f h st1 = (r, st')"
      "bucket e name st = (Inr h, st1)"
proof -
  obtain rb st1 where b: "bucket e name st = (rb, st1)" by force
  note l = bucket_lookup [OF assms(1) b]
  show thesis
  proof (cases rb)
    case (Inl er)
    with assms(2) b l show thesis by (intro error [of er]) (auto simp: on_bucket_def)
  next
    case (Inr h)
    with assms(2) b l show thesis by (intro found [of st1 h]) (auto simp: on_bucket_def)
  qed
qed

end
