(* ===== verification/Store_Ops.thy ===== *)
theory Store_Ops
  imports Store_Inv
begin

text \<open>
  The store's operations one by one: each keeps \<open>store_inv\<close> whatever calls fail, and what it
  does to the view \<open>live_st\<close>.
\<close>

lemma live_st_root: "st_root st' = st_root st \<Longrightarrow> live_st L st' = live_st L st"
  by (simp add: live_st_def fun_eq_iff)

section \<open>Buckets\<close>

lemma read_only_on_bucket:
  assumes "store_inv L st" "on_bucket e name (\<lambda>h st1. (f h st1, st1)) st = (r, st')"
  shows "store_inv L st' \<and> live_st L st' = live_st L st"
  using assms by (cases rule: on_bucket_cases) auto

lemma GetBucket_inv:
  "store_inv L st \<Longrightarrow> GetBucket e name st = (r, st') \<Longrightarrow> store_inv L st' \<and> live_st L st' = live_st L st"
  unfolding GetBucket_def by (rule read_only_on_bucket)

lemma GetObject_inv:
  "store_inv L st \<Longrightarrow> GetObject L e bn name st = (r, st') \<Longrightarrow> store_inv L st' \<and> live_st L st' = live_st L st"
  unfolding GetObject_def by (rule read_only_on_bucket)

lemma OpenObject_inv:
  "store_inv L st \<Longrightarrow> OpenObject L e bn name st = (r, st') \<Longrightarrow> store_inv L st' \<and> live_st L st' = live_st L st"
  unfolding OpenObject_def by (rule read_only_on_bucket)

lemma listBuckets_loop_inv:
  "store_inv L st \<Longrightarrow> listBuckets_loop e names st = (r, st') \<Longrightarrow>
   store_inv L st' \<and> live_st L st' = live_st L st"
proof (induction names arbitrary: st r st')
  case (Cons name names)
  obtain rg st1 where g: "GetBucket e name st = (rg, st1)" by force
  note g' = GetBucket_inv [OF Cons.prems(1) g]
  obtain rl st2 where l: "listBuckets_loop e names st1 = (rl, st2)" by force
  have "store_inv L st2 \<and> live_st L st2 = live_st L st" using Cons.IH [OF _ l] g' by auto
  with Cons.prems(2) Cons.IH [OF Cons.prems(1), of r st'] g g' l show ?case
    by (cases rg; cases rl) (simp_all split: option.splits if_splits)
qed simp

lemma ListBuckets_inv:
  "store_inv L st \<Longrightarrow> ListBuckets e st = (r, st') \<Longrightarrow> store_inv L st' \<and> live_st L st' = live_st L st"
  using listBuckets_loop_inv [of L st e "map fst (st_root st)"]
  by (auto simp: ListBuckets_def split: if_splits prod.splits sum.splits)

lemma empty_dir_inv: "dir_inv L empty_dir" "dir_inv L (empty_dir\<lparr>bd_tmp := Some []\<rparr>)"
  by (simp_all add: dir_inv_def bucket_inv_def files_ok_def dir_bucket_def empty_dir_def dir_objects_def
      dir_tmp_def b_db_def tbl_inv)

lemma live_no_db: "b_db b = None \<Longrightarrow> live L b = (\<lambda>_. None)"
  by (simp add: live_eq fun_eq_iff)

lemma set_dir_new_inv:
  assumes inv: "store_inv L st" and new: "map_of (st_root st) name = None"
    and d: "dir_inv L d" "bd_db d = None"
  shows "store_inv L (set_dir name (Some d) st)" "live_st L (set_dir name (Some d) st) = live_st L st"
proof -
  have st: "tsorted (st_root st)" "handles_ok st" using inv by (auto simp: store_inv_def)
  have "handles_ok (set_dir name (Some d) st)"
    using st(2) new unfolding handles_ok_def by (auto simp: bk st(1)) (metis option.distinct(1))+
  with inv st d show "store_inv L (set_dir name (Some d) st)"
    by (auto simp: store_inv_def bk split: if_splits)
  have "live L (dir_bucket name (Some d)) = (\<lambda>_. None)" "live_st L st name = (\<lambda>_. None)"
    using d new by (auto simp: live_st_def dir_bucket_def b_db_def intro!: live_no_db)
  then show "live_st L (set_dir name (Some d) st) = live_st L st"
    by (auto simp: live_st_set_dir [OF st(1)])
qed

lemma CreateBucket_inv:
  assumes inv: "store_inv L st" and run: "CreateBucket e name st = (r, st')"
  shows "store_inv L st' \<and> live_st L st' = live_st L st"
proof (cases "\<not> validBucketName name \<or> map_of (st_root st) name \<noteq> None \<or> env_fails e Sys_Mkdir")
  case True
  with run have "st' = st" by (auto simp: CreateBucket_def split: if_splits)
  with inv show ?thesis by simp
next
  case False
  then have new: "map_of (st_root st) name = None" by simp
  note n1 = set_dir_new_inv [OF inv new empty_dir_inv(1)] set_dir_new_inv [OF inv new empty_dir_inv(2)]
  obtain ro st1 where ob: "openBucket e name (set_dir name (Some (empty_dir\<lparr>bd_tmp := Some []\<rparr>)) st) = (ro, st1)"
    by force
  have "store_inv L st1 \<and> live_st L st1 = live_st L st"
    using openBucket_inv(1,2) [OF _ ob] n1 by (simp add: empty_dir_def)
  moreover have "st' = st1 \<or> st' = set_dir name (Some empty_dir) st"
    using False run ob by (auto simp: CreateBucket_def split: if_splits sum.splits)
  ultimately show ?thesis using n1 by (auto simp: empty_dir_def)
qed

lemma close_handle_root [bk]: "st_root (close_handle h st) = st_root st" "st_buckets (close_handle h st) = st_buckets st"
  by (simp_all add: close_handle_def)

text \<open>Closing a handle and dropping its name.\<close>

lemma close_inv:
  assumes inv: "store_inv L st" and h: "handle_for name h st"
  shows "store_inv L (close_handle h (st\<lparr>st_buckets := tdel name (st_buckets st)\<rparr>))" (is "store_inv L ?st")
proof -
  have st: "tsorted (st_buckets st)" "handles_ok st" using inv by (auto simp: store_inv_def)
  have hl: "h < length (st_handles st)" "h_name (st_handles st ! h) = name" using handle_forD [OF inv h] by auto
  have old: "k < length (st_handles st) \<and> h_name (st_handles st ! k) = n \<and> \<not> h_closed (st_handles st ! k) \<and>
      (\<exists>d. map_of (st_root st) n = Some d \<and> bd_db d \<noteq> None)" if "map_of (st_buckets st) n = Some k" for n k
    using st(2) that unfolding handles_ok_def by blast
  have "k < length (st_handles ?st) \<and> h_name (st_handles ?st ! k) = n \<and> \<not> h_closed (st_handles ?st ! k) \<and>
      (\<exists>d. map_of (st_root ?st) n = Some d \<and> bd_db d \<noteq> None)" if "map_of (st_buckets ?st) n = Some k" for n k
  proof -
    from that st(1) have n: "n \<noteq> name" "map_of (st_buckets st) n = Some k"
      by (auto simp: bk tbl_simps split: if_splits)
    with old [OF n(2)] hl have "k \<noteq> h" by auto
    with old [OF n(2)] show ?thesis by (simp add: close_handle_def)
  qed
  moreover have "map_of (st_buckets ?st) (h_name (st_handles ?st ! k)) = Some k"
    if k: "k < length (st_handles ?st)" "\<not> h_closed (st_handles ?st ! k)" for k
  proof -
    from k hl have "k \<noteq> h" by (auto simp: close_handle_def)
    with k st(2) have m: "map_of (st_buckets st) (h_name (st_handles st ! k)) = Some k"
      by (simp add: close_handle_def handles_ok_def)
    with h \<open>k \<noteq> h\<close> have "h_name (st_handles st ! k) \<noteq> name" by (auto simp: handle_for_def)
    with m \<open>k \<noteq> h\<close> st(1) show ?thesis by (simp add: close_handle_def tbl_simps)
  qed
  ultimately have "handles_ok ?st" unfolding handles_ok_def by blast
  with inv st(1) show ?thesis by (simp add: store_inv_def bk tbl_inv)
qed

lemma set_dir_None_inv:
  assumes inv: "store_inv L st" and free: "map_of (st_buckets st) name = None"
  shows "store_inv L (set_dir name None st)"
proof -
  have st: "tsorted (st_root st)" "handles_ok st" using inv by (auto simp: store_inv_def)
  have "handles_ok (set_dir name None st)"
    using st(2) free unfolding handles_ok_def by (auto simp: bk st(1))
  with inv st show ?thesis by (auto simp: store_inv_def bk split: if_splits)
qed

text \<open>Deleting a bucket succeeds only on a bucket without objects, so it never changes what the
  object operations see.\<close>

lemma deleteBucket_h_inv:
  assumes inv: "store_inv L st" and h: "handle_for name h st" and run: "deleteBucket_h e name h st = (r, st')"
  shows "store_inv L st' \<and> live_st L st' = live_st L st"
    and "r = Inr u \<Longrightarrow> map_of (st_root st') name = None \<and> live_st L st name = (\<lambda>_. None)"
proof -
  have st: "tsorted (st_root st)" "tsorted (st_buckets st)" using inv by (auto simp: store_inv_def)
  let ?st1 = "close_handle h (st\<lparr>st_buckets := tdel name (st_buckets st)\<rparr>)"
  have root1: "st_root ?st1 = st_root st" by (simp add: bk)
  note c = close_inv [OF inv h]
  have "map_of (st_buckets ?st1) name = None" using st by (simp add: bk tbl_simps)
  note d = set_dir_None_inv [OF c this]
  have none: "live_st L st name = (\<lambda>_. None)" if "openDb (view st h) = Inr x" "db_objects x = []" for x
    using that handle_forD(2) [OF inv h] live_view [of L st h] by (simp add: openDb_Inr live_eq fun_eq_iff)
  have l: "live_st L (set_dir name None ?st1) = (live_st L st)(name := (\<lambda>_. None))"
    using st live_st_root [OF root1, of L] by (simp add: live_st_set_dir bk live_no_db b_db_def dir_bucket_def)
  show "store_inv L st' \<and> live_st L st' = live_st L st"
    using run inv c d l none live_st_root [OF root1, of L]
    by (auto simp: deleteBucket_h_def Let_def split: sum.splits if_splits)
  show "r = Inr u \<Longrightarrow> map_of (st_root st') name = None \<and> live_st L st name = (\<lambda>_. None)"
    using run none st by (auto simp: deleteBucket_h_def Let_def bk split: sum.splits if_splits)
qed

lemma DeleteBucket_inv:
  assumes "store_inv L st" "DeleteBucket e name st = (r, st')"
  shows "store_inv L st' \<and> live_st L st' = live_st L st"
  using assms unfolding DeleteBucket_def
  by (cases rule: on_bucket_cases) (auto dest: deleteBucket_h_inv(1))

subsection \<open>Closing the store\<close>

lemma fold_close_simps:
  "st_root (fold (\<lambda>(name, h). close_handle h) t st) = st_root st"
  "length (st_handles (fold (\<lambda>(name, h). close_handle h) t st)) = length (st_handles st)"
  by (induction t arbitrary: st) (auto simp: bk close_handle_def)

lemma fold_close_closed:
  "h < length (st_handles st) \<Longrightarrow>
   h_closed (st_handles (fold (\<lambda>(name, h). close_handle h) t st) ! h) \<longleftrightarrow>
   h \<in> snd ` set t \<or> h_closed (st_handles st ! h)"
proof (induction t arbitrary: st)
  case (Cons a t)
  obtain name k where a: "a = (name, k)" by (cases a)
  have l: "h < length (st_handles (close_handle k st))" using Cons.prems by (simp add: close_handle_def)
  have "h_closed (st_handles (close_handle k st) ! h) \<longleftrightarrow> h = k \<or> h_closed (st_handles st ! h)"
    using Cons.prems by (cases "h = k") (simp_all add: close_handle_def)
  with Cons.IH [OF l] show ?case by (auto simp: a)
qed simp

lemma Close_inv:
  assumes inv: "store_inv L st" and run: "Close e st = (r, st')"
  shows "store_inv L st'" "live_st L st' = live_st L st"
    "\<And>h. h < length (st_handles st') \<Longrightarrow> h_closed (st_handles st' ! h)"
proof -
  have st: "tsorted (st_buckets st)" "handles_ok st" using inv by (auto simp: store_inv_def)
  have root: "st_root st' = st_root st" and b: "st_buckets st' = []"
    using run by (auto simp: Close_def fold_close_simps)
  show cl: "h_closed (st_handles st' ! h)" if "h < length (st_handles st')" for h
  proof -
    have h: "h < length (st_handles st)" using that run by (auto simp: Close_def fold_close_simps)
    have "h \<in> snd ` set (st_buckets st) \<or> h_closed (st_handles st ! h)"
      using st h tbl.get_rows [OF st(1)] unfolding handles_ok_def by force
    with fold_close_closed [OF h, of "st_buckets st"] run show ?thesis by (auto simp: Close_def)
  qed
  then show "store_inv L st'"
    using inv by (auto simp: store_inv_def root b tbl_inv handles_ok_def)
  show "live_st L st' = live_st L st" by (rule live_st_root [OF root])
qed

section \<open>Objects\<close>

lemma deleteObject_h_inv:
  assumes inv: "store_inv L st" and run: "deleteObject_h L e name conds h st = (r, st')"
  shows "store_inv L st'"
    "r = Inl er \<Longrightarrow> live_st L st' = live_st L st"
    "r = Inr u \<Longrightarrow> live_st L st' =
       (live_st L st)(h_name (st_handles st ! h) := (live_st L st (h_name (st_handles st ! h)))(name := None)) \<and>
       live_st L st (h_name (st_handles st ! h)) name \<noteq> None \<and>
       conditions_hold conds (map_option fst (live_st L st (h_name (st_handles st ! h)) name))"
proof -
  obtain b' where d: "deleteObject_b L e (view st h) name conds = (r, b')"
    using run by (auto simp: deleteObject_h_def split: prod.splits)
  have st': "st' = put_view h b' st" using run d by (simp add: deleteObject_h_def)
  have st: "tsorted (st_root st)" using inv by (simp add: store_inv_def)
  note v = view_inv [OF inv, of h]
  have name: "b_name b' = h_name (st_handles st ! h)" "b_db (view st h) \<noteq> None \<Longrightarrow> b_db b' \<noteq> None"
    using d by (auto simp: deleteObject_b_def bk b_db_def split: sum.splits if_splits)
       (auto simp: set_db_def removeBlob_def map_dir_def bk split: option.splits)
  show "store_inv L st'" unfolding st'
    using deleteObject_b_inv [OF v, of e name conds] d name(2) by (intro put_view_inv [OF inv]) auto
  show "live_st L st' = live_st L st" if "r = Inl er"
    using deleteObject_b_error [of L e "view st h" name conds er b'] d that
    by (simp add: st' put_view_live [OF st] bk live_view)
  show "live_st L st' =
       (live_st L st)(h_name (st_handles st ! h) := (live_st L st (h_name (st_handles st ! h)))(name := None)) \<and>
       live_st L st (h_name (st_handles st ! h)) name \<noteq> None \<and>
       conditions_hold conds (map_option fst (live_st L st (h_name (st_handles st ! h)) name))" if "r = Inr u"
    using deleteObject_b_live [OF v, of e name conds u b'] d that
    by (simp add: st' put_view_live [OF st name(1)] live_view)
qed

lemma DeleteObject_inv:
  assumes inv: "store_inv L st" and run: "DeleteObject L e bn name conds st = (r, st')"
  shows "store_inv L st'"
    "r = Inl er \<Longrightarrow> live_st L st' = live_st L st"
    "r = Inr u \<Longrightarrow> live_st L st' = (live_st L st)(bn := (live_st L st bn)(name := None)) \<and>
       live_st L st bn name \<noteq> None \<and> conditions_hold conds (map_option fst (live_st L st bn name))"
proof -
  have "store_inv L st' \<and> (r = Inl er \<longrightarrow> live_st L st' = live_st L st) \<and>
    (r = Inr u \<longrightarrow> live_st L st' = (live_st L st)(bn := (live_st L st bn)(name := None)) \<and>
       live_st L st bn name \<noteq> None \<and> conditions_hold conds (map_option fst (live_st L st bn name)))"
    using inv run unfolding DeleteObject_def
  proof (cases rule: on_bucket_cases)
    case (error er')
    then show ?thesis by simp
  next
    case (found h st1)
    note d = deleteObject_h_inv [OF found(1,4)] handle_forD(2) [OF found(1,3)]
    show ?thesis by (intro conjI impI) (use d found(2) in \<open>auto simp del: fun_upd_apply\<close>)
  qed
  then show "store_inv L st'"
    "r = Inl er \<Longrightarrow> live_st L st' = live_st L st"
    "r = Inr u \<Longrightarrow> live_st L st' = (live_st L st)(bn := (live_st L st bn)(name := None)) \<and>
       live_st L st bn name \<noteq> None \<and> conditions_hold conds (map_option fst (live_st L st bn name))"
    by auto
qed

subsection \<open>Writers\<close>

definition writer_st :: "blob_writer \<Rightarrow> store \<Rightarrow> bool" where
  "writer_st w st \<longleftrightarrow> bw_b w < length (st_handles st) \<and> writer_ok w (view st (bw_b w))"

lemma view_put_view: "tsorted (st_root st) \<Longrightarrow> b_name b' = b_name (view st h) \<Longrightarrow> b_closed b' = b_closed (view st h) \<Longrightarrow>
   view (put_view h b' st) h = b'"
  by (cases b') (simp add: view_def put_view_def bk)

text \<open>An operation that changes only the temporary files.\<close>

lemma put_view_tmp:
  assumes inv: "store_inv L st" and b': "bucket_inv L b'" "b_db b' = b_db (view st h)"
      "dir_objects b' = dir_objects (view st h)" "b_name b' = b_name (view st h)"
  shows "store_inv L (put_view h b' st)" "live_st L (put_view h b' st) = live_st L st"
proof -
  have st: "tsorted (st_root st)" using inv by (simp add: store_inv_def)
  show "store_inv L (put_view h b' st)" using b' by (intro put_view_inv [OF inv]) auto
  have "live L b' = live L (view st h)"
    using b' by (intro live_mono [OF view_inv [OF inv]]) auto
  then show "live_st L (put_view h b' st) = live_st L st"
    using st b'(4) by (simp add: put_view_live bk live_view)
qed

lemma createTemp_frame:
  assumes "createTemp e b = (r, b')"
  shows "b_db b' = b_db b" "dir_objects b' = dir_objects b" "b_name b' = b_name b" "b_closed b' = b_closed b"
  using assms by (auto elim!: createTemp_cases)

lemma newBlobWriter_b_frame:
  assumes "newBlobWriter_b e h b = (r, b')"
  shows "b_db b' = b_db b" "dir_objects b' = dir_objects b" "b_name b' = b_name b" "b_closed b' = b_closed b"
    "r = Inr w \<Longrightarrow> bw_b w = h \<and> bw_sha w = [] \<and> \<not> bw_done w"
proof -
  obtain rt bt where t: "createTemp e b = (rt, bt)" by force
  have b': "b' = bt" using assms t by (auto simp: newBlobWriter_b_def split: sum.splits)
  show "b_db b' = b_db b" "dir_objects b' = dir_objects b" "b_name b' = b_name b" "b_closed b' = b_closed b"
    unfolding b' by (rule createTemp_frame [OF t])+
  show "r = Inr w \<Longrightarrow> bw_b w = h \<and> bw_sha w = [] \<and> \<not> bw_done w"
    using assms t by (auto simp: newBlobWriter_b_def split: sum.splits)
qed

text \<open>The blob files of a bucket by its name; looking a bucket up and writing temporary files
  leave them alone.\<close>

definition files_at :: "store \<Rightarrow> string \<Rightarrow> (string, bytes) table" where
  "files_at st bn = (case map_of (st_root st) bn of None \<Rightarrow> [] | Some d \<Rightarrow> bd_objects d)"

lemma files_at_view: "dir_objects (view st h) = files_at st (h_name (st_handles st ! h))"
  by (simp add: dir_objects_def files_at_def view_def)

lemma files_at_bucket:
  assumes "tsorted (st_root st)" "bucket e name st = (r, st')"
  shows "files_at st' n = files_at st n"
proof -
  have "bd_objects d' = bd_objects d" if "openBucket_dir e d = (ro, d')" for ro d d'
    using that by (auto simp: openBucket_dir_def Let_def split: if_splits)
  with assms show ?thesis
    by (auto simp: bucket_def openBucket_def files_at_def bk Let_def split: if_splits option.splits prod.splits sum.splits)
qed

lemma files_at_put_view:
  assumes "tsorted (st_root st)" "dir_objects b' = dir_objects (view st h)"
  shows "files_at (put_view h b' st) n = files_at st n"
  using assms by (auto simp: files_at_def put_view_def bk dir_objects_def view_def)

lemma TempFile_inv:
  assumes inv: "store_inv L st" and run: "TempFile e bn st = (r, st')"
  shows "store_inv L st' \<and> live_st L st' = live_st L st"
  using inv run unfolding TempFile_def
proof (cases rule: on_bucket_cases)
  case (found h st1)
  obtain rt b' where t: "createTemp e (view st1 h) = (rt, b')" by force
  with found(4) have "st' = put_view h b' st1" by simp
  with put_view_tmp [OF found(1) createTemp_inv [OF view_inv [OF found(1)] t] createTemp_frame(1-3) [OF t]] found(2)
  show ?thesis by simp
qed simp

lemma NewBlobWriter_inv:
  assumes inv: "store_inv L st" and run: "NewBlobWriter e bn st = (r, st')"
  shows "store_inv L st' \<and> live_st L st' = live_st L st"
    "r = Inr w \<Longrightarrow> writer_st w st' \<and> handle_for bn (bw_b w) st' \<and> bw_sha w = [] \<and> \<not> bw_done w"
proof -
  have "store_inv L st' \<and> live_st L st' = live_st L st \<and>
     (r = Inr w \<longrightarrow> writer_st w st' \<and> handle_for bn (bw_b w) st' \<and> bw_sha w = [] \<and> \<not> bw_done w)"
    using inv run unfolding NewBlobWriter_def
  proof (cases rule: on_bucket_cases)
    case (found h st1)
    obtain rn b' where n: "newBlobWriter_b e h (view st1 h) = (rn, b')" by force
    with found(4) have st': "st' = put_view h b' st1" "rn = r" by simp_all
    have st1: "tsorted (st_root st1)" using found(1) by (simp add: store_inv_def)
    note b' = newBlobWriter_b_inv [OF view_inv [OF found(1)] n] newBlobWriter_b_frame [OF n]
    have "view st' h = b'" unfolding st' by (rule view_put_view [OF st1 b'(5,6)])
    note w = put_view_tmp [OF found(1) b'(1,3,4,5)]
    have "writer_st w st' \<and> handle_for bn (bw_b w) st' \<and> bw_sha w = [] \<and> \<not> bw_done w" if "r = Inr w"
    proof -
      have rw: "rn = Inr w" using that st'(2) by simp
      from b'(7) [OF rw] b'(2) [OF rw] handle_forD(1) [OF found(1,3)] found(3) \<open>view st' h = b'\<close>
      show ?thesis by (simp add: writer_st_def handle_for_def) (simp add: st' bk)
    qed
    with w st'(1) found(2) show ?thesis by simp
  qed simp
  then show "store_inv L st' \<and> live_st L st' = live_st L st"
    "r = Inr w \<Longrightarrow> writer_st w st' \<and> handle_for bn (bw_b w) st' \<and> bw_sha w = [] \<and> \<not> bw_done w" by auto
qed

lemma Copy_inv:
  assumes inv: "store_inv L st" and w: "writer_st w st" and run: "Copy e w ps end st = ((n, er), w', st')"
  shows "store_inv L st' \<and> live_st L st' = live_st L st"
    "er = None \<Longrightarrow> writer_st w' st' \<and> bw_b w' = bw_b w \<and> bw_sha w' = bw_sha w @ concat ps \<and> end = EOF \<and>
       st_buckets st' = st_buckets st \<and> bw_done w' = bw_done w"
proof -
  have st: "tsorted (st_root st)" using inv by (simp add: store_inv_def)
  have wok: "bw_b w < length (st_handles st)" "writer_ok w (view st (bw_b w))" using w by (auto simp: writer_st_def)
  obtain b' where c: "copy_b e 0 w ps end (view st (bw_b w)) = ((n, er), w', b')"
    and st': "st' = put_view (bw_b w) b' st"
    using run by (auto simp: Copy_def split: prod.splits)
  have b': "bucket_inv L b'" "writer_ok w' b'" "b_db b' = b_db (view st (bw_b w))"
      "dir_objects b' = dir_objects (view st (bw_b w))" "b_name b' = b_name (view st (bw_b w))"
      "b_closed b' = b_closed (view st (bw_b w))"
    using copy_b_inv [OF view_inv [OF inv] wok(2) c] by blast+
  show "store_inv L st' \<and> live_st L st' = live_st L st"
    unfolding st' using put_view_tmp [OF inv b'(1,3,4,5)] by simp
  assume "er = None"
  with c have "copy_b e 0 w ps end (view st (bw_b w)) = ((n, None), w', b')" by simp
  note cn = copy_b_None [OF this]
  have "view st' (bw_b w) = b'" unfolding st' by (rule view_put_view [OF st b'(5,6)])
  with cn b'(2) wok(1) show "writer_st w' st' \<and> bw_b w' = bw_b w \<and> bw_sha w' = bw_sha w @ concat ps \<and> end = EOF \<and>
      st_buckets st' = st_buckets st \<and> bw_done w' = bw_done w"
    by (simp add: writer_st_def) (simp add: st' bk)
qed

lemma NewBlobWriter_files:
  assumes "store_inv L st" "NewBlobWriter e bn st = (Inr w, st')"
  shows "files_at st' n = files_at st n"
  using assms unfolding NewBlobWriter_def
proof (cases rule: on_bucket_cases)
  case (found h st1)
  have "tsorted (st_root st)" "tsorted (st_root st1)" using assms(1) found(1) by (auto simp: store_inv_def)
  with found(4) files_at_bucket [OF _ found(5)] newBlobWriter_b_frame(2) show ?thesis
    by (auto split: prod.splits simp: files_at_put_view)
qed simp

lemma Copy_files:
  assumes "store_inv L st" "writer_st w st" "Copy e w ps end st = (r, w', st')"
  shows "files_at st' n = files_at st n"
proof -
  obtain b' where c: "copy_b e 0 w ps end (view st (bw_b w)) = (r, w', b')" "st' = put_view (bw_b w) b' st"
    using assms(3) by (auto simp: Copy_def split: prod.splits)
  obtain m er where "r = (m, er)" by (cases r)
  moreover have "writer_ok w (view st (bw_b w))" using assms(2) by (simp add: writer_st_def)
  ultimately have "dir_objects b' = dir_objects (view st (bw_b w))"
    using c copy_b_inv [OF view_inv [OF assms(1)]] by blast
  with assms(1) c(2) show ?thesis by (simp add: files_at_put_view store_inv_def)
qed

lemma Abort_inv:
  assumes inv: "store_inv L st" and run: "Abort e w st = (w', st')"
  shows "store_inv L st' \<and> live_st L st' = live_st L st \<and> bw_done w'"
proof -
  let ?v = "view st (bw_b w)"
  obtain b' where a: "abort_b e w ?v = (w', b')" and st': "st' = put_view (bw_b w) b' st"
    using run by (auto simp: Abort_def split: prod.splits)
  have b': "bucket_inv L b'" using abort_b_inv [OF view_inv [OF inv, of "bw_b w"], of e w] a by simp
  have "b_db b' = b_db ?v" "dir_objects b' = dir_objects ?v" "b_name b' = b_name ?v" "bw_done w'"
    using a by (auto simp: abort_b_def bk split: if_splits)
  with put_view_tmp [OF inv b'] show ?thesis unfolding st' by blast
qed

lemma commit_b_frame:
  assumes "commit_b L e w name opts b = (r, w', b')"
  shows "b_name b' = b_name b" "b_closed b' = b_closed b" "b_db b \<noteq> None \<Longrightarrow> b_db b' \<noteq> None"
proof -
  obtain sha m crc where s: "checksums L w = (sha, m, crc)" by (metis prod_cases3)
  obtain ri b1 where i: "installBlob e sha (bw_tmp w) b = (ri, b1)" by force
  note f = installBlob_frame [OF i]
  obtain rb bb where body: "commit_body L e w name opts b = (rb, bb)" by force
  have "b_dir b1 \<noteq> None" if "b_db b \<noteq> None" using that f(3) b_db_dir [of b1] by force
  then have "b_name bb = b_name b \<and> b_closed bb = b_closed b \<and> (b_db b \<noteq> None \<longrightarrow> b_db bb \<noteq> None)"
    using body s i f by (auto simp: commit_body_def bk split: if_splits sum.splits)
  with assms body show "b_name b' = b_name b" "b_closed b' = b_closed b" "b_db b \<noteq> None \<Longrightarrow> b_db b' \<noteq> None"
    by (auto simp: commit_b_def bk split: if_splits)
qed

text \<open>The conclusions of a commit, as they read for the store: \<open>put_result\<close> is what the view and
  the returned description are after bytes \<open>c\<close> were committed under a name.\<close>

definition put_result ::
  "lib \<Rightarrow> env \<Rightarrow> string \<Rightarrow> string \<Rightarrow> put_options \<Rightarrow> bytes \<Rightarrow> store \<Rightarrow> object_info \<Rightarrow> store \<Rightarrow> bool" where
  "put_result L e bn name opts c st i st' \<longleftrightarrow>
     live_st L st' = (live_st L st)(bn := (live_st L st bn)(name \<mapsto> (i, c))) \<and>
     i = commit_info bn name (env_now e) opts
           (next_generation (env_now e) (map_option fst (live_st L st bn name)))
           (hexEncode (lib_sha256 L c)) (lib_md5 L c) (lib_crc32c L c) (wrap64 (int (length c))) \<and>
     conditions_hold (po_Conditions opts) (map_option fst (live_st L st bn name)) \<and> validObjectName name"

lemma put_result_live:
  "live_st L st1 = live_st L st \<Longrightarrow> put_result L e bn name opts c st1 i st' = put_result L e bn name opts c st i st'"
  by (simp add: put_result_def)

lemma Commit_inv:
  assumes inv: "store_inv L st" and w: "writer_st w st" and json: "json_decodes L"
    and run: "Commit L e w name opts st = (r, w', st')"
  shows "store_inv L st' \<and> bw_done w'"
    "r = Inl er \<Longrightarrow> live_st L st' = live_st L st"
    "r = Inr i \<Longrightarrow> collision_free L (dir_objects (view st (bw_b w))) (bw_sha w) \<Longrightarrow> json_roundtrip L (po_Metadata opts) \<Longrightarrow>
       put_result L e (h_name (st_handles st ! bw_b w)) name opts (bw_sha w) st i st'"
proof -
  let ?h = "bw_b w"
  have st: "tsorted (st_root st)" using inv by (simp add: store_inv_def)
  have wok: "writer_ok w (view st ?h)" using w by (simp add: writer_st_def)
  obtain b' where c: "commit_b L e w name opts (view st ?h) = (r, w', b')" and st': "st' = put_view ?h b' st"
    using run by (auto simp: Commit_def split: prod.splits)
  note f = commit_b_frame [OF c]
  have b': "bucket_inv L b'" using commit_b_inv [OF view_inv [OF inv] wok json, of e name opts] c by simp
  have n: "b_name b' = h_name (st_handles st ! ?h)" using f(1) by (simp add: bk)
  have "bw_done w'" using c by (auto simp: commit_b_def split: if_splits prod.splits)
  with put_view_inv [OF inv b' f(3)] show "store_inv L st' \<and> bw_done w'" by (simp add: st')
  show "live_st L st' = live_st L st" if "r = Inl er"
    using commit_b_error(1) [OF view_inv [OF inv] wok json] c that
    by (simp add: st' put_view_live [OF st n] live_view)
  show "put_result L e (h_name (st_handles st ! bw_b w)) name opts (bw_sha w) st i st'"
    if "r = Inr i" "collision_free L (dir_objects (view st (bw_b w))) (bw_sha w)" "json_roundtrip L (po_Metadata opts)"
    using commit_b_live [OF view_inv [OF inv] wok json c [unfolded that(1)] that(2,3)]
    by (simp add: st' put_view_live [OF st n] live_view put_result_def bk)
qed

lemma PutObject_inv:
  assumes inv: "store_inv L st" and json: "json_decodes L"
    and run: "PutObject L e bn name ps end opts st = (r, st')"
  shows "store_inv L st'"
    "r = Inl er \<Longrightarrow> live_st L st' = live_st L st"
    "r = Inr i \<Longrightarrow> collision_free L (files_at st bn) (concat ps) \<Longrightarrow> json_roundtrip L (po_Metadata opts) \<Longrightarrow>
       end = EOF \<and> put_result L e bn name opts (concat ps) st i st'"
proof -
  obtain rn st1 where n: "NewBlobWriter e bn st = (rn, st1)" by force
  note n' = NewBlobWriter_inv [OF inv n]
  have "store_inv L st' \<and> (r = Inl er \<longrightarrow> live_st L st' = live_st L st) \<and>
    (r = Inr i \<and> collision_free L (files_at st bn) (concat ps) \<and> json_roundtrip L (po_Metadata opts) \<longrightarrow>
       end = EOF \<and> put_result L e bn name opts (concat ps) st i st')"
  proof (cases rn)
    case (Inl er')
    with run n n' show ?thesis by (auto simp: PutObject_def)
  next
    case (Inr w)
    note w = n'(2) [OF Inr]
    have n1: "store_inv L st1" "live_st L st1 = live_st L st" using n'(1) by auto
    obtain k cer w1 st2 where c: "Copy e w ps end st1 = ((k, cer), w1, st2)" by (metis surj_pair)
    note c' = Copy_inv [OF n1(1) _ c]
    have c2: "store_inv L st2" "live_st L st2 = live_st L st" using c'(1) w n1 by auto
    show ?thesis
    proof (cases cer)
      case (Some er')
      obtain w2 st3 where a: "Abort e w1 st2 = (w2, st3)" by force
      with Some Inr n c run have "r = Inl er'" "st' = st3" by (auto simp: PutObject_def)
      with Abort_inv [OF c2(1) a] c2 show ?thesis by simp
    next
      case None
      have w1: "writer_st w1 st2" "bw_b w1 = bw_b w" "bw_sha w1 = concat ps" "end = EOF" "st_buckets st2 = st_buckets st1"
        using c'(2) [OF _ None] w by auto
      obtain rc w2 st3 where cm: "Commit L e w1 name opts st2 = (rc, w2, st3)" by (metis prod_cases3)
      with None Inr n c run have r: "r = rc" "st' = st3" by (auto simp: PutObject_def)
      have hb: "h_name (st_handles st2 ! bw_b w1) = bn"
        using w w1(2,5) handle_forD(2) [OF c2(1), of bn "bw_b w"] by (simp add: handle_for_def)
      note cm' = Commit_inv [OF c2(1) w1(1) json cm]
      have "dir_objects (view st2 (bw_b w1)) = files_at st bn"
        using hb Copy_files [OF n1(1) _ c] NewBlobWriter_files [OF inv] n Inr w by (simp add: files_at_view)
      then show ?thesis using cm' w1(3,4) hb r c2(2) put_result_live [OF c2(2)] by auto
    qed
  qed
  then show "store_inv L st'" "r = Inl er \<Longrightarrow> live_st L st' = live_st L st"
    "r = Inr i \<Longrightarrow> collision_free L (files_at st bn) (concat ps) \<Longrightarrow> json_roundtrip L (po_Metadata opts) \<Longrightarrow>
       end = EOF \<and> put_result L e bn name opts (concat ps) st i st'" by auto
qed

end
