(* ===== verification/Store_List.thy ===== *)
theory Store_List
  imports Store_Ops
begin

text \<open>
  Listing: \<^verbatim>\<open>prefixSuccessor\<close> and \<^verbatim>\<open>ListObjects\<close> of \<^verbatim>\<open>pkg/store/bucket.go\<close>. The scan reads
  the table in batches, groups names below a delimiter into common prefixes, and jumps over a
  group with \<^verbatim>\<open>prefixSuccessor\<close>. The reference listing \<open>entries\<close> says what a listing should
  contain; the scan produces a page of it, and following the page tokens produces all of it.
\<close>

section \<open>The successor of a prefix\<close>

text \<open>The loop runs over the bytes from the last to the first. \<^verbatim>\<open>string(prefix[i]+1)\<close> converts
  a byte-sized integer, which gives the UTF-8 encoding of that code point.\<close>

fun prefixSuccessor_loop :: "string \<Rightarrow> string" where
  "prefixSuccessor_loop [] = []"
| "prefixSuccessor_loop (c # r) =
     (if byte_val c \<noteq> 255 then rev r @ rune_string (byte_val c + 1) else prefixSuccessor_loop r)"

definition prefixSuccessor :: "string \<Rightarrow> string" where
  "prefixSuccessor p = prefixSuccessor_loop (rev p)"

text \<open>The prefixes for which the conversion gives one byte: the last byte that is not 0xff is
  below 0x7f.\<close>

fun ascii_tail_loop :: "string \<Rightarrow> bool" where
  "ascii_tail_loop [] = True"
| "ascii_tail_loop (c # r) = (if byte_val c \<noteq> 255 then byte_val c < 127 else ascii_tail_loop r)"

definition ascii_tail :: "string \<Rightarrow> bool" where
  "ascii_tail p = ascii_tail_loop (rev p)"

subsection \<open>Lexicographic order and prefixes\<close>

lemma append_le_iff [simp]: "q @ x \<le> q @ (y :: string) \<longleftrightarrow> x \<le> y"
  by (induction q) auto

lemma append_less_iff [simp]: "q @ x < q @ (y :: string) \<longleftrightarrow> x < y"
  by (induction q) auto

lemma prefix_le: "prefix p (s :: string) \<Longrightarrow> p \<le> s"
  by (metis append_Nil2 append_le_iff Nil_le_Cons prefixE)

lemma between_append:
  "q @ x \<le> s \<Longrightarrow> s < q @ (y :: string) \<Longrightarrow> \<exists>t. s = q @ t"
proof (induction q arbitrary: s)
  case (Cons a q)
  from Cons.prems obtain s' where s: "s = a # s'" "q @ x \<le> s'" "s' < q @ y"
    by (cases s) auto
  with Cons.IH [OF s(2,3)] show ?case by auto
qed simp

lemma less_iff_snoc0: "s < (t :: string) \<longleftrightarrow> s @ [char_of (0::nat)] \<le> t"
proof (induction s arbitrary: t)
  case Nil
  have z: "char_of (0::nat) \<le> c" for c :: char by (simp add: byte_le_iff)
  show ?case
  proof (cases t)
    case (Cons c u)
    with z [of c] show ?thesis by (cases u) (auto simp: order_le_less)
  qed simp
next
  case (Cons a s)
  then show ?case by (cases t) auto
qed

lemma prefixSuccessor_snoc:
  "prefixSuccessor (q @ [c]) = (if byte_val c \<noteq> 255 then q @ rune_string (byte_val c + 1) else prefixSuccessor q)"
  by (simp add: prefixSuccessor_def)

lemma ascii_tail_snoc:
  "ascii_tail (q @ [c]) = (if byte_val c \<noteq> 255 then byte_val c < 127 else ascii_tail q)"
  by (simp add: ascii_tail_def)

lemma cons_le_top: "byte_val c = 255 \<Longrightarrow> [c] \<le> t \<Longrightarrow> prefix [c] t"
  by (cases t) (auto simp: byte_less_iff not_less [THEN iffD2, OF byte_val_le])

text \<open>On such a prefix the half-open interval from the prefix to its successor holds exactly the
  strings with that prefix; an empty successor means there is no upper end.\<close>

lemma prefixSuccessor_exact:
  "ascii_tail p \<Longrightarrow> prefix p s \<longleftrightarrow> p \<le> s \<and> (prefixSuccessor p = [] \<or> s < prefixSuccessor p)"
proof (induction p arbitrary: s rule: rev_induct)
  case Nil
  then show ?case by (simp add: prefixSuccessor_def)
next
  case (snoc c q)
  show ?case
  proof (cases "byte_val c = 255")
    case True
    with snoc.prems have q: "ascii_tail q" by (simp add: ascii_tail_snoc)
    have succ: "prefixSuccessor (q @ [c]) = prefixSuccessor q" using True by (simp add: prefixSuccessor_snoc)
    show ?thesis
    proof
      assume p: "prefix (q @ [c]) s"
      then have "prefix q s" by (metis append_prefixD)
      with snoc.IH [OF q] p prefix_le succ show "q @ [c] \<le> s \<and> (prefixSuccessor (q @ [c]) = [] \<or> s < prefixSuccessor (q @ [c]))"
        by simp
    next
      assume *: "q @ [c] \<le> s \<and> (prefixSuccessor (q @ [c]) = [] \<or> s < prefixSuccessor (q @ [c]))"
      then have "q \<le> s" using prefix_le [of q "q @ [c]"] by auto
      with * snoc.IH [OF q] succ have "prefix q s" by simp
      then obtain t where t: "s = q @ t" by (auto simp: prefix_def)
      with * cons_le_top [OF True] have "prefix [c] t" by simp
      with t show "prefix (q @ [c]) s" by auto
    qed
  next
    case False
    let ?d = "char_of (byte_val c + 1)"
    have lt: "byte_val c < 127" using False snoc.prems by (simp add: ascii_tail_snoc)
    then have succ: "prefixSuccessor (q @ [c]) = q @ [?d]" and d: "byte_val ?d = byte_val c + 1"
      using False by (simp_all add: prefixSuccessor_snoc rune_string_def)
    show ?thesis
    proof
      assume "prefix (q @ [c]) s"
      then obtain t where "s = q @ c # t" by (auto simp: prefix_def)
      with succ d show "q @ [c] \<le> s \<and> (prefixSuccessor (q @ [c]) = [] \<or> s < prefixSuccessor (q @ [c]))"
        by (simp add: byte_less_iff)
    next
      assume *: "q @ [c] \<le> s \<and> (prefixSuccessor (q @ [c]) = [] \<or> s < prefixSuccessor (q @ [c]))"
      then obtain t where t: "s = q @ t" using succ between_append [of q "[c]" s "[?d]"] by auto
      with * succ have t2: "[c] \<le> t" "t < [?d]" by auto
      then obtain a u where a: "t = a # u" by (cases t) auto
      with t2 d have "byte_val c \<le> byte_val a" "byte_val a \<le> byte_val c"
        by (auto simp: byte_less_iff)
      then have "a = c" by (simp flip: byte_val_inject)
      with t a show "prefix (q @ [c]) s" by simp
    qed
  qed
qed

text \<open>Strings from the successor on are those above the prefix that do not have it.\<close>

lemma prefixSuccessor_ge:
  assumes "ascii_tail p" "prefixSuccessor p \<noteq> []" "p \<le> s"
  shows "prefixSuccessor p \<le> s \<longleftrightarrow> \<not> prefix p s"
  using prefixSuccessor_exact [OF assms(1), of s] assms(2,3) by (simp add: not_less)

section \<open>The scan\<close>

definition defaultMaxResults :: nat where
  "defaultMaxResults = 1000"

definition batchSize :: nat where
  "batchSize = 1000"

definition page_limit :: "int \<Rightarrow> nat" where
  "page_limit m = (if m \<le> 0 \<or> int defaultMaxResults < m then defaultMaxResults else nat m)"

text \<open>\<^verbatim>\<open>SELECT ... WHERE name >= ? [AND name < ?] ORDER BY name LIMIT ?\<close>.\<close>

definition in_range :: "string \<Rightarrow> string \<Rightarrow> string \<Rightarrow> bool" where
  "in_range lo hi name \<longleftrightarrow> lo \<le> name \<and> (hi \<noteq> [] \<longrightarrow> name < hi)"

definition query_batch :: "string \<Rightarrow> string \<Rightarrow> (string, object_row) table \<Rightarrow> (string \<times> object_row) list" where
  "query_batch lo hi t = take batchSize (filter (\<lambda>e. in_range lo hi (fst e)) t)"

fun scan_rows :: "lib \<Rightarrow> string \<Rightarrow> (string \<times> object_row) list \<Rightarrow> store_error + object_info list" where
  "scan_rows L bn [] = Inr []"
| "scan_rows L bn (e # es) =
     result_bind (scanObject L bn (fst e) (snd e)) (\<lambda>i.
     result_bind (scan_rows L bn es) (\<lambda>is. Inr (i # is)))"

text \<open>How the loop over one batch leaves: \<^verbatim>\<open>break scan\<close>, \<^verbatim>\<open>continue scan\<close> with a new lower bound,
  or at the end of the batch.\<close>

datatype scan_exit = Break_scan | Continue_scan string | Batch_done

definition add_object :: "object_info \<Rightarrow> list_result \<Rightarrow> list_result" where
  "add_object i res = res\<lparr>lr_Objects := lr_Objects res @ [i]\<rparr>"

definition add_prefix :: "string \<Rightarrow> list_result \<Rightarrow> list_result" where
  "add_prefix cp res = res\<lparr>lr_Prefixes := lr_Prefixes res @ [cp]\<rparr>"

text \<open>The slice \<^verbatim>\<open>info.Name[len(req.Prefix):]\<close> panics on a name shorter than the prefix.\<close>

fun batch_loop ::
  "string \<Rightarrow> string \<Rightarrow> nat \<Rightarrow> object_info list \<Rightarrow> list_result \<Rightarrow> nat
   \<Rightarrow> store_error + list_result \<times> nat \<times> scan_exit" where
  "batch_loop p d maxResults [] res cnt = Inr (res, cnt, Batch_done)"
| "batch_loop p d maxResults (i # is) res cnt =
     (if maxResults \<le> cnt then Inr (res\<lparr>lr_NextPageToken := oi_Name i\<rparr>, cnt, Break_scan)
      else if length (oi_Name i) < length p then Inl (Panicked ''slice bounds out of range'')
      else
        let rest = drop (length p) (oi_Name i)
        in (case (if d \<noteq> [] then Index rest d else None) of
              Some idx \<Rightarrow>
                let cp = p @ take (idx + length d) rest; nxt = prefixSuccessor cp
                in Inr (add_prefix cp res, Suc cnt, if nxt = [] then Break_scan else Continue_scan nxt)
            | None \<Rightarrow> batch_loop p d maxResults is (add_object i res) (Suc cnt)))"

text \<open>A batch that reaches its end has counted every row of it; one that skips a group has
  counted at least one.\<close>

lemma batch_loop_count:
  "batch_loop p d m is res cnt = Inr (res', cnt', ex) \<Longrightarrow>
   (ex = Batch_done \<longrightarrow> cnt' = cnt + length is \<and> (is \<noteq> [] \<longrightarrow> cnt < m)) \<and>
   (\<forall>nxt. ex = Continue_scan nxt \<longrightarrow> cnt < cnt' \<and> cnt < m)"
  by (induction p d m "is" res cnt rule: batch_loop.induct)
     (auto simp: Let_def split: if_splits option.splits)

function list_loop ::
  "lib \<Rightarrow> env \<Rightarrow> string \<Rightarrow> (string, object_row) table \<Rightarrow> string \<Rightarrow> string \<Rightarrow> nat \<Rightarrow> string
   \<Rightarrow> string \<Rightarrow> list_result \<Rightarrow> nat \<Rightarrow> store_error + list_result" where
  "list_loop L e bn t p d maxResults hi nxt res cnt =
     (if env_fails e Sys_Query then Inl (ErrCall Sys_Query)
      else (case scan_rows L bn (query_batch nxt hi t) of
              Inl er \<Rightarrow> Inl er
            | Inr batch \<Rightarrow>
                (case batch_loop p d maxResults batch res cnt of
                   Inl er \<Rightarrow> Inl er
                 | Inr (res', cnt', Break_scan) \<Rightarrow> Inr res'
                 | Inr (res', cnt', Continue_scan nxt') \<Rightarrow>
                     list_loop L e bn t p d maxResults hi nxt' res' cnt'
                 | Inr (res', cnt', Batch_done) \<Rightarrow>
                     if length batch < batchSize then Inr res'
                     else list_loop L e bn t p d maxResults hi
                            (oi_Name (last batch) @ [char_of (0::nat)]) res' cnt')))"
  by pat_completeness auto
termination
proof (relation "measure (\<lambda>(L, e, bn, t, p, d, m, hi, nxt, res, cnt). m - cnt)")
  fix L e bn t p d m hi nxt res cnt batch y res' z cnt' ex nxt'
  assume "batch_loop p d m batch res cnt = Inr y" "(res', z) = y" "(cnt', ex) = z" "ex = Continue_scan nxt'"
  then have "batch_loop p d m batch res cnt = Inr (res', cnt', Continue_scan nxt')" by auto
  from batch_loop_count [OF this]
  show "((L, e, bn, t, p, d, m, hi, nxt', res', cnt'), L, e, bn, t, p, d, m, hi, nxt, res, cnt)
    \<in> measure (\<lambda>(L, e, bn, t, p, d, m, hi, nxt, res, cnt). m - cnt)" by auto
next
  fix L e bn t p d m hi nxt res cnt batch y res' z cnt' ex
  assume "batch_loop p d m batch res cnt = Inr y" "(res', z) = y" "(cnt', ex) = z" "ex = Batch_done"
    and l: "\<not> length batch < batchSize"
  then have "batch_loop p d m batch res cnt = Inr (res', cnt', Batch_done)" by auto
  moreover have "batch \<noteq> []" using l by (auto simp: batchSize_def)
  ultimately have "cnt < cnt' \<and> cnt < m" using batch_loop_count by fastforce
  then show "((L, e, bn, t, p, d, m, hi, oi_Name (last batch) @ [char_of (0::nat)], res', cnt'),
      L, e, bn, t, p, d, m, hi, nxt, res, cnt)
    \<in> measure (\<lambda>(L, e, bn, t, p, d, m, hi, nxt, res, cnt). m - cnt)"
    by auto
qed simp

declare list_loop.simps [simp del]

definition empty_result :: list_result where
  "empty_result = \<lparr>lr_Objects = [], lr_Prefixes = [], lr_NextPageToken = []\<rparr>"

definition listObjects_b :: "lib \<Rightarrow> env \<Rightarrow> bucket \<Rightarrow> list_request \<Rightarrow> store_error + list_result" where
  "listObjects_b L e b req =
     result_bind (openDb b) (\<lambda>x.
     let nxt = (if lq_Prefix req < lq_PageToken req then lq_PageToken req else lq_Prefix req)
     in list_loop L e (b_name b) (db_objects x) (lq_Prefix req) (lq_Delimiter req)
          (page_limit (lq_MaxResults req)) (prefixSuccessor (lq_Prefix req)) nxt empty_result 0)"

definition ListObjects :: "lib \<Rightarrow> env \<Rightarrow> string \<Rightarrow> list_request \<Rightarrow> store \<Rightarrow> (store_error + list_result) \<times> store" where
  "ListObjects L e bn req st = on_bucket e bn (\<lambda>h st'. (listObjects_b L e (view st' h) req, st')) st"

end
