(* ===== verification/S3_Types.thy ===== *)
theory S3_Types
  imports S3_Chunked Go_Time Store_List
begin

text \<open>
  The answers of the S3 server: \<^verbatim>\<open>pkg/s3/xml.go\<close> and the state of the server
  (\<^verbatim>\<open>pkg/s3/server.go\<close>, \<^verbatim>\<open>multipart.go\<close>). A response body is the value handed to the XML encoder, or
  what is handed to \<^verbatim>\<open>http.ServeContent\<close>.
\<close>

section \<open>Bodies\<close>

record owner =
  ow_ID :: string
  ow_DisplayName :: string

definition defaultOwner :: owner where
  "defaultOwner = \<lparr>ow_ID = ''objectstorage'', ow_DisplayName = ''objectstorage''\<rparr>"

record bucketEntry =
  be_Name :: string
  be_CreationDate :: string

record listAllMyBucketsResult =
  lb_Owner :: owner
  lb_Buckets :: "bucketEntry list"

record contents =
  ct_Key :: string
  ct_LastModified :: string
  ct_ETag :: string
  ct_Size :: int
  ct_StorageClass :: string

record listBucketResultV2 =
  v2_Name :: string
  v2_Prefix :: string
  v2_Delimiter :: string
  v2_MaxKeys :: int
  v2_EncodingType :: string
  v2_KeyCount :: nat
  v2_IsTruncated :: bool
  v2_ContinuationToken :: string
  v2_NextContinuationToken :: string
  v2_StartAfter :: string
  v2_Contents :: "contents list"
  v2_CommonPrefixes :: "string list"

record listBucketResultV1 =
  v1_Name :: string
  v1_Prefix :: string
  v1_Delimiter :: string
  v1_Marker :: string
  v1_NextMarker :: string
  v1_MaxKeys :: int
  v1_EncodingType :: string
  v1_IsTruncated :: bool
  v1_Contents :: "contents list"
  v1_CommonPrefixes :: "string list"

record copyObjectResult =
  co_ETag :: string
  co_LastModified :: string

record initiateMultipartUploadResult =
  im_Bucket :: string
  im_Key :: string
  im_UploadID :: string

record completeMultipartUploadResult =
  cm_Location :: string
  cm_Bucket :: string
  cm_Key :: string
  cm_ETag :: string

text \<open>\<^verbatim>\<open>completedPart\<close> and \<^verbatim>\<open>deleteRequest\<close>: what the XML decoder makes of a request body.\<close>

record completedPart =
  cp_PartNumber :: int
  cp_ETag :: string

record deleteRequest =
  dr_Quiet :: bool
  dr_Objects :: "string list"

record deleteError =
  de_Key :: string
  de_Code :: string
  de_Message :: message

record deleteResult =
  dl_Deleted :: "string list"
  dl_Errors :: "deleteError list"

record errorResponse =
  er_Code :: string
  er_Message :: message
  er_Resource :: string

datatype s3_body =
    No_body
  | ErrorResponse errorResponse
  | ListAllMyBucketsResult listAllMyBucketsResult
  | ListBucketResultV2 listBucketResultV2
  | ListBucketResultV1 listBucketResultV1
  | LocationConstraint string
  | CopyObjectResult copyObjectResult
  | InitiateMultipartUploadResult initiateMultipartUploadResult
  | CompleteMultipartUploadResult completeMultipartUploadResult
  | DeleteResult deleteResult
  | Content int bytes
  | Aborted

type_synonym s3_response = "s3_body response"

section \<open>Writing responses\<close>

definition writeXML :: "nat \<Rightarrow> s3_body \<Rightarrow> s3_response" where
  "writeXML status v = respond status [(''Content-Type'', ''application/xml'')] v"

definition writeS3Error :: "nat \<Rightarrow> string \<Rightarrow> message \<Rightarrow> string \<Rightarrow> s3_response" where
  "writeS3Error status code msg resource = writeXML status (ErrorResponse \<lparr>er_Code = code, er_Message = msg, er_Resource = resource\<rparr>)"

text \<open>A panic in the store ends the request without a response.\<close>

definition writeStoreError :: "store_error \<Rightarrow> string \<Rightarrow> s3_response" where
  "writeStoreError err resource =
     (case err of
        ErrBucketNotFound \<Rightarrow> writeS3Error 404 ''NoSuchBucket'' (Text ''The specified bucket does not exist'') resource
      | ErrObjectNotFound \<Rightarrow> writeS3Error 404 ''NoSuchKey'' (Text ''The specified key does not exist.'') resource
      | ErrBucketExists \<Rightarrow> writeS3Error 409 ''BucketAlreadyOwnedByYou''
          (Text ''Your previous request to create the named bucket succeeded and you already own it.'') resource
      | ErrBucketNotEmpty \<Rightarrow> writeS3Error 409 ''BucketNotEmpty'' (Text ''The bucket you tried to delete is not empty'') resource
      | ErrPreconditionFailed \<Rightarrow> writeS3Error 412 ''PreconditionFailed''
          (Text ''At least one of the pre-conditions you specified did not hold'') resource
      | ErrInvalidName n \<Rightarrow> writeS3Error 400 ''InvalidBucketName'' (Error_text [] err) resource
      | Panicked m \<Rightarrow> respond 0 [] Aborted
      | _ \<Rightarrow> writeS3Error 500 ''InternalError'' (Error_text [] err) resource)"

text \<open>The status of a response without a body.\<close>

definition statusForStoreError :: "store_error \<Rightarrow> nat" where
  "statusForStoreError err =
     (case err of ErrBucketNotFound \<Rightarrow> 404 | ErrObjectNotFound \<Rightarrow> 404 | ErrPreconditionFailed \<Rightarrow> 412 | _ \<Rightarrow> 500)"

section \<open>State\<close>

text \<open>The staged parts of an upload are files in the bucket's \<^verbatim>\<open>tmp\<close> directory; \<open>sp_bucket\<close> and
  \<open>sp_tmp\<close> are its path.\<close>

record stagedPart =
  sp_bucket :: string
  sp_tmp :: string
  sp_size :: int
  sp_md5 :: bytes

record multipartUpload =
  mu_bucket :: string
  mu_key :: string
  mu_contentType :: string
  mu_metadata :: metadata
  mu_parts :: "(int, stagedPart) table"
  mu_done :: bool

record s3_server =
  s3_store :: store
  s3_uploads :: "(string, multipartUpload) table"

definition NewServer_s3 :: "store \<Rightarrow> s3_server" where
  "NewServer_s3 st = \<lparr>s3_store = st, s3_uploads = []\<rparr>"

text \<open>A call into the store.\<close>

definition s3_call :: "(store \<Rightarrow> 'r \<times> store) \<Rightarrow> s3_server \<Rightarrow> 'r \<times> s3_server" where
  "s3_call f s = (case f (s3_store s) of (r, st') \<Rightarrow> (r, s\<lparr>s3_store := st'\<rparr>))"

end
