(* ===== verification/S3_Objects.thy ===== *)
theory S3_Objects
  imports S3_Types
begin

text \<open>
  The bucket and object handlers of the S3 server: \<^verbatim>\<open>pkg/s3/buckets.go\<close> and
  \<^verbatim>\<open>pkg/s3/objects.go\<close>. A handler takes the libraries, an environment for each of its calls into
  the store (\<open>es 0\<close>, \<open>es 1\<close>, \<dots>), the schedule of the network and the request.
\<close>

section \<open>Buckets\<close>

definition s3_listBuckets :: "(nat \<Rightarrow> env) \<Rightarrow> s3_server \<Rightarrow> s3_response \<times> s3_server" where
  "s3_listBuckets es s =
     (case s3_call (ListBuckets (es 0)) s of
        (Inl err, s') \<Rightarrow> (writeStoreError err ''/'', s')
      | (Inr infos, s') \<Rightarrow>
          (writeXML 200 (ListAllMyBucketsResult
             \<lparr>lb_Owner = defaultOwner,
              lb_Buckets = map (\<lambda>i. \<lparr>be_Name = bi_Name i, be_CreationDate = iso8601 (bi_Created i)\<rparr>) infos\<rparr>), s'))"

definition s3_createBucket :: "(nat \<Rightarrow> env) \<Rightarrow> string \<Rightarrow> s3_server \<Rightarrow> s3_response \<times> s3_server" where
  "s3_createBucket es bkt s =
     (case s3_call (CreateBucket (es 0) bkt) s of
        (Inl err, s') \<Rightarrow> (writeStoreError err (''/'' @ bkt), s')
      | (Inr _, s') \<Rightarrow> (respond 200 [(''Location'', ''/'' @ bkt)] No_body, s'))"

definition s3_headBucket :: "(nat \<Rightarrow> env) \<Rightarrow> string \<Rightarrow> s3_server \<Rightarrow> s3_response \<times> s3_server" where
  "s3_headBucket es bkt s =
     (case s3_call (GetBucket (es 0) bkt) s of
        (Inl err, s') \<Rightarrow> (respond (statusForStoreError err) [] No_body, s')
      | (Inr _, s') \<Rightarrow> (respond 200 [] No_body, s'))"

definition s3_deleteBucket :: "(nat \<Rightarrow> env) \<Rightarrow> string \<Rightarrow> s3_server \<Rightarrow> s3_response \<times> s3_server" where
  "s3_deleteBucket es bkt s =
     (case s3_call (DeleteBucket (es 0) bkt) s of
        (Inl err, s') \<Rightarrow> (writeStoreError err (''/'' @ bkt), s')
      | (Inr _, s') \<Rightarrow> (respond 204 [] No_body, s'))"

definition s3_getBucketLocation :: "(nat \<Rightarrow> env) \<Rightarrow> string \<Rightarrow> s3_server \<Rightarrow> s3_response \<times> s3_server" where
  "s3_getBucketLocation es bkt s =
     (case s3_call (GetBucket (es 0) bkt) s of
        (Inl err, s') \<Rightarrow> (writeStoreError err (''/'' @ bkt), s')
      | (Inr _, s') \<Rightarrow> (writeXML 200 (LocationConstraint []), s'))"

section \<open>Objects\<close>

definition etagFor :: "object_info \<Rightarrow> string" where
  "etagFor i = [CHR 0x22] @ hexEncode (oi_MD5 i) @ [CHR 0x22]"

definition metadataFromHeaders :: "(string \<times> string list) list \<Rightarrow> metadata" where
  "metadataFromHeaders h =
     fold (\<lambda>(name, values) md.
       let lower = ToLower name
       in if HasPrefix lower ''x-amz-meta-'' \<and> values \<noteq> []
          then tput (TrimPrefix lower ''x-amz-meta-'') (hd values) md else md) h []"

definition resource :: "string \<Rightarrow> string \<Rightarrow> string" where
  "resource bkt key = ''/'' @ bkt @ ''/'' @ key"

definition put_opts_s3 :: "request \<Rightarrow> put_options" where
  "put_opts_s3 r =
     \<lparr>po_ContentType = header_get r ''Content-Type'', po_Metadata = metadataFromHeaders (rq_Header r),
      po_Conditions = (if header_get r ''If-None-Match'' = ''*''
                       then no_conditions\<lparr>GenerationMatch := Some 0\<rparr> else no_conditions)\<rparr>"

definition s3_putObject ::
  "lib \<Rightarrow> (nat \<Rightarrow> env) \<Rightarrow> (nat \<Rightarrow> nat \<times> bool) \<Rightarrow> request \<Rightarrow> string \<Rightarrow> string \<Rightarrow> s3_server \<Rightarrow> s3_response \<times> s3_server" where
  "s3_putObject L es sched r bkt key s =
     (case requestBody sched r of (ps, en) \<Rightarrow>
        (case s3_call (PutObject L (es 0) bkt key ps en (put_opts_s3 r)) s of
           (Inl err, s') \<Rightarrow> (writeStoreError err (resource bkt key), s')
         | (Inr i, s') \<Rightarrow> (respond 200 [(canonicalKey ''ETag'', etagFor i)] No_body, s')))"

text \<open>The headers set before \<^verbatim>\<open>http.ServeContent\<close>, which serves the content with the time of the
  last update; \<^verbatim>\<open>Header.Set\<close> puts names in canonical form.\<close>

definition object_headers_s3 :: "object_info \<Rightarrow> (string \<times> string) list" where
  "object_headers_s3 i =
     [(''Content-Type'', if oi_ContentType i = [] then ''application/octet-stream'' else oi_ContentType i),
      (canonicalKey ''ETag'', etagFor i)] @
     map (\<lambda>(k, v). (canonicalKey (''x-amz-meta-'' @ k), v)) (oi_Metadata i)"

definition s3_getObject ::
  "lib \<Rightarrow> (nat \<Rightarrow> env) \<Rightarrow> request \<Rightarrow> string \<Rightarrow> string \<Rightarrow> s3_server \<Rightarrow> s3_response \<times> s3_server" where
  "s3_getObject L es r bkt key s =
     (case s3_call (OpenObject L (es 0) bkt key) s of
        (Inl err, s') \<Rightarrow>
          (if rq_Method r = ''HEAD'' then respond (statusForStoreError err) [] No_body
           else writeStoreError err (resource bkt key), s')
      | (Inr (i, c), s') \<Rightarrow> (respond 200 (object_headers_s3 i) (Content (oi_Updated i) c), s'))"

definition s3_deleteObject ::
  "lib \<Rightarrow> (nat \<Rightarrow> env) \<Rightarrow> string \<Rightarrow> string \<Rightarrow> s3_server \<Rightarrow> s3_response \<times> s3_server" where
  "s3_deleteObject L es bkt key s =
     (case s3_call (DeleteObject L (es 0) bkt key no_conditions) s of
        (Inl err, s') \<Rightarrow>
          (if err \<noteq> ErrObjectNotFound then writeStoreError err (resource bkt key) else respond 204 [] No_body, s')
      | (Inr _, s') \<Rightarrow> (respond 204 [] No_body, s'))"

text \<open>The loop of \<^verbatim>\<open>deleteObjects\<close>: the keys that were deleted and the errors.\<close>

fun deleteObjects_loop ::
  "lib \<Rightarrow> (nat \<Rightarrow> env) \<Rightarrow> nat \<Rightarrow> bool \<Rightarrow> string \<Rightarrow> string list \<Rightarrow> s3_server \<Rightarrow> (string list \<times> deleteError list) \<times> s3_server" where
  "deleteObjects_loop L es i silent bkt [] s = (([], []), s)"
| "deleteObjects_loop L es i silent bkt (key # keys) s =
     (case s3_call (DeleteObject L (es i) bkt key no_conditions) s of
        (r, s') \<Rightarrow>
          (case deleteObjects_loop L es (Suc i) silent bkt keys s' of
             ((ds, errs), s2) \<Rightarrow>
               (case r of
                  Inl err \<Rightarrow>
                    if err \<noteq> ErrObjectNotFound
                    then ((ds, \<lparr>de_Key = key, de_Code = ''InternalError'', de_Message = Error_text [] err\<rparr> # errs), s2)
                    else ((if silent then ds else key # ds, errs), s2)
                | Inr _ \<Rightarrow> ((if silent then ds else key # ds, errs), s2))))"

definition s3_deleteObjects ::
  "lib \<Rightarrow> (body \<Rightarrow> string + deleteRequest) \<Rightarrow> (nat \<Rightarrow> env) \<Rightarrow> request \<Rightarrow> string \<Rightarrow> s3_server \<Rightarrow> s3_response \<times> s3_server" where
  "s3_deleteObjects L xml es r bkt s =
     (case xml (rq_Body r) of
        Inl m \<Rightarrow> (writeS3Error 400 ''MalformedXML'' (Other_error [] m) (''/'' @ bkt), s)
      | Inr req \<Rightarrow>
          (case deleteObjects_loop L es 0 (dr_Quiet req) bkt (dr_Objects req) s of
             ((ds, errs), s') \<Rightarrow> (writeXML 200 (DeleteResult \<lparr>dl_Deleted = ds, dl_Errors = errs\<rparr>), s')))"

text \<open>\<^verbatim>\<open>parseCopySource\<close>: bucket and key.\<close>

definition parseCopySource :: "string \<Rightarrow> string + string \<times> string" where
  "parseCopySource src =
     (let src' = TrimPrefix src ''/''
      in (case PathUnescape src' of
            None \<Rightarrow> Inl ''invalid x-amz-copy-source encoding''
          | Some u \<Rightarrow>
              (case Cut u ''/'' of (bkt, key, ok) \<Rightarrow>
                 if \<not> ok \<or> bkt = [] \<or> key = [] then Inl ''invalid x-amz-copy-source''
                 else Inr (bkt, key))))"

text \<open>A file read by \<^verbatim>\<open>io.Copy\<close>: pieces of the buffer's size, 32 KiB.\<close>

function file_chunks :: "bytes \<Rightarrow> bytes list" where
  "file_chunks c =
     (if c = [] then [] else if int (length c) \<le> 32768 then [c]
      else take 32768 c # file_chunks (drop 32768 c))"
  by pat_completeness auto
termination by (relation "measure length") auto

declare file_chunks.simps [simp del]

lemma concat_file_chunks [simp]: "concat (file_chunks c) = c"
proof (induction c rule: file_chunks.induct)
  case (1 c)
  then show ?case by (subst file_chunks.simps) auto
qed

definition copy_opts_s3 :: "request \<Rightarrow> object_info \<Rightarrow> put_options" where
  "copy_opts_s3 r i =
     (if EqualFold (header_get r ''x-amz-metadata-directive'') ''REPLACE''
      then \<lparr>po_ContentType = header_get r ''Content-Type'', po_Metadata = metadataFromHeaders (rq_Header r),
            po_Conditions = no_conditions\<rparr>
      else \<lparr>po_ContentType = oi_ContentType i, po_Metadata = oi_Metadata i, po_Conditions = no_conditions\<rparr>)"

definition s3_copyObject ::
  "lib \<Rightarrow> (nat \<Rightarrow> env) \<Rightarrow> request \<Rightarrow> string \<Rightarrow> string \<Rightarrow> s3_server \<Rightarrow> s3_response \<times> s3_server" where
  "s3_copyObject L es r bkt key s =
     (case parseCopySource (header_get r ''x-amz-copy-source'') of
        Inl m \<Rightarrow> (writeS3Error 400 ''InvalidArgument'' (Other_error m (header_get r ''x-amz-copy-source'')) (resource bkt key), s)
      | Inr (srcBucket, srcKey) \<Rightarrow>
          (case s3_call (OpenObject L (es 0) srcBucket srcKey) s of
             (Inl err, s1) \<Rightarrow> (writeStoreError err (resource srcBucket srcKey), s1)
           | (Inr (i, c), s1) \<Rightarrow>
               (case s3_call (PutObject L (es 1) bkt key (file_chunks c) EOF (copy_opts_s3 r i)) s1 of
                  (Inl err, s2) \<Rightarrow> (writeStoreError err (resource bkt key), s2)
                | (Inr j, s2) \<Rightarrow> (writeXML 200 (CopyObjectResult \<lparr>co_ETag = etagFor j, co_LastModified = iso8601 (oi_Updated j)\<rparr>), s2))))"

section \<open>Listing\<close>

definition s3_maxKeys :: "request \<Rightarrow> int option" where
  "s3_maxKeys r =
     (let v = query_get r ''max-keys''
      in if v = [] then Some 1000
         else (case Atoi v of (n, None) \<Rightarrow> Some n | (_, Some _) \<Rightarrow> None))"

text \<open>The store's inclusive page token for the cursor of the request.\<close>

definition s3_pageToken :: "request \<Rightarrow> string" where
  "s3_pageToken r =
     (if query_get r ''list-type'' = ''2'' then
        (if query_get r ''continuation-token'' \<noteq> [] then query_get r ''continuation-token''
         else if query_get r ''start-after'' \<noteq> [] then query_get r ''start-after'' @ [char_of (0::nat)]
         else [])
      else
        let marker = query_get r ''marker''; d = query_get r ''delimiter''
        in if marker = [] then []
           else if d \<noteq> [] \<and> HasSuffix marker d then prefixSuccessor marker
           else marker @ [char_of (0::nat)])"

definition s3_encode :: "request \<Rightarrow> string \<Rightarrow> string" where
  "s3_encode r v = (if query_get r ''encoding-type'' = ''url'' then QueryEscape v else v)"

definition s3_contents :: "request \<Rightarrow> object_info \<Rightarrow> contents" where
  "s3_contents r ob =
     \<lparr>ct_Key = s3_encode r (oi_Name ob), ct_LastModified = iso8601 (oi_Updated ob), ct_ETag = etagFor ob,
      ct_Size = oi_Size ob, ct_StorageClass = ''STANDARD''\<rparr>"

text \<open>The last name of a page, the greater of the last object and the last common prefix.\<close>

definition last_name :: "list_result \<Rightarrow> string" where
  "last_name res =
     (let l = (if lr_Objects res \<noteq> [] then oi_Name (last (lr_Objects res)) else [])
      in if lr_Prefixes res \<noteq> [] \<and> l < last (lr_Prefixes res) then last (lr_Prefixes res) else l)"

definition s3_listObjects :: "lib \<Rightarrow> (nat \<Rightarrow> env) \<Rightarrow> request \<Rightarrow> string \<Rightarrow> s3_server \<Rightarrow> s3_response \<times> s3_server" where
  "s3_listObjects L es r bkt s =
     (case s3_maxKeys r of
        None \<Rightarrow> (writeS3Error 400 ''InvalidArgument'' (Text ''invalid max-keys'') (''/'' @ bkt), s)
      | Some maxKeys \<Rightarrow>
          (case s3_call (ListObjects L (es 0) bkt
                  \<lparr>lq_Prefix = query_get r ''prefix'', lq_Delimiter = query_get r ''delimiter'',
                   lq_PageToken = s3_pageToken r, lq_MaxResults = maxKeys\<rparr>) s of
             (Inl err, s') \<Rightarrow> (writeStoreError err (''/'' @ bkt), s')
           | (Inr res, s') \<Rightarrow>
               let items = map (s3_contents r) (lr_Objects res);
                   prefixes = map (s3_encode r) (lr_Prefixes res);
                   truncated = (lr_NextPageToken res \<noteq> [])
               in if query_get r ''list-type'' = ''2''
                  then (writeXML 200 (ListBucketResultV2
                          \<lparr>v2_Name = bkt, v2_Prefix = s3_encode r (query_get r ''prefix''),
                           v2_Delimiter = s3_encode r (query_get r ''delimiter''), v2_MaxKeys = maxKeys,
                           v2_EncodingType = query_get r ''encoding-type'', v2_KeyCount = length items + length prefixes,
                           v2_IsTruncated = truncated, v2_ContinuationToken = query_get r ''continuation-token'',
                           v2_NextContinuationToken = lr_NextPageToken res,
                           v2_StartAfter = s3_encode r (query_get r ''start-after''),
                           v2_Contents = items, v2_CommonPrefixes = prefixes\<rparr>), s')
                  else (writeXML 200 (ListBucketResultV1
                          \<lparr>v1_Name = bkt, v1_Prefix = s3_encode r (query_get r ''prefix''),
                           v1_Delimiter = s3_encode r (query_get r ''delimiter''),
                           v1_Marker = s3_encode r (query_get r ''marker''),
                           v1_NextMarker = (if truncated then s3_encode r (last_name res) else []),
                           v1_MaxKeys = maxKeys, v1_EncodingType = query_get r ''encoding-type'',
                           v1_IsTruncated = truncated, v1_Contents = items, v1_CommonPrefixes = prefixes\<rparr>), s')))"

end
