(* ===== verification/Store_Spec.thy ===== *)
theory Store_Spec
  imports Store_Ops
begin

text \<open>
  What the store promises its clients, the protocol servers. The specification is over the view
  \<open>live_st\<close> alone. In an environment without faults every operation returns what the
  specification says, so the laws of the interface are not only about runs that happen to
  succeed; with faults an operation returns an error and leaves the view alone, or does what the
  specification says. The interface itself is the locale \<open>object_store\<close>, interpreted on the
  store's operations.
\<close>

section \<open>Runs without faults\<close>

definition fault_free :: "env \<Rightarrow> bool" where
  "fault_free e \<longleftrightarrow> (\<forall>s. \<not> env_fails e s) \<and> (\<forall>i. env_accepts e i = None)"

lemma fault_freeD [simp]: "fault_free e \<Longrightarrow> \<not> env_fails e s" "fault_free e \<Longrightarrow> env_accepts e i = None"
  by (simp_all add: fault_free_def)

text \<open>A bucket that can take a new object: its \<^verbatim>\<open>tmp\<close> directory is there and one of the names
  \<^verbatim>\<open>CreateTemp\<close> tries is free in it.\<close>

definition tmp_ready :: "env \<Rightarrow> store \<Rightarrow> string \<Rightarrow> bool" where
  "tmp_ready e st bn \<longleftrightarrow>
     (case map_of (st_root st) bn of None \<Rightarrow> False
      | Some d \<Rightarrow> (case bd_tmp d of None \<Rightarrow> False
          | Some t \<Rightarrow> \<exists>n \<in> set (env_tmp_names e). map_of t n = None))"

section \<open>The specification\<close>

text \<open>The result of a delete and of a put, given what is live under the name.\<close>

definition delete_result :: "conditions \<Rightarrow> object_info option \<Rightarrow> store_error + unit" where
  "delete_result conds existing =
     (case check conds existing of Inl er \<Rightarrow> Inl er
      | Inr _ \<Rightarrow> if existing = None then Inl ErrObjectNotFound else Inr ())"

definition put_info ::
  "lib \<Rightarrow> int \<Rightarrow> string \<Rightarrow> string \<Rightarrow> put_options \<Rightarrow> bytes \<Rightarrow> object_info option \<Rightarrow> object_info" where
  "put_info L now bn name opts c existing =
     commit_info bn name now opts (next_generation now existing)
       (hexEncode (lib_sha256 L c)) (lib_md5 L c) (lib_crc32c L c) (wrap64 (int (length c)))"

definition spec_put ::
  "lib \<Rightarrow> int \<Rightarrow> string \<Rightarrow> string \<Rightarrow> put_options \<Rightarrow> bytes \<Rightarrow> (string \<Rightarrow> string \<Rightarrow> (object_info \<times> bytes) option)
   \<Rightarrow> (store_error + object_info) \<times> (string \<Rightarrow> string \<Rightarrow> (object_info \<times> bytes) option)" where
  "spec_put L now bn name opts c v =
     (let existing = map_option fst (v bn name)
      in if \<not> validObjectName name then (Inl (ErrInvalidName name), v)
         else (case check (po_Conditions opts) existing of
                 Inl er \<Rightarrow> (Inl er, v)
               | Inr _ \<Rightarrow> let i = put_info L now bn name opts c existing
                          in (Inr i, v(bn := (v bn)(name \<mapsto> (i, c))))))"

definition spec_delete ::
  "string \<Rightarrow> string \<Rightarrow> conditions \<Rightarrow> (string \<Rightarrow> string \<Rightarrow> (object_info \<times> bytes) option)
   \<Rightarrow> (store_error + unit) \<times> (string \<Rightarrow> string \<Rightarrow> (object_info \<times> bytes) option)" where
  "spec_delete bn name conds v =
     (case delete_result conds (map_option fst (v bn name)) of
        Inl er \<Rightarrow> (Inl er, v)
      | Inr u \<Rightarrow> (Inr u, v(bn := (v bn)(name := None))))"

definition spec_open :: "string \<Rightarrow> string \<Rightarrow> (string \<Rightarrow> string \<Rightarrow> (object_info \<times> bytes) option)
   \<Rightarrow> store_error + object_info \<times> bytes" where
  "spec_open bn name v = (case v bn name of None \<Rightarrow> Inl ErrObjectNotFound | Some p \<Rightarrow> Inr p)"

lemma put_result_spec:
  "put_result L e bn name opts c st i st' \<longleftrightarrow>
   spec_put L (env_now e) bn name opts c (live_st L st) = (Inr i, live_st L st')"
  by (auto simp: put_result_def spec_put_def put_info_def Let_def check_error_iff check_ok_iff
      split: sum.splits if_splits)

lemma spec_put_view:
  "spec_put L now bn name opts c v = (Inr i, v') \<Longrightarrow>
   v' = v(bn := (v bn)(name \<mapsto> (i, c))) \<and> i = put_info L now bn name opts c (map_option fst (v bn name))"
  by (auto simp: spec_put_def Let_def split: if_splits sum.splits)

section \<open>Buckets are found\<close>

lemma bucket_missing:
  assumes "store_inv L st" "\<not> bucket_exists st bn"
  shows "bucket e bn st = (Inl ErrBucketNotFound, st)"
proof -
  have "map_of (st_buckets st) bn = None" if "validBucketName bn"
    using assms that unfolding store_inv_def handles_ok_def bucket_exists_def
    by (cases "map_of (st_buckets st) bn") (fastforce split: option.splits)+
  with assms(2) show ?thesis by (auto simp: bucket_def bucket_exists_def split: option.splits)
qed

lemma bucket_found:
  assumes "fault_free e" "bucket_exists st bn"
  shows "\<exists>h st'. bucket e bn st = (Inr h, st')"
proof -
  obtain d where "validBucketName bn" "map_of (st_root st) bn = Some d" "bd_db d \<noteq> None"
    using assms(2) by (auto simp: bucket_exists_def split: option.splits)
  with assms(1) show ?thesis
    by (auto simp: bucket_def openBucket_def openBucket_dir_def Let_def split: option.splits)
qed

lemma on_bucket_found:
  assumes "store_inv L st" "fault_free e" "bucket_exists st bn"
  obtains h st1 x where "on_bucket e bn f st = f h st1" "store_inv L st1" "live_st L st1 = live_st L st"
    "handle_for bn h st1" "b_db (view st1 h) = Some x" "\<not> b_closed (view st1 h)" "b_name (view st1 h) = bn"
    "live L (view st1 h) = live_st L st bn" "bucket e bn st = (Inr h, st1)"
proof -
  obtain h st1 where b: "bucket e bn st = (Inr h, st1)" using bucket_found [OF assms(2,3)] by blast
  note l = bucket_lookup [OF assms(1) b]
  note d = handle_forD [OF l(1) l(3) [OF refl]]
  from d(4) obtain x where "b_db (view st1 h) = Some x" by blast
  with b l d show thesis by (intro that [of h st1 x]) (auto simp: on_bucket_def live_view)
qed

lemma on_bucket_missing:
  "store_inv L st \<Longrightarrow> \<not> bucket_exists st bn \<Longrightarrow> on_bucket e bn f st = (Inl ErrBucketNotFound, st)"
  by (simp add: on_bucket_def bucket_missing)

section \<open>Results without faults\<close>

lemma selectObject_total:
  assumes "bucket_inv L b" "b_db b = Some x" "fault_free e"
  shows "selectObject L e (b_name b) name x = Inr (map_option fst (live L b name))"
proof (cases "map_of (db_objects x) name")
  case None
  with assms show ?thesis by (simp add: selectObject_def live_eq)
next
  case (Some r)
  from assms(1,2) Some show ?thesis
    by (rule row_view_Some) (use assms(2,3) Some in \<open>simp add: selectObject_def live_eq\<close>)
qed

lemma decrefBlob_total: "fault_free e \<Longrightarrow> \<exists>orphan x'. decrefBlob e sha x = Inr (orphan, x')"
  by (auto simp: decrefBlob_def Let_def split: option.splits)

lemma deleteObject_b_total:
  assumes "bucket_inv L b" "b_db b = Some x" "\<not> b_closed b" "fault_free e"
  shows "fst (deleteObject_b L e b name conds) = delete_result conds (map_option fst (live L b name))"
proof -
  have "beginTx e b = Inr x" using assms by (simp add: beginTx_Inr)
  note sel = this selectObject_total [OF assms(1,2,4), of name]
  show ?thesis
  proof (cases "check conds (map_option fst (live L b name))")
    case (Inl er)
    with sel show ?thesis by (simp add: deleteObject_b_def delete_tx_def delete_result_def)
  next
    case (Inr u)
    show ?thesis
    proof (cases "live L b name")
      case (Some p)
      obtain orphan x' where "decrefBlob e (oi_SHA256 (fst p)) (x\<lparr>db_objects := tdel name (db_objects x)\<rparr>) = Inr (orphan, x')"
        using decrefBlob_total [OF assms(4)] by blast
      with Inr Some sel assms(4) show ?thesis
        by (simp add: deleteObject_b_def delete_tx_def delete_result_def)
    qed (use Inr sel in \<open>simp add: deleteObject_b_def delete_tx_def delete_result_def\<close>)
  qed
qed

lemma commit_tx_total:
  assumes "bucket_inv L b" "b_db b = Some x" "fault_free e"
    "check (po_Conditions opts) (map_option fst (live L b name)) = Inr ()"
  shows "\<exists>y. commit_tx L e (b_name b) name opts sha m crc sz x = Inr y"
proof -
  let ?ex = "map_option fst (live L b name)"
  have "\<exists>y. (case ?ex of None \<Rightarrow> Inr (False, upsertBlob sha sz x)
      | Some i \<Rightarrow> decrefBlob e (oi_SHA256 i) (upsertBlob sha sz x)) = Inr y"
    using decrefBlob_total [OF assms(3)] by (fastforce split: option.split)
  with selectObject_total [OF assms(1-3), of name] assms(3,4) show ?thesis
    by (auto simp: commit_tx_def Let_def)
qed

lemma installBlob_total:
  assumes "fault_free e" "map_of (dir_tmp b) tmp \<noteq> None"
  shows "\<exists>b1. installBlob e sha tmp b = (Inr (), b1)"
  using assms by (cases "map_of (dir_objects b) (blobPath sha)") (auto simp: installBlob_def Let_def)

text \<open>A commit without faults needs the temporary file, or a file with the digest already there.\<close>

lemma commit_b_total:
  assumes inv: "bucket_inv L b" "b_db b = Some x" "\<not> b_closed b" and e: "fault_free e"
    and w: "\<not> bw_done w" "map_of (dir_tmp b) (bw_tmp w) \<noteq> None" and name: "validObjectName name"
    and conds: "check (po_Conditions opts) (map_option fst (live L b name)) = Inr ()"
  shows "\<exists>i. fst (commit_b L e w name opts b) = Inr i"
proof -
  obtain sha m crc where s: "checksums L w = (sha, m, crc)" by (metis prod_cases3)
  obtain b1 where b1: "installBlob e sha (bw_tmp w) b = (Inr (), b1)"
    using installBlob_total [OF e w(2)] by blast
  note f = installBlob_frame [OF b1]
  have "beginTx e b1 = Inr x" using inv e f by (simp add: beginTx_Inr)
  moreover obtain x' i orphan where "commit_tx L e (b_name b) name opts sha m crc (bw_size w) x = Inr (x', i, orphan)"
    using commit_tx_total [OF inv(1,2) e conds] by (metis prod_cases3)
  ultimately show ?thesis
    using s b1 e w(1) name by (simp add: commit_b_def commit_body_def)
qed

lemma commit_b_refused:
  assumes inv: "bucket_inv L b" "b_db b = Some x" "\<not> b_closed b" and e: "fault_free e"
    and w: "\<not> bw_done w" "map_of (dir_tmp b) (bw_tmp w) \<noteq> None"
  shows "\<not> validObjectName name \<Longrightarrow> fst (commit_b L e w name opts b) = Inl (ErrInvalidName name)"
    and "validObjectName name \<Longrightarrow> check (po_Conditions opts) (map_option fst (live L b name)) = Inl er \<Longrightarrow>
      fst (commit_b L e w name opts b) = Inl er"
proof -
  show "\<not> validObjectName name \<Longrightarrow> fst (commit_b L e w name opts b) = Inl (ErrInvalidName name)"
    using w by (simp add: commit_b_def commit_body_def)
  obtain sha m crc where s: "checksums L w = (sha, m, crc)" by (metis prod_cases3)
  obtain b1 where b1: "installBlob e sha (bw_tmp w) b = (Inr (), b1)"
    using installBlob_total [OF e w(2)] by blast
  note f = installBlob_frame [OF b1]
  have "beginTx e b1 = Inr x" using inv e f by (simp add: beginTx_Inr)
  then show "fst (commit_b L e w name opts b) = Inl er"
    if "validObjectName name" "check (po_Conditions opts) (map_option fst (live L b name)) = Inl er"
    using that s b1 e w(1) selectObject_total [OF inv(1,2) e, of name]
    by (simp add: commit_b_def commit_body_def commit_tx_def)
qed

section \<open>The store's operations refine the specification\<close>

lemma OpenObject_spec:
  assumes "store_inv L st" "fault_free e"
  shows "fst (OpenObject L e bn name st) =
    (if bucket_exists st bn then spec_open bn name (live_st L st) else Inl ErrBucketNotFound)"
proof (cases "bucket_exists st bn")
  case True
  from assms True show ?thesis
  proof (rule on_bucket_found)
    fix h st1 x
    assume a: "on_bucket e bn (\<lambda>h st'. (openObject_b L e (view st' h) name, st')) st =
        (openObject_b L e (view st1 h) name, st1)" "store_inv L st1" "b_db (view st1 h) = Some x"
        "\<not> b_closed (view st1 h)" "live L (view st1 h) = live_st L st bn"
    then show ?thesis
      using openObject_b_total [OF view_inv [OF a(2)] a(4,3)] assms(2) True
      by (simp add: OpenObject_def spec_open_def)
  qed
qed (simp add: OpenObject_def on_bucket_missing [OF assms(1)])

lemma DeleteObject_spec:
  assumes "store_inv L st" "fault_free e" "bucket_exists st bn"
  shows "\<exists>st'. DeleteObject L e bn name conds st = (fst (spec_delete bn name conds (live_st L st)), st') \<and>
    store_inv L st' \<and> live_st L st' = snd (spec_delete bn name conds (live_st L st))"
proof -
  obtain r st' where d: "DeleteObject L e bn name conds st = (r, st')" by force
  have r: "r = delete_result conds (map_option fst (live_st L st bn name))"
    using assms
  proof (rule on_bucket_found)
    fix h st1 x
    assume a: "on_bucket e bn (deleteObject_h L e name conds) st = deleteObject_h L e name conds h st1"
      "store_inv L st1" "b_db (view st1 h) = Some x" "\<not> b_closed (view st1 h)" "live L (view st1 h) = live_st L st bn"
    then show ?thesis
      using d deleteObject_b_total [OF view_inv [OF a(2)] a(3,4) assms(2), of name conds]
      by (auto simp: DeleteObject_def deleteObject_h_def split: prod.splits)
  qed
  note i = DeleteObject_inv [OF assms(1) d]
  show ?thesis
    using i d by (cases r) (simp_all add: spec_delete_def r [symmetric])
qed

lemma NewBlobWriter_total:
  assumes inv: "store_inv L st" and e: "fault_free e" and b: "bucket_exists st bn" and t: "tmp_ready e st bn"
  obtains w st1 where "NewBlobWriter e bn st = (Inr w, st1)"
    "map_of (dir_tmp (view st1 (bw_b w))) (bw_tmp w) \<noteq> None"
  using inv e b
proof (rule on_bucket_found)
  fix h st1 x
  assume a: "on_bucket e bn (\<lambda>h st'. case newBlobWriter_b e h (view st' h) of (r, b') \<Rightarrow> (r, put_view h b' st')) st =
      (case newBlobWriter_b e h (view st1 h) of (r, b') \<Rightarrow> (r, put_view h b' st1))"
    and st1: "store_inv L st1" and hn: "b_name (view st1 h) = bn" and bk: "bucket e bn st = (Inr h, st1)"
  obtain d where d: "map_of (st_root st) bn = Some d" using b by (auto simp: bucket_exists_def split: option.splits)
  have sorted: "tsorted (st_root st)" "tsorted (st_root st1)" using inv st1 by (auto simp: store_inv_def)
  have "\<exists>d1. map_of (st_root st1) bn = Some d1 \<and> bd_tmp d1 = bd_tmp d"
    using bk d sorted(1)
    by (auto simp: bucket_def openBucket_def openBucket_dir_def set_dir_simps Let_def
        split: if_splits option.splits prod.splits sum.splits)
  then obtain d1 where d1: "map_of (st_root st1) bn = Some d1" "bd_tmp d1 = bd_tmp d" by blast
  obtain tt where tt: "bd_tmp d = Some tt" "\<exists>n \<in> set (env_tmp_names e). map_of tt n = None"
    using t d by (auto simp: tmp_ready_def split: option.splits)
  then obtain n where n: "find (\<lambda>n. map_of tt n = None) (env_tmp_names e) = Some n"
    by (cases "find (\<lambda>n. map_of tt n = None) (env_tmp_names e)") (auto simp: find_None_iff)
  let ?b = "(view st1 h)\<lparr>b_dir := Some (d1\<lparr>bd_tmp := Some (tput n [] tt)\<rparr>)\<rparr>"
  have "createTemp e (view st1 h) = (Inr n, ?b)"
    using d1 tt n e hn by (simp add: createTemp_def view_simps)
  then have nb: "newBlobWriter_b e h (view st1 h) = (Inr \<lparr>bw_b = h, bw_tmp = n, bw_sha = [], bw_md5h = [],
      bw_crc = [], bw_size = 0, bw_done = False\<rparr>, ?b)" (is "_ = (Inr ?w, _)")
    by (simp add: newBlobWriter_b_def)
  have "view (put_view h ?b st1) h = ?b" by (rule view_put_view [OF sorted(2)]) simp_all
  moreover have "tsorted tt"
    using bucket_inv_sorted [OF view_inv [OF st1, of h]] d1 tt(1) hn by (simp add: dir_tmp_def view_simps)
  ultimately show thesis
    using a nb by (intro that [of ?w "put_view h ?b st1"]) (simp_all add: NewBlobWriter_def dir_tmp_def tbl_simps)
qed

lemma copy_b_tmp_kept:
  "bucket_inv L b \<Longrightarrow> map_of (dir_tmp b) n \<noteq> None \<Longrightarrow> copy_b e i w ps end b = (r, w', b') \<Longrightarrow>
   map_of (dir_tmp b') n \<noteq> None \<and> bw_tmp w' = bw_tmp w"
proof (induction e i w ps "end" b arbitrary: r w' b' rule: copy_b.induct)
  case (2 e i w p ps "end" b)
  obtain k er w1 b1 where wr: "write_b (env_accepts e i) w p b = ((k, er), w1, b1)" by (metis prod_cases3 surj_pair)
  have "tsorted (dir_tmp b)" using bucket_inv_sorted [OF 2(3)] by simp
  then have one: "map_of (dir_tmp b1) n \<noteq> None \<and> bw_tmp w1 = bw_tmp w"
    using wr 2(4) by (auto simp: write_b_def Let_def bk tbl_simps split: if_splits option.splits)
  note b1 = write_b_inv [OF 2(3) wr]
  obtain rr w2 b2 where c: "copy_b e (Suc i) w1 ps end b1 = (rr, w2, b2)" by (metis prod_cases3)
  consider "p = []" | "p \<noteq> []" "er = None" "k = length p" | "p \<noteq> []" "er \<noteq> None \<or> k \<noteq> length p" by blast
  then show ?case
  proof cases
    case 1
    with 2 show ?thesis by auto
  next
    case two: 2
    from 2(2) [OF two(1) wr [symmetric] refl two(2)] two b1 one c wr 2(5) show ?thesis by (auto split: prod.splits)
  next
    case 3
    with wr 2(5) one show ?thesis by (auto split: option.splits)
  qed
qed simp

text \<open>Without faults a put does exactly what the specification says.\<close>

lemma PutObject_spec:
  assumes inv: "store_inv L st" and e: "fault_free e" and b: "bucket_exists st bn" "tmp_ready e st bn"
    and lib: "json_decodes L" "json_roundtrip L (po_Metadata opts)" "collision_free L (files_at st bn) (concat ps)"
  shows "\<exists>st'. PutObject L e bn name ps EOF opts st =
      (fst (spec_put L (env_now e) bn name opts (concat ps) (live_st L st)), st') \<and>
    store_inv L st' \<and> live_st L st' = snd (spec_put L (env_now e) bn name opts (concat ps) (live_st L st))"
proof -
  obtain w st1 where n: "NewBlobWriter e bn st = (Inr w, st1)"
      and wt: "map_of (dir_tmp (view st1 (bw_b w))) (bw_tmp w) \<noteq> None"
    by (rule NewBlobWriter_total [OF inv e b])
  note n1 = NewBlobWriter_inv [OF inv n]
  have n': "store_inv L st1" "live_st L st1 = live_st L st" "writer_st w st1" "handle_for bn (bw_b w) st1" "\<not> bw_done w"
    using n1(1) n1(2) [OF refl] by auto
  obtain w' b' where cb: "copy_b e 0 w ps EOF (view st1 (bw_b w)) = ((length (concat ps), None), w', b')"
    using copy_b_total [of e w 0 ps] e n'(5) by fastforce
  let ?st2 = "put_view (bw_b w) b' st1"
  have c: "Copy e w ps EOF st1 = ((length (concat ps), None), w', ?st2)" by (simp add: Copy_def cb)
  note c' = Copy_inv(1) [OF n'(1,3) c] Copy_inv(2) [OF n'(1,3) c refl]
  have inv2: "store_inv L ?st2" using c'(1) by simp
  have w': "writer_st w' ?st2" "bw_b w' = bw_b w" "\<not> bw_done w'" using c'(2) n'(5) by auto
  have v2: "view ?st2 (bw_b w) = b'"
    using copy_b_inv [OF view_inv [OF n'(1)] _ cb] n'(1,3)
    by (intro view_put_view) (auto simp: store_inv_def writer_st_def)
  have wt2: "map_of (dir_tmp b') (bw_tmp w') \<noteq> None"
    using copy_b_tmp_kept [OF view_inv [OF n'(1)] wt cb] by simp
  have h2: "handle_for bn (bw_b w) ?st2" using c'(2) n'(4) by (simp add: handle_for_def)
  note hd = handle_forD [OF inv2 h2]
  obtain x where x: "b_db b' = Some x" using hd(4) v2 by auto
  have bi: "bucket_inv L b'" "\<not> b_closed b'" using view_inv [OF inv2, of "bw_b w"] hd(3) v2 by auto
  have lv: "live L b' = live_st L st bn" using live_view [of L ?st2 "bw_b w"] v2 hd(2) c'(1) n'(2) by simp
  let ?r = "fst (commit_b L e w' name opts b')"
  obtain st' where run: "PutObject L e bn name ps EOF opts st = (?r, st')"
    by (cases "commit_b L e w' name opts b'") (auto simp: PutObject_def n c Commit_def w'(2) v2)
  note p = PutObject_inv [OF inv lib(1) run]
  note refused = commit_b_refused [OF bi(1) x bi(2) e w'(3) wt2, of name opts]
  show ?thesis
  proof (cases "spec_put L (env_now e) bn name opts (concat ps) (live_st L st)")
    case (Pair r v)
    show ?thesis
    proof (cases r)
      case (Inl er)
      then have "?r = Inl er" "v = live_st L st"
        using Pair refused lv by (auto simp: spec_put_def Let_def split: if_splits sum.splits)
      with p(1,2) run Pair Inl show ?thesis by simp
    next
      case (Inr i)
      then have "validObjectName name" "check (po_Conditions opts) (map_option fst (live L b' name)) = Inr ()"
        using Pair lv by (auto simp: spec_put_def Let_def split: if_splits sum.splits)
      then obtain j where j: "?r = Inr j" using commit_b_total [OF bi(1) x bi(2) e w'(3) wt2] by blast
      with p(3) lib have "spec_put L (env_now e) bn name opts (concat ps) (live_st L st) = (Inr j, live_st L st')"
        by (simp add: put_result_spec)
      with p(1) run j show ?thesis by simp
    qed
  qed
qed

section \<open>The interface\<close>

text \<open>
  What a protocol server relies on. \<open>inv\<close> is the store's consistency, \<open>objs\<close> the view,
  \<open>ready\<close> what must hold of the content and options of a put (no digest collision in the
  bucket, metadata that survives its encoding). An operation takes an environment of its own, so
  every law holds for every pattern of faults.
\<close>

locale object_store =
  fixes inv :: "'s \<Rightarrow> bool"
    and objs :: "'s \<Rightarrow> string \<Rightarrow> string \<Rightarrow> (object_info \<times> bytes) option"
    and ready :: "'s \<Rightarrow> string \<Rightarrow> put_options \<Rightarrow> bytes \<Rightarrow> bool"
    and put :: "env \<Rightarrow> string \<Rightarrow> string \<Rightarrow> bytes list \<Rightarrow> read_end \<Rightarrow> put_options \<Rightarrow> 's \<Rightarrow> (store_error + object_info) \<times> 's"
    and open_obj :: "env \<Rightarrow> string \<Rightarrow> string \<Rightarrow> 's \<Rightarrow> (store_error + object_info \<times> bytes) \<times> 's"
    and del :: "env \<Rightarrow> string \<Rightarrow> string \<Rightarrow> conditions \<Rightarrow> 's \<Rightarrow> (store_error + unit) \<times> 's"
  assumes put_inv: "inv s \<Longrightarrow> put e bn n ps en opts s = (r, s') \<Longrightarrow> inv s'"
    and put_error: "inv s \<Longrightarrow> put e bn n ps en opts s = (Inl er, s') \<Longrightarrow> objs s' = objs s"
    and put_ok: "inv s \<Longrightarrow> ready s bn opts (concat ps) \<Longrightarrow> put e bn n ps en opts s = (Inr i, s') \<Longrightarrow>
      en = EOF \<and> objs s' = (objs s)(bn := (objs s bn)(n \<mapsto> (i, concat ps))) \<and>
      conditions_hold (po_Conditions opts) (map_option fst (objs s bn n))"
    and open_keeps: "inv s \<Longrightarrow> open_obj e bn n s = (ro, s') \<Longrightarrow> inv s' \<and> objs s' = objs s"
    and open_ok: "inv s \<Longrightarrow> open_obj e bn n s = (Inr p, s') \<Longrightarrow> objs s bn n = Some p"
    and del_inv: "inv s \<Longrightarrow> del e bn n conds s = (rd, s') \<Longrightarrow> inv s'"
    and del_error: "inv s \<Longrightarrow> del e bn n conds s = (Inl er, s') \<Longrightarrow> objs s' = objs s"
    and del_ok: "inv s \<Longrightarrow> del e bn n conds s = (Inr u, s') \<Longrightarrow>
      objs s' = (objs s)(bn := (objs s bn)(n := None)) \<and> objs s bn n \<noteq> None \<and>
      conditions_hold conds (map_option fst (objs s bn n))"

text \<open>Requests of clients, and what a sequence of them did according to its results.\<close>

datatype store_op =
    Op_put env string string "bytes list" read_end put_options
  | Op_open env string string
  | Op_delete env string string conditions

datatype op_result = Res_put "store_error + object_info" | Res_open "store_error + object_info \<times> bytes"
  | Res_delete "store_error + unit"

fun replay1 :: "store_op \<Rightarrow> op_result \<Rightarrow> (string \<Rightarrow> string \<Rightarrow> (object_info \<times> bytes) option)
   \<Rightarrow> string \<Rightarrow> string \<Rightarrow> (object_info \<times> bytes) option" where
  "replay1 (Op_put e bn n ps en opts) (Res_put (Inr i)) v = v(bn := (v bn)(n \<mapsto> (i, concat ps)))"
| "replay1 (Op_delete e bn n conds) (Res_delete (Inr u)) v = v(bn := (v bn)(n := None))"
| "replay1 op res v = v"

definition run_op ::
  "(env \<Rightarrow> string \<Rightarrow> string \<Rightarrow> bytes list \<Rightarrow> read_end \<Rightarrow> put_options \<Rightarrow> 's \<Rightarrow> (store_error + object_info) \<times> 's) \<Rightarrow>
   (env \<Rightarrow> string \<Rightarrow> string \<Rightarrow> 's \<Rightarrow> (store_error + object_info \<times> bytes) \<times> 's) \<Rightarrow>
   (env \<Rightarrow> string \<Rightarrow> string \<Rightarrow> conditions \<Rightarrow> 's \<Rightarrow> (store_error + unit) \<times> 's) \<Rightarrow>
   store_op \<Rightarrow> 's \<Rightarrow> op_result \<times> 's" where
  "run_op put open_obj del op s =
     (case op of
        Op_put e bn n ps en opts \<Rightarrow> (case put e bn n ps en opts s of (r, s') \<Rightarrow> (Res_put r, s'))
      | Op_open e bn n \<Rightarrow> (case open_obj e bn n s of (r, s') \<Rightarrow> (Res_open r, s'))
      | Op_delete e bn n conds \<Rightarrow> (case del e bn n conds s of (r, s') \<Rightarrow> (Res_delete r, s')))"

fun run_ops :: "(store_op \<Rightarrow> 's \<Rightarrow> op_result \<times> 's) \<Rightarrow> store_op list \<Rightarrow> 's \<Rightarrow> op_result list \<times> 's" where
  "run_ops step [] s = ([], s)"
| "run_ops step (op # ops) s =
     (case step op s of (r, s1) \<Rightarrow> (case run_ops step ops s1 of (rs, s2) \<Rightarrow> (r # rs, s2)))"

text \<open>Every put of the sequence is of a content that is \<open>ready\<close> when it starts.\<close>

fun all_ready ::
  "('s \<Rightarrow> string \<Rightarrow> put_options \<Rightarrow> bytes \<Rightarrow> bool) \<Rightarrow> (store_op \<Rightarrow> 's \<Rightarrow> op_result \<times> 's) \<Rightarrow> store_op list \<Rightarrow> 's \<Rightarrow> bool" where
  "all_ready ready step [] s = True"
| "all_ready ready step (op # ops) s =
     ((case op of Op_put e bn n ps en opts \<Rightarrow> ready s bn opts (concat ps) | _ \<Rightarrow> True) \<and>
      all_ready ready step ops (snd (step op s)))"

context object_store
begin

lemma run_op_replay:
  assumes "inv s" "run_op put open_obj del op s = (res, s')"
    "case op of Op_put e bn n ps en opts \<Rightarrow> ready s bn opts (concat ps) | _ \<Rightarrow> True"
  shows "inv s' \<and> objs s' = replay1 op res (objs s)"
proof (cases op)
  case (Op_put e bn n ps en opts)
  obtain r where "put e bn n ps en opts s = (r, s')" "res = Res_put r"
    using assms(2) Op_put by (auto simp: run_op_def split: prod.splits)
  with put_inv [OF assms(1)] put_error [OF assms(1)] put_ok [OF assms(1)] assms(3) Op_put show ?thesis
    by (cases r) auto
next
  case (Op_open e bn n)
  obtain r where "open_obj e bn n s = (r, s')" "res = Res_open r"
    using assms(2) Op_open by (auto simp: run_op_def split: prod.splits)
  with open_keeps [OF assms(1)] Op_open show ?thesis by auto
next
  case (Op_delete e bn n conds)
  obtain r where "del e bn n conds s = (r, s')" "res = Res_delete r"
    using assms(2) Op_delete by (auto simp: run_op_def split: prod.splits)
  with del_inv [OF assms(1)] del_error [OF assms(1)] del_ok [OF assms(1)] Op_delete show ?thesis
    by (cases r) auto
qed

text \<open>What is stored is what the successful requests put there, in their order.\<close>

lemma run_replay:
  "inv s \<Longrightarrow> all_ready ready (run_op put open_obj del) ops s \<Longrightarrow>
   run_ops (run_op put open_obj del) ops s = (rs, s') \<Longrightarrow>
   inv s' \<and> objs s' = fold (\<lambda>(op, r). replay1 op r) (zip ops rs) (objs s)"
proof (induction ops arbitrary: s rs)
  case (Cons op ops)
  obtain r s1 where o: "run_op put open_obj del op s = (r, s1)" by force
  obtain rs1 where rs: "run_ops (run_op put open_obj del) ops s1 = (rs1, s')" "rs = r # rs1"
    using Cons.prems(3) o by (auto split: prod.splits)
  from run_op_replay [OF Cons.prems(1) o] Cons.prems(2) have "inv s1" "objs s1 = replay1 op r (objs s)" by auto
  with Cons.IH [OF _ _ rs(1)] Cons.prems(2) o rs(2) show ?case by simp
qed simp

lemma read_after_write:
  assumes "inv s" "ready s bn opts (concat ps)" "put e bn n ps en opts s = (Inr i, s1)"
    "open_obj e' bn n s1 = (Inr p, s2)"
  shows "p = (i, concat ps)"
  using open_ok [OF put_inv [OF assms(1,3)] assms(4)] put_ok [OF assms(1-3)] by simp

lemma no_read_after_delete:
  assumes "inv s" "del e bn n conds s = (Inr u, s1)"
  shows "open_obj e' bn n s1 \<noteq> (Inr p, s2)"
proof
  assume "open_obj e' bn n s1 = (Inr p, s2)"
  from open_ok [OF del_inv [OF assms] this] del_ok [OF assms] show False by simp
qed

end

section \<open>The store implements the interface\<close>

definition put_ready :: "lib \<Rightarrow> store \<Rightarrow> string \<Rightarrow> put_options \<Rightarrow> bytes \<Rightarrow> bool" where
  "put_ready L st bn opts c \<longleftrightarrow> json_roundtrip L (po_Metadata opts) \<and> collision_free L (files_at st bn) c"

lemma OpenObject_live:
  assumes "store_inv L st" "OpenObject L e bn name st = (Inr p, st')"
  shows "live_st L st bn name = Some p"
  using assms unfolding OpenObject_def
proof (cases rule: on_bucket_cases)
  case (found h st1)
  then have "live L (view st1 h) name = Some p" by (auto intro: openObject_b_live)
  with found handle_forD(2) [OF found(1,3)] show ?thesis by (simp add: live_view)
qed simp

interpretation os: object_store "\<lambda>st. json_decodes L \<and> store_inv L st" "live_st L" "put_ready L"
  "PutObject L" "OpenObject L" "DeleteObject L" for L
proof
  fix st st' e bn n
  show "json_decodes L \<and> store_inv L st'"
    if "json_decodes L \<and> store_inv L st" "PutObject L e bn n ps en opts st = (r, st')" for ps en opts r
    using PutObject_inv(1) that by blast
  show "live_st L st' = live_st L st"
    if "json_decodes L \<and> store_inv L st" "PutObject L e bn n ps en opts st = (Inl er, st')" for ps en opts er
    using PutObject_inv(2) that by blast
  show "en = EOF \<and> live_st L st' = (live_st L st)(bn := (live_st L st bn)(n \<mapsto> (i, concat ps))) \<and>
      conditions_hold (po_Conditions opts) (map_option fst (live_st L st bn n))"
    if "json_decodes L \<and> store_inv L st" "put_ready L st bn opts (concat ps)"
      "PutObject L e bn n ps en opts st = (Inr i, st')" for ps en opts i
    using PutObject_inv(3) [of L st e bn n ps en opts "Inr i" st' i] that by (auto simp: put_ready_def put_result_def)
  show "(json_decodes L \<and> store_inv L st') \<and> live_st L st' = live_st L st"
    if "json_decodes L \<and> store_inv L st" "OpenObject L e bn n st = (r, st')" for r
    using OpenObject_inv that by blast
  show "live_st L st bn n = Some p" if "json_decodes L \<and> store_inv L st" "OpenObject L e bn n st = (Inr p, st')" for p
    using OpenObject_live that by blast
  show "json_decodes L \<and> store_inv L st'"
    if "json_decodes L \<and> store_inv L st" "DeleteObject L e bn n conds st = (r, st')" for conds r
    using DeleteObject_inv(1) that by blast
  show "live_st L st' = live_st L st"
    if "json_decodes L \<and> store_inv L st" "DeleteObject L e bn n conds st = (Inl er, st')" for conds er
    using DeleteObject_inv(2) that by blast
  show "live_st L st' = (live_st L st)(bn := (live_st L st bn)(n := None)) \<and> live_st L st bn n \<noteq> None \<and>
      conditions_hold conds (map_option fst (live_st L st bn n))"
    if "json_decodes L \<and> store_inv L st" "DeleteObject L e bn n conds st = (Inr u, st')" for conds u
    using DeleteObject_inv(3) that by blast
qed

end
