(* ===== verification/Store_Machine.thy ===== *)
theory Store_Machine
  imports Store_Spec Store_List
begin

text \<open>
  The store as a state machine. Requests are served concurrently, and an upload is not one step:
  its writer is opened, written in pieces and committed or aborted, with other requests in
  between. A state is the store with the writers opened so far; a step is one call into the
  store, with any faults. The names \<^verbatim>\<open>CreateTemp\<close> picks are random, so a step that opens a
  temporary file uses a name no unfinished writer has.
\<close>

section \<open>What a step leaves of the others' temporary files\<close>

definition tmp_at :: "store \<Rightarrow> string \<Rightarrow> string \<Rightarrow> bytes option" where
  "tmp_at st bn n =
     (case map_of (st_root st) bn of None \<Rightarrow> None
      | Some d \<Rightarrow> (case bd_tmp d of None \<Rightarrow> None | Some t \<Rightarrow> map_of t n))"

text \<open>\<open>keeps N st st'\<close>: handles keep their names, and a temporary file whose name is not in \<open>N\<close>
  is as it was or gone.\<close>

definition keeps :: "string set \<Rightarrow> store \<Rightarrow> store \<Rightarrow> bool" where
  "keeps N st st' \<longleftrightarrow>
     length (st_handles st) \<le> length (st_handles st') \<and>
     (\<forall>h < length (st_handles st). h_name (st_handles st' ! h) = h_name (st_handles st ! h)) \<and>
     (\<forall>bn n. n \<notin> N \<longrightarrow> tmp_at st' bn n = None \<or> tmp_at st' bn n = tmp_at st bn n)"

named_theorems keeps_intros \<open>what each operation leaves of the temporary files\<close>

lemma keeps_refl [keeps_intros]: "keeps N st st"
  by (simp add: keeps_def)

lemma keeps_trans: "keeps N st st1 \<Longrightarrow> keeps N st1 st2 \<Longrightarrow> keeps N st st2"
  unfolding keeps_def by (metis less_le_trans order_trans)

lemma keeps_mono: "keeps N st st' \<Longrightarrow> N \<subseteq> M \<Longrightarrow> keeps M st st'"
  unfolding keeps_def by blast

lemma bucket_inv_sorted_tmp: "bucket_inv L b \<Longrightarrow> tsorted (dir_tmp b)"
  by (simp add: bucket_inv_sorted)

lemma tmp_at_view: "map_of (dir_tmp (view st h)) n = tmp_at st (h_name (st_handles st ! h)) n"
  by (simp add: dir_tmp_def tmp_at_def view_def split: option.split)

lemma tmp_at_set_dir:
  "tsorted (st_root st) \<Longrightarrow> tmp_at (set_dir name d st) bn n =
     (if bn = name then (case d of None \<Rightarrow> None | Some x \<Rightarrow> (case bd_tmp x of None \<Rightarrow> None | Some t \<Rightarrow> map_of t n))
      else tmp_at st bn n)"
  by (simp add: tmp_at_def bk)

lemma tmp_at_upd [simp]:
  "tmp_at (st\<lparr>st_handles := hs\<rparr>) = tmp_at st" "tmp_at (st\<lparr>st_buckets := bs\<rparr>) = tmp_at st"
  by (simp_all add: tmp_at_def fun_eq_iff)

lemma writer_st_keeps:
  assumes "writer_st w st" "keeps N st st'" "bw_done w \<or> bw_tmp w \<notin> N"
  shows "writer_st w st'"
proof -
  have h: "bw_b w < length (st_handles st)" "bw_b w < length (st_handles st')"
      "h_name (st_handles st' ! bw_b w) = h_name (st_handles st ! bw_b w)"
    using assms(1,2) by (auto simp: writer_st_def keeps_def)
  have "tmp_at st' (h_name (st_handles st ! bw_b w)) (bw_tmp w) \<in> {None, tmp_at st (h_name (st_handles st ! bw_b w)) (bw_tmp w)}"
    if "\<not> bw_done w" using assms(2,3) that by (auto simp: keeps_def)
  with assms(1) h show ?thesis by (auto simp: writer_st_def writer_ok_def tmp_at_view)
qed

section \<open>The operations\<close>

lemma keeps_openBucket:
  assumes "tsorted (st_root st)" "openBucket e name st = (r, st')"
  shows "keeps N st st'"
proof -
  have "bd_tmp d' = bd_tmp d" if "openBucket_dir e d = (ro, d')" for ro d d'
    using that by (auto simp: openBucket_dir_def Let_def split: if_splits)
  then have "tmp_at (set_dir name (Some d') st) bn n = tmp_at st bn n"
    if "map_of (st_root st) name = Some d" "openBucket_dir e d = (ro, d')" for bn n d ro d'
    using that by (simp add: tmp_at_set_dir [OF assms(1)]) (simp add: tmp_at_def)
  then have "tmp_at st' bn n = tmp_at st bn n" for bn n
    using assms by (auto simp: openBucket_def Let_def split: option.splits prod.splits sum.splits)
  moreover have "\<exists>hs. st_handles st' = st_handles st @ hs"
    using assms by (auto simp: openBucket_def bk Let_def split: option.splits prod.splits sum.splits)
  ultimately show ?thesis by (auto simp: keeps_def nth_append)
qed

lemma keeps_bucket:
  assumes "tsorted (st_root st)" "bucket e name st = (r, st')"
  shows "keeps N st st'"
  using assms keeps_openBucket [of st e name r st' N]
  by (auto simp: bucket_def keeps_refl split: if_splits option.splits)

lemma keeps_on_bucket:
  assumes "store_inv L st" "on_bucket e name f st = (r, st')"
    and f: "\<And>h st1. store_inv L st1 \<Longrightarrow> handle_for name h st1 \<Longrightarrow> f h st1 = (r, st') \<Longrightarrow> keeps N st1 st'"
  shows "keeps N st st'"
proof -
  have s: "tsorted (st_root st)" using assms(1) by (simp add: store_inv_def)
  obtain rb st1 where b: "bucket e name st = (rb, st1)" by force
  note k = keeps_bucket [OF s b] and l = bucket_lookup [OF assms(1) b]
  show ?thesis
  proof (cases rb)
    case (Inl er)
    with assms(2) b k show ?thesis by (simp add: on_bucket_def)
  next
    case (Inr h)
    with assms(2) b have "f h st1 = (r, st')" by (simp add: on_bucket_def)
    from keeps_trans [OF k f [OF l(1) l(3) [OF Inr] this]] show ?thesis .
  qed
qed

lemma keeps_put_view:
  assumes "tsorted (st_root st)"
    and "\<And>n. n \<notin> N \<Longrightarrow> map_of (dir_tmp b') n = None \<or> map_of (dir_tmp b') n = map_of (dir_tmp (view st h)) n"
  shows "keeps N st (put_view h b' st)"
proof -
  have "tmp_at (put_view h b' st) bn n =
      (if bn = h_name (st_handles st ! h) then map_of (dir_tmp b') n else tmp_at st bn n)" for bn n
    using assms(1) by (auto simp: put_view_def tmp_at_set_dir dir_tmp_def split: option.splits)
  with assms(2) show ?thesis by (auto simp: keeps_def bk tmp_at_view)
qed

lemma keeps_read:
  "store_inv L st \<Longrightarrow> on_bucket e name (\<lambda>h st1. (f h st1, st1)) st = (r, st') \<Longrightarrow> keeps N st st'"
  by (rule keeps_on_bucket) (auto intro: keeps_refl)

lemma keeps_reads:
  assumes "store_inv L st"
  shows "GetBucket e bn st = (r, st') \<Longrightarrow> keeps N st st'"
    "GetObject L e bn n st = (ro, st') \<Longrightarrow> keeps N st st'"
    "OpenObject L e bn n st = (rc, st') \<Longrightarrow> keeps N st st'"
    "ListObjects L e bn req st = (rq, st') \<Longrightarrow> keeps N st st'"
  unfolding GetBucket_def GetObject_def OpenObject_def ListObjects_def by (rule keeps_read [OF assms], assumption)+

lemma ListObjects_inv:
  "store_inv L st \<Longrightarrow> ListObjects L e bn req st = (r, st') \<Longrightarrow> store_inv L st' \<and> live_st L st' = live_st L st"
  unfolding ListObjects_def by (rule read_only_on_bucket)

lemma keeps_listBuckets_loop:
  "store_inv L st \<Longrightarrow> listBuckets_loop e names st = (r, st') \<Longrightarrow> keeps N st st'"
proof (induction names arbitrary: st r st')
  case (Cons name names)
  obtain rg st1 where g: "GetBucket e name st = (rg, st1)" by force
  note g' = GetBucket_inv [OF Cons.prems(1) g]
  have k: "keeps N st st1" using g unfolding GetBucket_def by (rule keeps_read [OF Cons.prems(1)])
  obtain rl st2 where l: "listBuckets_loop e names st1 = (rl, st2)" by force
  from keeps_trans [OF k Cons.IH [OF _ l]] g' have "keeps N st st2" by simp
  with Cons g l k show ?case by (cases rg; cases rl) (auto split: if_splits)
qed (simp add: keeps_refl)

lemma keeps_ListBuckets: "store_inv L st \<Longrightarrow> ListBuckets e st = (r, st') \<Longrightarrow> keeps N st st'"
  using keeps_listBuckets_loop [of L st e "map fst (st_root st)" _ _ N]
  by (auto simp: ListBuckets_def keeps_refl split: if_splits prod.splits sum.splits)

lemma keeps_set_dir:
  assumes "tsorted (st_root st)" "\<And>n. tmp_at (set_dir name d st) name n = None"
  shows "keeps N st (set_dir name d st)"
  using assms by (auto simp: keeps_def tmp_at_set_dir bk split: option.splits)

lemma keeps_CreateBucket:
  assumes inv: "store_inv L st" and run: "CreateBucket e name st = (r, st')"
  shows "keeps N st st'"
proof -
  have s: "tsorted (st_root st)" using inv by (simp add: store_inv_def)
  let ?st1 = "set_dir name (Some (empty_dir\<lparr>bd_tmp := Some []\<rparr>)) st"
  have e: "keeps N st (set_dir name (Some empty_dir) st)" "keeps N st ?st1"
    by (rule keeps_set_dir [OF s]; simp add: tmp_at_def bk s empty_dir_def)+
  obtain ro st2 where o: "openBucket e name ?st1 = (ro, st2)" by force
  have "keeps N ?st1 st2" by (rule keeps_openBucket [OF _ o]) (simp add: bk s)
  with e(2) have "keeps N st st2" by (rule keeps_trans)
  with e(1) o run show ?thesis
    by (auto simp: CreateBucket_def keeps_refl split: if_splits prod.splits sum.splits)
qed

lemma keeps_DeleteBucket:
  assumes inv: "store_inv L st" and run: "DeleteBucket e name st = (r, st')"
  shows "keeps N st st'"
  using inv run unfolding DeleteBucket_def
proof (rule keeps_on_bucket)
  fix h st1
  assume st1: "store_inv L st1" and h: "handle_for name h st1" and d: "deleteBucket_h e name h st1 = (r, st')"
  let ?st2 = "close_handle h (st1\<lparr>st_buckets := tdel name (st_buckets st1)\<rparr>)"
  have s: "tsorted (st_root ?st2)" using st1 by (simp add: store_inv_def bk)
  have k: "keeps N st1 ?st2"
    using handle_forD(1) [OF st1 h] by (auto simp: keeps_def close_handle_def tmp_at_def nth_list_update)
  have "keeps N ?st2 (set_dir name None ?st2)"
    by (rule keeps_set_dir [OF s]) (simp only: tmp_at_set_dir [OF s] option.case refl if_True)
  from keeps_trans [OF k this] k d show "keeps N st1 st'"
    by (auto simp: deleteBucket_h_def Let_def keeps_refl split: if_splits sum.splits)
qed

lemma keeps_DeleteObject:
  assumes inv: "store_inv L st" and run: "DeleteObject L e bn name conds st = (r, st')"
  shows "keeps N st st'"
  using inv run unfolding DeleteObject_def
proof (rule keeps_on_bucket)
  fix h st1
  assume st1: "store_inv L st1" and d: "deleteObject_h L e name conds h st1 = (r, st')"
  obtain b' where b': "deleteObject_b L e (view st1 h) name conds = (r, b')" "st' = put_view h b' st1"
    using d by (auto simp: deleteObject_h_def split: prod.splits)
  then have "dir_tmp b' = dir_tmp (view st1 h)"
    by (auto simp: deleteObject_b_def bk split: sum.splits if_splits)
  with st1 b'(2) show "keeps N st1 st'" by (simp add: keeps_put_view store_inv_def)
qed

lemma createTemp_keeps:
  assumes "tsorted (dir_tmp b)" "createTemp e b = (r, b')" "n \<notin> set (env_tmp_names e)"
  shows "map_of (dir_tmp b') n = map_of (dir_tmp b) n"
  using assms
  by (auto simp: createTemp_def dir_tmp_def tbl_simps find_Some_iff split: option.splits if_splits)

lemma keeps_TempFile:
  assumes inv: "store_inv L st" and run: "TempFile e bn st = (r, st')"
  shows "keeps (set (env_tmp_names e)) st st'"
  using inv run unfolding TempFile_def
proof (rule keeps_on_bucket)
  fix h st1
  assume st1: "store_inv L st1"
    and c: "(case createTemp e (view st1 h) of (r, b') \<Rightarrow> (r, put_view h b' st1)) = (r, st')"
  obtain b' where b': "createTemp e (view st1 h) = (r, b')" "st' = put_view h b' st1" using c by (auto split: prod.splits)
  with createTemp_keeps [OF bucket_inv_sorted_tmp [OF view_inv [OF st1]] b'(1)] st1
  show "keeps (set (env_tmp_names e)) st1 st'" by (auto simp: store_inv_def intro!: keeps_put_view)
qed

lemma keeps_NewBlobWriter:
  assumes inv: "store_inv L st" and run: "NewBlobWriter e bn st = (r, st')"
  shows "keeps (set (env_tmp_names e)) st st'" "r = Inr w \<Longrightarrow> bw_tmp w \<in> set (env_tmp_names e)"
proof -
  show "keeps (set (env_tmp_names e)) st st'"
    using inv run unfolding NewBlobWriter_def
  proof (rule keeps_on_bucket)
    fix h st1
    assume st1: "store_inv L st1"
      and c: "(case newBlobWriter_b e h (view st1 h) of (r, b') \<Rightarrow> (r, put_view h b' st1)) = (r, st')"
    obtain rt b' where b': "createTemp e (view st1 h) = (rt, b')" "st' = put_view h b' st1"
      using c by (auto simp: newBlobWriter_b_def split: prod.splits sum.splits)
    with createTemp_keeps [OF bucket_inv_sorted_tmp [OF view_inv [OF st1]] b'(1)] st1
    show "keeps (set (env_tmp_names e)) st1 st'" by (auto simp: store_inv_def intro!: keeps_put_view)
  qed
  show "bw_tmp w \<in> set (env_tmp_names e)" if "r = Inr w"
    using run that
    by (auto simp: NewBlobWriter_def on_bucket_def newBlobWriter_b_def createTemp_def find_Some_iff
        split: prod.splits sum.splits option.splits if_splits)
qed

lemma copy_b_keeps:
  assumes "bucket_inv L b" "copy_b e i w ps end b = (r, w', b')"
  shows "bw_tmp w' = bw_tmp w \<and> bw_b w' = bw_b w \<and> bw_done w' = bw_done w \<and>
    (n \<noteq> bw_tmp w \<longrightarrow> map_of (dir_tmp b') n = map_of (dir_tmp b) n)"
  using assms
proof (induction e i w ps "end" b arbitrary: r w' b' rule: copy_b.induct)
  case (2 e i w p ps "end" b)
  obtain k er w1 b1 where wr: "write_b (env_accepts e i) w p b = ((k, er), w1, b1)" by (metis prod_cases3 surj_pair)
  have "tsorted (dir_tmp b)" using bucket_inv_sorted_tmp [OF 2(3)] .
  then have one: "bw_tmp w1 = bw_tmp w \<and> bw_b w1 = bw_b w \<and> bw_done w1 = bw_done w \<and>
      (n \<noteq> bw_tmp w \<longrightarrow> map_of (dir_tmp b1) n = map_of (dir_tmp b) n)"
    using wr by (auto simp: write_b_def Let_def bk tbl_simps split: if_splits option.splits)
  note b1 = write_b_inv [OF 2(3) wr]
  obtain rr w2 b2 where c: "copy_b e (Suc i) w1 ps end b1 = (rr, w2, b2)" by (metis prod_cases3)
  consider "p = []" | "p \<noteq> []" "er = None" "k = length p" | "p \<noteq> []" "er \<noteq> None \<or> k \<noteq> length p" by blast
  then show ?case
  proof cases
    case 1
    with 2 show ?thesis by auto
  next
    case two: 2
    from 2(2) [OF two(1) wr [symmetric] refl two(2)] two b1 one c wr 2(4) show ?thesis by (auto split: prod.splits)
  next
    case 3
    with wr 2(4) one show ?thesis by (auto split: option.splits)
  qed
qed simp

lemma keeps_Copy:
  assumes inv: "store_inv L st" and run: "Copy e w ps end st = (r, w', st')"
  shows "keeps {bw_tmp w} st st'" "bw_tmp w' = bw_tmp w" "bw_b w' = bw_b w" "bw_done w' = bw_done w"
proof -
  obtain b' where c: "copy_b e 0 w ps end (view st (bw_b w)) = (r, w', b')" "st' = put_view (bw_b w) b' st"
    using run by (auto simp: Copy_def split: prod.splits)
  note k = copy_b_keeps [OF view_inv [OF inv] c(1)]
  then show "bw_tmp w' = bw_tmp w" "bw_b w' = bw_b w" "bw_done w' = bw_done w" by auto
  from k inv c(2) show "keeps {bw_tmp w} st st'" by (auto simp: store_inv_def intro!: keeps_put_view)
qed

lemma keeps_Abort:
  assumes inv: "store_inv L st" and run: "Abort e w st = (w', st')"
  shows "keeps N st st'"
proof -
  have s: "tsorted (dir_tmp (view st (bw_b w)))" by (rule bucket_inv_sorted_tmp [OF view_inv [OF inv]])
  obtain b' where a: "abort_b e w (view st (bw_b w)) = (w', b')" "st' = put_view (bw_b w) b' st"
    using run by (auto simp: Abort_def split: prod.splits)
  with s have "map_of (dir_tmp b') n = None \<or> map_of (dir_tmp b') n = map_of (dir_tmp (view st (bw_b w))) n" for n
    by (auto simp: abort_b_def bk tbl_simps split: if_splits)
  with inv a(2) show ?thesis by (auto simp: store_inv_def intro!: keeps_put_view)
qed

lemma keeps_Commit:
  assumes inv: "store_inv L st" and run: "Commit L e w name opts st = (r, w', st')"
  shows "keeps N st st'"
proof -
  let ?v = "view st (bw_b w)"
  have s: "tsorted (dir_tmp ?v)" by (rule bucket_inv_sorted_tmp [OF view_inv [OF inv]])
  obtain b' where c: "commit_b L e w name opts ?v = (r, w', b')" "st' = put_view (bw_b w) b' st"
    using run by (auto simp: Commit_def split: prod.splits)
  have i: "dir_tmp b1 = dir_tmp ?v \<or> dir_tmp b1 = tdel (bw_tmp w) (dir_tmp ?v)"
    if "installBlob e sha (bw_tmp w) ?v = (ri, b1)" for sha ri b1
    using that by (cases rule: installBlob_cases) auto
  have body: "dir_tmp bb = dir_tmp ?v \<or> dir_tmp bb = tdel (bw_tmp w) (dir_tmp ?v)"
    if "commit_body L e w name opts ?v = (rb, bb)" for rb bb
    using that by (auto simp: commit_body_def bk dest: i split: if_splits prod.splits sum.splits)
  have "map_of (dir_tmp b') n = None \<or> map_of (dir_tmp b') n = map_of (dir_tmp ?v) n" for n
  proof (cases "commit_body L e w name opts ?v")
    case (Pair rb bb)
    from body [OF Pair] have "map_of (dir_tmp bb) n = None \<or> map_of (dir_tmp bb) n = map_of (dir_tmp ?v) n"
        "tsorted (dir_tmp bb)"
      using s by (auto simp: tbl_simps tbl_inv)
    then show ?thesis using c Pair s by (auto simp: commit_b_def bk tbl_simps split: if_splits)
  qed
  with inv c(2) show ?thesis by (auto simp: store_inv_def intro!: keeps_put_view)
qed

lemma keeps_PutObject:
  assumes inv: "store_inv L st" and json: "json_decodes L" and run: "PutObject L e bn name ps end opts st = (r, st')"
  shows "keeps (set (env_tmp_names e)) st st'"
proof -
  obtain rn st1 where n: "NewBlobWriter e bn st = (rn, st1)" by force
  note k1 = keeps_NewBlobWriter [OF inv n]
  show ?thesis
  proof (cases rn)
    case (Inl er)
    with run n k1(1) show ?thesis by (simp add: PutObject_def)
  next
    case (Inr w)
    note n' = NewBlobWriter_inv [OF inv n]
    have st1: "store_inv L st1" "writer_st w st1" using n'(1) n'(2) [OF Inr] by auto
    obtain k cer w1 st2 where c: "Copy e w ps end st1 = ((k, cer), w1, st2)" by (metis surj_pair)
    have k2: "keeps (set (env_tmp_names e)) st1 st2"
      using keeps_mono [OF keeps_Copy(1) [OF st1(1) c]] k1(2) [OF Inr] by simp
    have st2: "store_inv L st2" using Copy_inv(1) [OF st1 c] by simp
    obtain w2 st3 where a: "Abort e w1 st2 = (w2, st3)" by force
    obtain rc w4 st4 where cm: "Commit L e w1 name opts st2 = (rc, w4, st4)" by (metis prod_cases3)
    have "st' = st3 \<or> st' = st4" using run n Inr c a cm by (cases cer) (auto simp: PutObject_def)
    then have "keeps (set (env_tmp_names e)) st2 st'"
      using keeps_Abort [OF st2 a] keeps_Commit [OF st2 cm] by blast
    with k1(1) k2 show ?thesis by (blast intro: keeps_trans)
  qed
qed

section \<open>Steps\<close>

record sys =
  sy_store :: store
  sy_writers :: "blob_writer list"

definition fresh :: "env \<Rightarrow> sys \<Rightarrow> bool" where
  "fresh e s \<longleftrightarrow> list_all (\<lambda>w. bw_done w \<or> bw_tmp w \<notin> set (env_tmp_names e)) (sy_writers s)"

text \<open>One call into the store. A writer stays in the list after it is finished.\<close>

inductive step :: "lib \<Rightarrow> sys \<Rightarrow> sys \<Rightarrow> bool" for L where
  create_bucket: "CreateBucket e bn (sy_store s) = (r, st') \<Longrightarrow> step L s (s\<lparr>sy_store := st'\<rparr>)"
| get_bucket: "GetBucket e bn (sy_store s) = (r, st') \<Longrightarrow> step L s (s\<lparr>sy_store := st'\<rparr>)"
| list_buckets: "ListBuckets e (sy_store s) = (rl, st') \<Longrightarrow> step L s (s\<lparr>sy_store := st'\<rparr>)"
| delete_bucket: "DeleteBucket e bn (sy_store s) = (ru, st') \<Longrightarrow> step L s (s\<lparr>sy_store := st'\<rparr>)"
| get_object: "GetObject L e bn n (sy_store s) = (ro, st') \<Longrightarrow> step L s (s\<lparr>sy_store := st'\<rparr>)"
| open_object: "OpenObject L e bn n (sy_store s) = (rc, st') \<Longrightarrow> step L s (s\<lparr>sy_store := st'\<rparr>)"
| list_objects: "ListObjects L e bn req (sy_store s) = (rq, st') \<Longrightarrow> step L s (s\<lparr>sy_store := st'\<rparr>)"
| delete_object: "DeleteObject L e bn n conds (sy_store s) = (ru, st') \<Longrightarrow> step L s (s\<lparr>sy_store := st'\<rparr>)"
| put_object: "fresh e s \<Longrightarrow> PutObject L e bn n ps en opts (sy_store s) = (ro, st') \<Longrightarrow> step L s (s\<lparr>sy_store := st'\<rparr>)"
| temp_file: "fresh e s \<Longrightarrow> TempFile e bn (sy_store s) = (rt, st') \<Longrightarrow> step L s (s\<lparr>sy_store := st'\<rparr>)"
| open_writer: "fresh e s \<Longrightarrow> NewBlobWriter e bn (sy_store s) = (Inr w, st') \<Longrightarrow>
    step L s (s\<lparr>sy_store := st', sy_writers := sy_writers s @ [w]\<rparr>)"
| open_writer_failed: "fresh e s \<Longrightarrow> NewBlobWriter e bn (sy_store s) = (Inl er, st') \<Longrightarrow>
    step L s (s\<lparr>sy_store := st'\<rparr>)"
| write_body: "k < length (sy_writers s) \<Longrightarrow> Copy e (sy_writers s ! k) ps en (sy_store s) = (rw, w', st') \<Longrightarrow>
    step L s (s\<lparr>sy_store := st', sy_writers := (sy_writers s)[k := w']\<rparr>)"
| abort: "k < length (sy_writers s) \<Longrightarrow> Abort e (sy_writers s ! k) (sy_store s) = (w', st') \<Longrightarrow>
    step L s (s\<lparr>sy_store := st', sy_writers := (sy_writers s)[k := w']\<rparr>)"
| commit: "k < length (sy_writers s) \<Longrightarrow> Commit L e (sy_writers s ! k) n opts (sy_store s) = (ro, w', st') \<Longrightarrow>
    step L s (s\<lparr>sy_store := st', sy_writers := (sy_writers s)[k := w']\<rparr>)"

text \<open>The server starts on a root directory it left consistent, or an empty one.\<close>

inductive reachable :: "lib \<Rightarrow> (string, bucket_dir) table \<Rightarrow> sys \<Rightarrow> bool" for L root where
  start: "Open e root = Inr st \<Longrightarrow> reachable L root \<lparr>sy_store = st, sy_writers = []\<rparr>"
| move: "reachable L root s \<Longrightarrow> step L s s' \<Longrightarrow> reachable L root s'"

inductive_cases stepE: "step L s s'"

section \<open>The invariant\<close>

definition unfinished :: "sys \<Rightarrow> blob_writer list" where
  "unfinished s = filter (\<lambda>w. \<not> bw_done w) (sy_writers s)"

definition sys_inv :: "lib \<Rightarrow> sys \<Rightarrow> bool" where
  "sys_inv L s \<longleftrightarrow>
     store_inv L (sy_store s) \<and> (\<forall>w \<in> set (sy_writers s). writer_st w (sy_store s)) \<and>
     distinct (map bw_tmp (unfinished s))"

text \<open>A step that touches no writer.\<close>

lemma sys_inv_store:
  assumes "sys_inv L s" "store_inv L st'" "keeps N (sy_store s) st'"
    "\<forall>w \<in> set (sy_writers s). bw_done w \<or> bw_tmp w \<notin> N"
  shows "sys_inv L (s\<lparr>sy_store := st'\<rparr>)"
proof -
  have "writer_st w st'" if "w \<in> set (sy_writers s)" for w
    using assms(1,4) that by (intro writer_st_keeps [OF _ assms(3)]) (auto simp: sys_inv_def)
  with assms(1,2) show ?thesis by (simp add: sys_inv_def unfinished_def)
qed

text \<open>A step of the \<open>k\<close>-th writer: it keeps its name, and does not come back to life.\<close>

lemma distinct_update:
  assumes "distinct (map bw_tmp (filter (\<lambda>w. \<not> bw_done w) ws))" "k < length ws"
    "bw_tmp w' = bw_tmp (ws ! k)" "bw_done (ws ! k) \<Longrightarrow> bw_done w'"
  shows "distinct (map bw_tmp (filter (\<lambda>w. \<not> bw_done w) (ws[k := w'])))"
proof -
  obtain xs w ys where ws: "ws = xs @ w # ys" "k = length xs"
    using id_take_nth_drop [OF assms(2)] assms(2) by (metis length_take less_imp_le min.absorb2)
  then have "ws[k := w'] = xs @ w' # ys" "ws ! k = w" by simp_all
  with assms ws show ?thesis by (cases "bw_done w'"; cases "bw_done w") auto
qed

lemma other_writers:
  assumes "distinct (map bw_tmp (filter (\<lambda>w. \<not> bw_done w) ws))" "j < length ws" "k < length ws" "j \<noteq> k"
    "\<not> bw_done (ws ! j)" "\<not> bw_done (ws ! k)"
  shows "bw_tmp (ws ! j) \<noteq> bw_tmp (ws ! k)"
proof -
  have "bw_tmp (ws ! j) \<noteq> bw_tmp (ws ! k)" if "j < k" "j < length ws" "k < length ws"
      "\<not> bw_done (ws ! j)" "\<not> bw_done (ws ! k)" for j k
  proof -
    have ws: "ws = take k ws @ ws ! k # drop (Suc k) ws" by (rule id_take_nth_drop [OF that(3)])
    have "ws ! j \<in> set (take k ws)" using that(1,2) by (auto simp: in_set_conv_nth)
    then have "ws ! j \<in> set (filter (\<lambda>w. \<not> bw_done w) (take k ws))" using that(4) by simp
    moreover have "distinct (map bw_tmp (filter (\<lambda>w. \<not> bw_done w) (take k ws @ ws ! k # drop (Suc k) ws)))"
      using assms(1) ws by simp
    ultimately show ?thesis using that(5) by (auto simp: image_iff)
  qed
  from this [of j k] this [of k j] assms show ?thesis by (metis linorder_neqE_nat)
qed

lemma sys_inv_writer:
  assumes inv: "sys_inv L s" and k: "k < length (sy_writers s)" and st': "store_inv L st'"
    and keeps: "keeps {bw_tmp (sy_writers s ! k)} (sy_store s) st'"
      "bw_done (sy_writers s ! k) \<Longrightarrow> keeps {} (sy_store s) st'"
    and w': "writer_st w' st'" "bw_tmp w' = bw_tmp (sy_writers s ! k)" "bw_done (sy_writers s ! k) \<Longrightarrow> bw_done w'"
  shows "sys_inv L (s\<lparr>sy_store := st', sy_writers := (sy_writers s)[k := w']\<rparr>)"
proof -
  let ?ws = "sy_writers s"
  have d: "distinct (map bw_tmp (filter (\<lambda>w. \<not> bw_done w) ?ws))" using inv by (simp add: sys_inv_def unfinished_def)
  have "writer_st (?ws ! j) st'" if "j < length ?ws" "j \<noteq> k" for j
  proof (cases "bw_done (?ws ! k)")
    case True
    with that inv keeps(2) show ?thesis by (auto simp: sys_inv_def intro: writer_st_keeps)
  next
    case False
    have "writer_st (?ws ! j) (sy_store s)" using inv that(1) by (simp add: sys_inv_def)
    then show ?thesis
      by (rule writer_st_keeps [OF _ keeps(1)]) (use other_writers [OF d that(1) k that(2) _ False] in auto)
  qed
  then have "\<forall>w \<in> set (?ws[k := w']). writer_st w st'"
    using w'(1) k by (auto simp: in_set_conv_nth nth_list_update)
  with st' distinct_update [OF d k w'(2,3)] show ?thesis by (simp add: sys_inv_def unfinished_def)
qed

lemma copy_b_done: "bw_done w \<Longrightarrow> copy_b e i w ps end b = (r, w', b') \<Longrightarrow> w' = w \<and> b' = b"
proof (induction ps arbitrary: i)
  case (Cons p ps)
  then show ?case by (cases "p = []") (auto simp: write_b_def)
qed simp

lemma Commit_writer: "Commit L e w name opts st = (r, w', st') \<Longrightarrow> bw_tmp w' = bw_tmp w \<and> bw_b w' = bw_b w \<and> bw_done w'"
  by (auto simp: Commit_def commit_b_def split: prod.splits if_splits)

lemma Abort_writer: "Abort e w st = (w', st') \<Longrightarrow> bw_tmp w' = bw_tmp w \<and> bw_b w' = bw_b w \<and> bw_done w'"
  by (auto simp: Abort_def abort_b_def split: prod.splits if_splits)

lemma writer_st_done: "bw_done w \<Longrightarrow> writer_st w st \<longleftrightarrow> bw_b w < length (st_handles st)"
  by (simp add: writer_st_def writer_ok_def)

lemma fresh_writers: "fresh e s \<Longrightarrow> \<forall>w \<in> set (sy_writers s). bw_done w \<or> bw_tmp w \<notin> set (env_tmp_names e)"
  by (simp add: fresh_def list_all_iff)

lemma sys_inv_new_writer:
  assumes inv: "sys_inv L s" and f: "fresh e s" and run: "NewBlobWriter e bn (sy_store s) = (Inr w, st')"
  shows "sys_inv L (s\<lparr>sy_store := st', sy_writers := sy_writers s @ [w]\<rparr>)"
proof -
  have i: "store_inv L (sy_store s)" using inv by (simp add: sys_inv_def)
  note n = NewBlobWriter_inv [OF i run] and k = keeps_NewBlobWriter [OF i run]
  have "sys_inv L (s\<lparr>sy_store := st'\<rparr>)"
    using n(1) by (intro sys_inv_store [OF inv _ k(1) fresh_writers [OF f]]) simp
  moreover have "bw_tmp w \<notin> bw_tmp ` set (unfinished s)"
    using k(2) [OF refl] fresh_writers [OF f] by (auto simp: unfinished_def)
  ultimately show ?thesis using n(2) [OF refl] by (auto simp: sys_inv_def unfinished_def)
qed

text \<open>A writer with another content or state on the same handle.\<close>

lemma sys_inv_write:
  assumes inv: "sys_inv L s" and k: "k < length (sy_writers s)"
    and run: "Copy e (sy_writers s ! k) ps en (sy_store s) = (rw, w', st')"
  shows "sys_inv L (s\<lparr>sy_store := st', sy_writers := (sy_writers s)[k := w']\<rparr>)"
proof -
  let ?w = "sy_writers s ! k"
  have i: "store_inv L (sy_store s)" and w: "writer_st ?w (sy_store s)" using inv k by (auto simp: sys_inv_def)
  obtain n er where r: "rw = (n, er)" by (cases rw)
  obtain b' where c: "copy_b e 0 ?w ps en (view (sy_store s) (bw_b ?w)) = (rw, w', b')"
      and st': "st' = put_view (bw_b ?w) b' (sy_store s)"
    using run by (auto simp: Copy_def split: prod.splits)
  have wo: "writer_ok ?w (view (sy_store s) (bw_b ?w))" using w by (simp add: writer_st_def)
  have srt: "tsorted (st_root (sy_store s))" using i by (simp add: store_inv_def)
  note b' = copy_b_inv [OF view_inv [OF i] wo c] and kc = keeps_Copy [OF i run]
  have "view st' (bw_b ?w) = b'" unfolding st' by (rule view_put_view [OF srt]) (use b' in auto)
  then have "writer_st w' st'" using b' w kc(3) by (simp add: writer_st_def) (simp add: st' bk)
  moreover have "keeps {} (sy_store s) st'" if "bw_done ?w"
    using copy_b_done [OF that c] srt unfolding st' by (auto intro!: keeps_put_view)
  ultimately show ?thesis
    using Copy_inv(1) [OF i w run [unfolded r]] kc by (intro sys_inv_writer [OF inv k]) auto
qed

lemma sys_inv_finish:
  assumes inv: "sys_inv L s" and k: "k < length (sy_writers s)" and st': "store_inv L st'"
    and keeps: "\<And>N. keeps N (sy_store s) st'"
    and w': "bw_tmp w' = bw_tmp (sy_writers s ! k)" "bw_b w' = bw_b (sy_writers s ! k)" "bw_done w'"
  shows "sys_inv L (s\<lparr>sy_store := st', sy_writers := (sy_writers s)[k := w']\<rparr>)"
proof -
  have "writer_st (sy_writers s ! k) (sy_store s)" using inv k by (simp add: sys_inv_def)
  then have "writer_st w' st'"
    using keeps [of "{}"] w' by (auto simp: writer_st_done writer_st_def writer_ok_def keeps_def)
  then show ?thesis using w' by (intro sys_inv_writer [OF inv k st' keeps keeps]) auto
qed

text \<open>Opening a directory the server left consistent, or a new one.\<close>

definition root_ok :: "lib \<Rightarrow> (string, bucket_dir) table \<Rightarrow> bool" where
  "root_ok L root \<longleftrightarrow> tsorted root \<and> (\<forall>name d. map_of root name = Some d \<longrightarrow> dir_inv L d)"

lemma root_ok_empty: "root_ok L []"
  by (simp add: root_ok_def tbl_inv)

lemma Open_inv: "root_ok L root \<Longrightarrow> Open e root = Inr st \<Longrightarrow> store_inv L st"
  by (auto simp: Open_def root_ok_def store_inv_def handles_ok_def tbl_inv split: if_splits)

lemma step_inv:
  assumes json: "json_decodes L" and "step L s s'" and inv: "sys_inv L s"
  shows "sys_inv L s'"
proof -
  have i: "store_inv L (sy_store s)" using inv by (simp add: sys_inv_def)
  have quiet_step: "sys_inv L (s\<lparr>sy_store := st'\<rparr>)"
    if "store_inv L st'" "keeps {} (sy_store s) st'" for st'
    by (rule sys_inv_store [OF inv that]) simp
  from assms(2) show ?thesis
  proof cases
    case (create_bucket e bn r st')
    then show ?thesis using CreateBucket_inv [OF i] keeps_CreateBucket [OF i] quiet_step by blast
  next
    case (get_bucket e bn r st')
    then show ?thesis
      using GetBucket_inv [OF i] quiet_step keeps_reads [OF i] by blast
  next
    case (list_buckets e rl st')
    then show ?thesis using ListBuckets_inv [OF i] keeps_ListBuckets [OF i] quiet_step by blast
  next
    case (delete_bucket e bn ru st')
    then show ?thesis using DeleteBucket_inv [OF i] keeps_DeleteBucket [OF i] quiet_step by blast
  next
    case (get_object e bn n ro st')
    then show ?thesis
      using GetObject_inv [OF i] quiet_step keeps_reads [OF i] by blast
  next
    case (open_object e bn n rc st')
    then show ?thesis
      using OpenObject_inv [OF i open_object(2)] keeps_reads(3) [OF i open_object(2)] by (simp add: quiet_step)
  next
    case (list_objects e bn req rq st')
    then show ?thesis
      using ListObjects_inv [OF i list_objects(2)] keeps_reads(4) [OF i list_objects(2)] by (simp add: quiet_step)
  next
    case (delete_object e bn n conds ru st')
    then show ?thesis using DeleteObject_inv(1) [OF i] keeps_DeleteObject [OF i] quiet_step by blast
  next
    case (put_object e bn n ps en opts ro st')
    then show ?thesis
      using sys_inv_store [OF inv PutObject_inv(1) [OF i json put_object(3)] keeps_PutObject [OF i json put_object(3)]
        fresh_writers [OF put_object(2)]] by simp
  next
    case (temp_file e bn rt st')
    then show ?thesis
      using sys_inv_store [OF inv _ keeps_TempFile [OF i temp_file(3)] fresh_writers [OF temp_file(2)]]
        TempFile_inv [OF i temp_file(3)] by simp
  next
    case (open_writer e bn w st')
    then show ?thesis using sys_inv_new_writer [OF inv] by blast
  next
    case (open_writer_failed e bn er st')
    then show ?thesis
      using sys_inv_store [OF inv _ keeps_NewBlobWriter(1) [OF i open_writer_failed(3)] fresh_writers [OF open_writer_failed(2)]]
        NewBlobWriter_inv(1) [OF i open_writer_failed(3)] by simp
  next
    case (write_body k e ps en rw w' st')
    then show ?thesis using sys_inv_write [OF inv] by blast
  next
    case (abort k e w' st')
    then show ?thesis
      using sys_inv_finish [OF inv abort(2) _ keeps_Abort [OF i abort(3)]] Abort_inv [OF i abort(3)]
        Abort_writer [OF abort(3)] by simp
  next
    case (commit k e n opts ro w' st')
    have w: "writer_st (sy_writers s ! k) (sy_store s)" using inv commit(2) by (simp add: sys_inv_def)
    from commit show ?thesis
      using sys_inv_finish [OF inv commit(2) _ keeps_Commit [OF i commit(3)]] Commit_inv(1) [OF i w json commit(3)]
        Commit_writer [OF commit(3)] by simp
  qed
qed

lemma reachable_inv:
  assumes "json_decodes L" "root_ok L root" "reachable L root s"
  shows "sys_inv L s"
  using assms(3)
proof induction
  case (start e st)
  then show ?case using Open_inv [OF assms(2)] by (simp add: sys_inv_def unfinished_def)
next
  case (move s s')
  then show ?case using step_inv [OF assms(1)] by blast
qed

end
