(* ===== verification/S3_Multipart.thy ===== *)
theory S3_Multipart
  imports S3_Objects Store_Machine
begin

text \<open>
  Multipart uploads of the S3 server, \<^verbatim>\<open>pkg/s3/multipart.go\<close>. The parts are staged as files of the
  bucket's \<^verbatim>\<open>tmp\<close> directory until the upload is completed or aborted.
\<close>

section \<open>Part files\<close>

definition on_dir :: "string \<Rightarrow> (bucket \<Rightarrow> bucket) \<Rightarrow> store \<Rightarrow> store" where
  "on_dir bn f st =
     (case map_of (st_root st) bn of
        None \<Rightarrow> st
      | Some d \<Rightarrow> set_dir bn (b_dir (f (dir_bucket bn (Some d)))) st)"

definition append_at :: "string \<Rightarrow> string \<Rightarrow> bytes \<Rightarrow> store \<Rightarrow> store" where
  "append_at bn n p st = on_dir bn (appendTmp n p) st"

definition remove_at :: "env \<Rightarrow> string \<Rightarrow> string \<Rightarrow> store \<Rightarrow> store" where
  "remove_at e bn n st = on_dir bn (removeTmp e n) st"

text \<open>\<^verbatim>\<open>io.Copy(io.MultiWriter(tmp, hasher), body)\<close>: bytes written, the error, and what the hash
  has been given.\<close>

fun copyPart ::
  "env \<Rightarrow> nat \<Rightarrow> string \<Rightarrow> string \<Rightarrow> bytes list \<Rightarrow> read_end \<Rightarrow> bytes \<Rightarrow> store \<Rightarrow> (nat \<times> store_error option) \<times> bytes \<times> store" where
  "copyPart e i bn n [] en h st = ((0, case en of EOF \<Rightarrow> None | ReadErr m \<Rightarrow> Some (ErrBody m)), h, st)"
| "copyPart e i bn n (p # ps) en h st =
     (if p = [] then copyPart e i bn n ps en h st
      else (case env_accepts e i of
              Some k \<Rightarrow> ((min k (length p), Some (ErrCall Sys_Write)), h, append_at bn n (take k p) st)
            | None \<Rightarrow>
                (case copyPart e (Suc i) bn n ps en (h @ p) (append_at bn n p st) of
                   ((m, err), h', st') \<Rightarrow> ((length p + m, err), h', st'))))"

definition removeParts :: "env \<Rightarrow> multipartUpload \<Rightarrow> store \<Rightarrow> store" where
  "removeParts e up st = fold (\<lambda>(k, p). remove_at e (sp_bucket p) (sp_tmp p)) (mu_parts up) st"

section \<open>The handlers\<close>

definition initiateMultipartUpload ::
  "(nat \<Rightarrow> env) \<Rightarrow> bytes \<Rightarrow> request \<Rightarrow> string \<Rightarrow> string \<Rightarrow> s3_server \<Rightarrow> s3_response \<times> s3_server" where
  "initiateMultipartUpload es idBytes r bkt key s =
     (case s3_call (GetBucket (es 0) bkt) s of
        (Inl err, s') \<Rightarrow> (writeStoreError err (''/'' @ bkt), s')
      | (Inr _, s') \<Rightarrow>
          let uploadID = hexEncode idBytes;
              up = \<lparr>mu_bucket = bkt, mu_key = key, mu_contentType = header_get r ''Content-Type'',
                    mu_metadata = metadataFromHeaders (rq_Header r), mu_parts = [], mu_done = False\<rparr>
          in (writeXML 200 (InitiateMultipartUploadResult \<lparr>im_Bucket = bkt, im_Key = key, im_UploadID = uploadID\<rparr>),
              s'\<lparr>s3_uploads := tput uploadID up (s3_uploads s')\<rparr>))"

definition noSuchUpload :: "string \<Rightarrow> string \<Rightarrow> string \<Rightarrow> s3_response" where
  "noSuchUpload msg bkt key = writeS3Error 404 ''NoSuchUpload'' (Text msg) (resource bkt key)"

definition lookupUpload :: "request \<Rightarrow> string \<Rightarrow> string \<Rightarrow> s3_server \<Rightarrow> s3_response + multipartUpload" where
  "lookupUpload r bkt key s =
     (case map_of (s3_uploads s) (query_get r ''uploadId'') of
        None \<Rightarrow> Inl (noSuchUpload ''The specified upload does not exist.'' bkt key)
      | Some up \<Rightarrow>
          if mu_bucket up \<noteq> bkt \<or> mu_key up \<noteq> key
          then Inl (noSuchUpload ''The specified upload does not exist.'' bkt key) else Inr up)"

definition set_upload :: "request \<Rightarrow> multipartUpload \<Rightarrow> s3_server \<Rightarrow> s3_server" where
  "set_upload r up s = s\<lparr>s3_uploads := tput (query_get r ''uploadId'') up (s3_uploads s)\<rparr>"

definition del_upload :: "request \<Rightarrow> s3_server \<Rightarrow> s3_server" where
  "del_upload r s = s\<lparr>s3_uploads := tdel (query_get r ''uploadId'') (s3_uploads s)\<rparr>"

definition uploadPart ::
  "lib \<Rightarrow> (nat \<Rightarrow> env) \<Rightarrow> (nat \<Rightarrow> nat \<times> bool) \<Rightarrow> request \<Rightarrow> string \<Rightarrow> string \<Rightarrow> s3_server \<Rightarrow> s3_response \<times> s3_server" where
  "uploadPart L es sched r bkt key s =
     (case lookupUpload r bkt key s of
        Inl resp \<Rightarrow> (resp, s)
      | Inr up \<Rightarrow>
          (case Atoi (query_get r ''partNumber'') of (partNumber, perr) \<Rightarrow>
             if perr \<noteq> None \<or> partNumber < 1 \<or> 10000 < partNumber
             then (writeS3Error 400 ''InvalidArgument'' (Text ''invalid partNumber'') (resource bkt key), s)
             else
               (case s3_call (TempFile (es 0) bkt) s of
                  (Inl err, s1) \<Rightarrow> (writeStoreError err (resource bkt key), s1)
                | (Inr tmp, s1) \<Rightarrow>
                    (case requestBody sched r of (ps, en) \<Rightarrow>
                       (case copyPart (es 1) 0 bkt tmp ps en [] (s3_store s1) of
                          ((sz, cerr), h, st2) \<Rightarrow>
                            let s2 = s1\<lparr>s3_store := st2\<rparr>;
                                err = (if cerr = None \<and> env_fails (es 1) Sys_CloseTemp then Some (ErrCall Sys_CloseTemp) else cerr)
                            in (case err of
                                  Some er \<Rightarrow>
                                    (writeS3Error 500 ''InternalError'' (Error_text [] er) (resource bkt key),
                                     s2\<lparr>s3_store := remove_at (es 1) bkt tmp st2\<rparr>)
                                | None \<Rightarrow>
                                    let part = \<lparr>sp_bucket = bkt, sp_tmp = tmp, sp_size = int sz, sp_md5 = lib_md5 L h\<rparr>
                                    in if mu_done up
                                       then (noSuchUpload ''upload already completed'' bkt key,
                                             s2\<lparr>s3_store := remove_at (es 1) bkt tmp st2\<rparr>)
                                       else
                                         let st3 = (case map_of (mu_parts up) partNumber of
                                                      None \<Rightarrow> st2
                                                    | Some prev \<Rightarrow> remove_at (es 1) (sp_bucket prev) (sp_tmp prev) st2)
                                         in (respond 200 [(canonicalKey ''ETag'', [CHR 0x22] @ hexEncode (sp_md5 part) @ [CHR 0x22])] No_body,
                                             set_upload r (up\<lparr>mu_parts := tput partNumber part (mu_parts up)\<rparr>)
                                               (s2\<lparr>s3_store := st3\<rparr>))))))))"

text \<open>The checks of the list of parts.\<close>

fun checkParts :: "multipartUpload \<Rightarrow> string \<Rightarrow> string \<Rightarrow> completedPart list \<Rightarrow> s3_response option" where
  "checkParts up bkt key [] = None"
| "checkParts up bkt key (q # qs) =
     (case map_of (mu_parts up) (cp_PartNumber q) of
        None \<Rightarrow> Some (writeS3Error 400 ''InvalidPart''
                  (Text_int ''part '' (cp_PartNumber q) '' was not uploaded'') (resource bkt key))
      | Some part \<Rightarrow>
          let want = Trim (cp_ETag q) [CHR 0x22]
          in if want \<noteq> [] \<and> want \<noteq> hexEncode (sp_md5 part)
             then Some (writeS3Error 400 ''InvalidPart''
                    (Text_int ''part '' (cp_PartNumber q) '' etag mismatch'') (resource bkt key))
             else checkParts up bkt key qs)"

text \<open>Copying the part files into the writer; \<open>i\<close> counts the parts.\<close>

fun copyParts ::
  "(nat \<Rightarrow> env) \<Rightarrow> nat \<Rightarrow> multipartUpload \<Rightarrow> blob_writer \<Rightarrow> completedPart list \<Rightarrow> store
   \<Rightarrow> store_error option \<times> blob_writer \<times> store" where
  "copyParts es i up w [] st = (None, w, st)"
| "copyParts es i up w (q # qs) st =
     (case map_of (mu_parts up) (cp_PartNumber q) of
        None \<Rightarrow> (Some (Panicked ''nil part''), w, st)
      | Some part \<Rightarrow>
          (case (if env_fails (es i) Sys_OpenBlob then None else tmp_at st (sp_bucket part) (sp_tmp part)) of
             None \<Rightarrow> (Some (ErrCall Sys_OpenBlob), w, st)
           | Some c \<Rightarrow>
               (case Copy (es i) w (file_chunks c) EOF st of
                  ((n, Some er), w', st') \<Rightarrow> (Some er, w', st')
                | ((n, None), w', st') \<Rightarrow> copyParts es (Suc i) up w' qs st')))"

text \<open>The end of \<^verbatim>\<open>completeMultipartUpload\<close>, once the parts are checked.\<close>

definition assembleUpload ::
  "lib \<Rightarrow> (nat \<Rightarrow> env) \<Rightarrow> request \<Rightarrow> string \<Rightarrow> string \<Rightarrow> multipartUpload \<Rightarrow> completedPart list \<Rightarrow> s3_server
   \<Rightarrow> s3_response \<times> s3_server" where
  "assembleUpload L es r bkt key up parts s =
     (case s3_call (NewBlobWriter (es 0) bkt) s of
        (Inl err, s1) \<Rightarrow> (writeStoreError err (resource bkt key), s1)
      | (Inr w, s1) \<Rightarrow>
          (case copyParts es 1 up w parts (s3_store s1) of
             (Some er, w', st2) \<Rightarrow>
               (writeS3Error 500 ''InternalError'' (Error_text [] er) (resource bkt key),
                s1\<lparr>s3_store := snd (Abort (es (Suc (length parts))) w' st2)\<rparr>)
           | (None, w', st2) \<Rightarrow>
               (case Commit L (es (Suc (length parts))) w' key
                       \<lparr>po_ContentType = mu_contentType up, po_Metadata = mu_metadata up,
                        po_Conditions = no_conditions\<rparr> st2 of
                  (Inl err, _, st3) \<Rightarrow> (writeStoreError err (resource bkt key), s1\<lparr>s3_store := st3\<rparr>)
                | (Inr i, _, st3) \<Rightarrow>
                    (writeXML 200 (CompleteMultipartUploadResult
                       \<lparr>cm_Location = resource bkt key, cm_Bucket = bkt, cm_Key = key, cm_ETag = etagFor i\<rparr>),
                     del_upload r (s1\<lparr>s3_store := removeParts (es (Suc (Suc (length parts)))) up st3\<rparr>)))))"

definition completeMultipartUpload ::
  "lib \<Rightarrow> (body \<Rightarrow> string + completedPart list) \<Rightarrow> (nat \<Rightarrow> env) \<Rightarrow> request \<Rightarrow> string \<Rightarrow> string \<Rightarrow> s3_server
   \<Rightarrow> s3_response \<times> s3_server" where
  "completeMultipartUpload L xml es r bkt key s =
     (case lookupUpload r bkt key s of
        Inl resp \<Rightarrow> (resp, s)
      | Inr up \<Rightarrow>
          (case xml (rq_Body r) of
             Inl m \<Rightarrow> (writeS3Error 400 ''MalformedXML'' (Other_error [] m) (resource bkt key), s)
           | Inr parts \<Rightarrow>
               if parts = [] then (writeS3Error 400 ''InvalidRequest'' (Text ''no parts specified'') (resource bkt key), s)
               else if \<not> sorted (map cp_PartNumber parts)
               then (writeS3Error 400 ''InvalidPartOrder''
                       (Text ''The list of parts was not in ascending order.'') (resource bkt key), s)
               else if mu_done up then (noSuchUpload ''upload already completed'' bkt key, s)
               else
                 (case checkParts up bkt key parts of
                    Some resp \<Rightarrow> (resp, s)
                  | None \<Rightarrow> assembleUpload L es r bkt key up parts s)))"

definition abortMultipartUpload ::
  "(nat \<Rightarrow> env) \<Rightarrow> request \<Rightarrow> string \<Rightarrow> string \<Rightarrow> s3_server \<Rightarrow> s3_response \<times> s3_server" where
  "abortMultipartUpload es r bkt key s =
     (case lookupUpload r bkt key s of
        Inl resp \<Rightarrow> (resp, s)
      | Inr up \<Rightarrow> (respond 204 [] No_body, del_upload r (s\<lparr>s3_store := removeParts (es 0) up (s3_store s)\<rparr>)))"

end
