(* ===== verification/S3_Parts.thy ===== *)
theory S3_Parts
  imports S3_Multipart
begin

text \<open>
  What the S3 server's staging of parts does to the store: writing and removing part files keeps the
  store consistent and its objects as they are, and touches no other temporary file.
\<close>

lemma keeps_tmp: "keeps N st st' \<Longrightarrow> n \<notin> N \<Longrightarrow> tmp_at st' bn n = Some c \<Longrightarrow> tmp_at st bn n = Some c"
  unfolding keeps_def by (metis option.distinct(1))

lemma on_dir_tmp:
  assumes inv: "store_inv L st"
    and f: "\<And>b. bucket_inv L b \<Longrightarrow> bucket_inv L (f b)" "\<And>b. b_db (f b) = b_db b" "\<And>b. dir_objects (f b) = dir_objects b"
      "\<And>b. b_name (f b) = b_name b" "\<And>b. b_dir (f b) = None \<longleftrightarrow> b_dir b = None"
  shows "store_inv L (on_dir bn f st)" "live_st L (on_dir bn f st) = live_st L st"
    "st_handles (on_dir bn f st) = st_handles st" "st_buckets (on_dir bn f st) = st_buckets st"
    "files_at (on_dir bn f st) n = files_at st n"
    "tmp_at (on_dir bn f st) bn' n =
      (if bn' = bn then map_of (dir_tmp (f (dir_bucket bn (map_of (st_root st) bn)))) n else tmp_at st bn' n)"
proof -
  have st: "tsorted (st_root st)" using inv by (simp add: store_inv_def)
  have "store_inv L (on_dir bn f st) \<and> live_st L (on_dir bn f st) = live_st L st \<and>
    st_handles (on_dir bn f st) = st_handles st \<and> st_buckets (on_dir bn f st) = st_buckets st \<and>
    files_at (on_dir bn f st) n = files_at st n \<and> tmp_at (on_dir bn f st) bn' n =
      (if bn' = bn then map_of (dir_tmp (f (dir_bucket bn (map_of (st_root st) bn)))) n else tmp_at st bn' n)"
  proof (cases "map_of (st_root st) bn")
    case None
    have "b_dir (f (dir_bucket bn None)) = None" by (simp add: f(5) dir_bucket_def)
    then have "map_of (dir_tmp (f (dir_bucket bn None))) n = None" by (simp add: dir_tmp_def)
    with None inv show ?thesis by (simp add: on_dir_def tmp_at_def)
  next
    case (Some d)
    let ?b = "dir_bucket bn (Some d)"
    obtain d' where d': "b_dir (f ?b) = Some d'" using f(5) [of ?b] by (cases "b_dir (f ?b)") (auto simp: dir_bucket_def)
    have b: "bucket_inv L ?b" using inv Some by (simp add: bucket_inv_dir dir_bucket_def store_inv_def)
    have di: "dir_inv L d'" using f(1) [OF b] d' by (simp add: bucket_inv_dir)
    have db: "bd_db d' = bd_db d" "bd_objects d' = bd_objects d"
      using f(2) [of ?b] f(3) [of ?b] d' by (simp_all add: b_db_def dir_objects_def dir_bucket_def)
    have r: "on_dir bn f st = set_dir bn (Some d') st" using Some d' by (simp add: on_dir_def)
    have root: "\<exists>x'. map_of (st_root (set_dir bn (Some d') st)) m = Some x' \<and> bd_db x' \<noteq> None"
      if "map_of (st_root st) m = Some x" "bd_db x \<noteq> None" for m x
      using that st Some db(1) by (auto simp: bk)
    have ok: "handles_ok st" using inv by (simp add: store_inv_def)
    have "handles_ok (set_dir bn (Some d') st)"
      unfolding handles_ok_def
    proof (intro conjI allI impI)
      fix m h assume "map_of (st_buckets (set_dir bn (Some d') st)) m = Some h"
      then have "map_of (st_buckets st) m = Some h" by (simp add: bk)
      with ok have "h < length (st_handles st) \<and> h_name (st_handles st ! h) = m \<and> \<not> h_closed (st_handles st ! h) \<and>
          (\<exists>x. map_of (st_root st) m = Some x \<and> bd_db x \<noteq> None)" unfolding handles_ok_def by blast
      with root show "h < length (st_handles (set_dir bn (Some d') st))" "h_name (st_handles (set_dir bn (Some d') st) ! h) = m"
        "\<not> h_closed (st_handles (set_dir bn (Some d') st) ! h)"
        "\<exists>x. map_of (st_root (set_dir bn (Some d') st)) m = Some x \<and> bd_db x \<noteq> None" by (auto simp: bk)
    qed (use ok in \<open>simp add: handles_ok_def bk\<close>)
    then have i: "store_inv L (set_dir bn (Some d') st)"
      using inv st di by (auto simp: store_inv_def bk split: if_splits)
    have "live L (f ?b) = live L ?b" by (rule live_mono [OF b]) (simp_all add: f)
    then have "live L (dir_bucket bn (Some d')) = live L ?b"
      using live_dir [of L "f ?b"] d' f(4) [of ?b] by (simp add: dir_bucket_def)
    then have "live_st L (set_dir bn (Some d') st) = live_st L st"
      using st Some by (auto simp: live_st_set_dir live_st_def)
    with i r Some d' db(2) st show ?thesis
      by (auto simp: bk tmp_at_set_dir dir_tmp_def files_at_def split: option.splits)
  qed
  then show "store_inv L (on_dir bn f st)" "live_st L (on_dir bn f st) = live_st L st"
    "st_handles (on_dir bn f st) = st_handles st" "st_buckets (on_dir bn f st) = st_buckets st"
    "files_at (on_dir bn f st) n = files_at st n"
    "tmp_at (on_dir bn f st) bn' n =
      (if bn' = bn then map_of (dir_tmp (f (dir_bucket bn (map_of (st_root st) bn)))) n else tmp_at st bn' n)" by blast+
qed

lemma dir_tmp_at: "map_of (dir_tmp (dir_bucket bn (map_of (st_root st) bn))) n = tmp_at st bn n"
  by (simp add: dir_tmp_def dir_bucket_def tmp_at_def split: option.split)

lemma dir_bucket_inv: "store_inv L st \<Longrightarrow> bucket_inv L (dir_bucket bn (map_of (st_root st) bn))"
  by (simp add: bucket_inv_dir dir_bucket_def store_inv_def split: option.split)

lemma appendTmp_inv: "bucket_inv L b \<Longrightarrow> bucket_inv L (appendTmp n p b)"
  by (auto simp: bucket_inv_def files_ok_def blobs_on_disk_def bk tbl_inv split: option.splits)

lemma removeTmp_inv: "bucket_inv L b \<Longrightarrow> bucket_inv L (removeTmp e n b)"
  by (auto simp: bucket_inv_def files_ok_def blobs_on_disk_def bk tbl_inv split: option.splits)

lemma append_at_store:
  assumes "store_inv L st"
  shows "store_inv L (append_at bn n p st)" "live_st L (append_at bn n p st) = live_st L st"
    "tmp_at (append_at bn n p st) bn' m =
      (if bn' = bn \<and> m = n then map_option (\<lambda>c. c @ p) (tmp_at st bn n) else tmp_at st bn' m)"
    "keeps {n} st (append_at bn n p st)" "st_handles (append_at bn n p st) = st_handles st"
    "st_buckets (append_at bn n p st) = st_buckets st" "files_at (append_at bn n p st) k = files_at st k"
proof -
  note t = on_dir_tmp [where f = "appendTmp n p", OF assms appendTmp_inv]
  show at: "tmp_at (append_at bn n p st) bn' m =
      (if bn' = bn \<and> m = n then map_option (\<lambda>c. c @ p) (tmp_at st bn n) else tmp_at st bn' m)" for bn' m
    using bucket_inv_sorted_tmp [OF dir_bucket_inv [OF assms, of bn]]
    by (simp add: append_at_def t bk tbl_simps dir_tmp_at split: option.split)
  show "store_inv L (append_at bn n p st)" "live_st L (append_at bn n p st) = live_st L st"
    "st_handles (append_at bn n p st) = st_handles st" "st_buckets (append_at bn n p st) = st_buckets st"
    "files_at (append_at bn n p st) k = files_at st k"
    by (simp_all add: append_at_def t bk)
  then show "keeps {n} st (append_at bn n p st)" by (auto simp: keeps_def at)
qed

lemma remove_at_store:
  assumes "store_inv L st"
  shows "store_inv L (remove_at e bn n st)" "live_st L (remove_at e bn n st) = live_st L st"
    "keeps N st (remove_at e bn n st)" "st_handles (remove_at e bn n st) = st_handles st"
    "st_buckets (remove_at e bn n st) = st_buckets st" "files_at (remove_at e bn n st) k = files_at st k"
proof -
  note t = on_dir_tmp [where f = "removeTmp e n", OF assms removeTmp_inv]
  have at: "tmp_at (remove_at e bn n st) bn' m \<in> {None, tmp_at st bn' m}" for bn' m
    using bucket_inv_sorted_tmp [OF dir_bucket_inv [OF assms, of bn]]
    by (auto simp: remove_at_def t bk tbl_simps dir_tmp_at split: option.split)
  show "store_inv L (remove_at e bn n st)" "live_st L (remove_at e bn n st) = live_st L st"
    "st_handles (remove_at e bn n st) = st_handles st" "st_buckets (remove_at e bn n st) = st_buckets st"
    "files_at (remove_at e bn n st) k = files_at st k"
    by (simp_all add: remove_at_def t bk)
  with at show "keeps N st (remove_at e bn n st)" by (force simp: keeps_def)
qed

section \<open>Copying into a part file\<close>

lemma copyPart_store:
  assumes "store_inv L st" "copyPart e i bn n ps en h st = ((m, err), h', st')"
  shows "store_inv L st' \<and> live_st L st' = live_st L st \<and> keeps {n} st st' \<and> st_handles st' = st_handles st \<and>
     st_buckets st' = st_buckets st \<and> files_at st' k = files_at st k \<and>
     (err = None \<longrightarrow> h' = h @ concat ps \<and> m = length (concat ps) \<and> en = EOF \<and>
        tmp_at st' bn n = map_option (\<lambda>c. c @ concat ps) (tmp_at st bn n))"
  using assms
proof (induction e i bn n ps en h st arbitrary: m err h' st' rule: copyPart.induct)
  case (1 e i bn n en h st)
  then show ?case by (auto simp: keeps_refl option.map_ident split: read_end.splits)
next
  case (2 e i bn n p ps en h st)
  note a = append_at_store [OF 2(3)]
  show ?case
  proof (cases "p = []")
    case True
    with 2(1,3,4) show ?thesis by simp
  next
    case False
    show ?thesis
    proof (cases "env_accepts e i")
      case None
      obtain m2 err2 h2 st2 where r: "copyPart e (Suc i) bn n ps en (h @ p) (append_at bn n p st) = ((m2, err2), h2, st2)"
        by (metis surj_pair)
      note ih = 2(2) [OF False None a(1) r]
      have st': "m = length p + m2" "err = err2" "h' = h2" "st' = st2" using 2(4) False None r by auto
      have "keeps {n} st st2" using keeps_trans [OF a(4)] ih by blast
      with ih a st' show ?thesis by (auto simp: option.map_comp comp_def)
    next
      case (Some q)
      with 2(4) False a show ?thesis by auto
    qed
  qed
qed

lemma removeParts_store:
  assumes "store_inv L st"
  shows "store_inv L (removeParts e up st) \<and> live_st L (removeParts e up st) = live_st L st \<and>
    keeps N st (removeParts e up st) \<and> st_handles (removeParts e up st) = st_handles st"
proof -
  have "store_inv L (fold (\<lambda>(k, p). remove_at e (sp_bucket p) (sp_tmp p)) ps st) \<and>
      live_st L (fold (\<lambda>(k, p). remove_at e (sp_bucket p) (sp_tmp p)) ps st) = live_st L st \<and>
      keeps N st (fold (\<lambda>(k, p). remove_at e (sp_bucket p) (sp_tmp p)) ps st) \<and>
      st_handles (fold (\<lambda>(k, p). remove_at e (sp_bucket p) (sp_tmp p)) ps st) = st_handles st" for ps
    using assms
  proof (induction ps arbitrary: st)
    case (Cons q ps)
    obtain k p where q: "q = (k, p)" by force
    note r = remove_at_store [OF Cons.prems, where e = e and bn = "sp_bucket p" and n = "sp_tmp p"]
    from Cons.IH [OF r(1)] r keeps_trans [OF r(3)] show ?case by (simp add: q)
  qed (simp add: keeps_refl)
  then show ?thesis by (simp add: removeParts_def)
qed

section \<open>Copying part files into a writer\<close>

text \<open>The bytes a list of parts stands for, as far as the files are there.\<close>

definition part_bytes :: "multipartUpload \<Rightarrow> store \<Rightarrow> completedPart list \<Rightarrow> bytes" where
  "part_bytes up st qs =
     concat (map (\<lambda>q. case map_of (mu_parts up) (cp_PartNumber q) of
        None \<Rightarrow> [] | Some p \<Rightarrow> (case tmp_at st (sp_bucket p) (sp_tmp p) of None \<Rightarrow> [] | Some c \<Rightarrow> c)) qs)"

lemma copyParts_store:
  assumes "store_inv L st" "writer_st w st" "copyParts es i up w qs st = (er, w', st')"
    "\<forall>k p. map_of (mu_parts up) k = Some p \<longrightarrow> sp_tmp p \<noteq> bw_tmp w"
  shows "store_inv L st' \<and> live_st L st' = live_st L st \<and> keeps {bw_tmp w} st st' \<and> files_at st' n = files_at st n \<and>
    bw_tmp w' = bw_tmp w \<and> bw_b w' = bw_b w \<and> bw_done w' = bw_done w \<and>
    (er = None \<longrightarrow> writer_st w' st' \<and> st_buckets st' = st_buckets st \<and> bw_sha w' = bw_sha w @ part_bytes up st qs \<and>
       (\<forall>q \<in> set qs. case map_of (mu_parts up) (cp_PartNumber q) of
          None \<Rightarrow> False | Some p \<Rightarrow> tmp_at st (sp_bucket p) (sp_tmp p) \<noteq> None))"
  using assms
proof (induction qs arbitrary: i w st er w' st')
  case Nil
  then show ?case by (simp add: keeps_refl part_bytes_def)
next
  case (Cons q qs)
  note 2 = Cons.IH Cons.prems
  show ?case
  proof (cases "map_of (mu_parts up) (cp_PartNumber q)")
    case None
    with 2(2-5) show ?thesis by (auto simp: keeps_refl)
  next
    case (Some part)
    show ?thesis
    proof (cases "if env_fails (es i) Sys_OpenBlob then None else tmp_at st (sp_bucket part) (sp_tmp part)")
      case None
      with Some 2(2-5) show ?thesis by (auto simp: keeps_refl)
    next
      case c: (Some c)
      obtain m cer w1 st1 where cp: "Copy (es i) w (file_chunks c) EOF st = ((m, cer), w1, st1)" by (metis surj_pair)
      note ci = Copy_inv [OF 2(2,3) cp] and k = keeps_Copy [OF 2(2) cp]
      note fl = Copy_files [OF 2(2,3) cp, of n]
      show ?thesis
      proof (cases cer)
        case err: (Some er1)
        with Some c cp 2(4) have "er = Some er1" "w' = w1" "st' = st1" by auto
        with ci(1) k fl show ?thesis by simp
      next
        case ok: None
        note ci2 = ci(2) [OF ok]
        have run: "copyParts es (Suc i) up w1 qs st1 = (er, w', st')" using 2(4) Some c cp ok by simp
        have p1: "\<forall>k p. map_of (mu_parts up) k = Some p \<longrightarrow> sp_tmp p \<noteq> bw_tmp w1" using 2(5) k(2) by simp
        have ih: "store_inv L st' \<and> live_st L st' = live_st L st1 \<and> keeps {bw_tmp w1} st1 st' \<and> files_at st' n = files_at st1 n \<and>
          bw_tmp w' = bw_tmp w1 \<and> bw_b w' = bw_b w1 \<and> bw_done w' = bw_done w1 \<and>
          (er = None \<longrightarrow> writer_st w' st' \<and> st_buckets st' = st_buckets st1 \<and> bw_sha w' = bw_sha w1 @ part_bytes up st1 qs \<and>
            (\<forall>q \<in> set qs. case map_of (mu_parts up) (cp_PartNumber q) of
              None \<Rightarrow> False | Some p \<Rightarrow> tmp_at st1 (sp_bucket p) (sp_tmp p) \<noteq> None))"
          by (rule 2(1) [OF _ _ run p1]) (use ci(1) ci2 in auto)
        have kk: "keeps {bw_tmp w} st st'" using keeps_trans [OF k(1)] ih k(2) by metis
        have same: "tmp_at st1 (sp_bucket p) (sp_tmp p) \<noteq> None \<Longrightarrow> tmp_at st1 (sp_bucket p) (sp_tmp p) = tmp_at st (sp_bucket p) (sp_tmp p)"
          if "map_of (mu_parts up) j = Some p" for j p
          using keeps_tmp [OF k(1)] 2(5) that by auto
        have all: "part_bytes up st1 qs = part_bytes up st qs"
            "\<forall>q \<in> set qs. case map_of (mu_parts up) (cp_PartNumber q) of
              None \<Rightarrow> False | Some p \<Rightarrow> tmp_at st (sp_bucket p) (sp_tmp p) \<noteq> None"
          if "er = None"
          using ih same that unfolding part_bytes_def
          by (force intro!: arg_cong [where f = concat] split: option.splits)+
        have here: "tmp_at st (sp_bucket part) (sp_tmp part) = Some c" using c by (simp split: if_splits)
        have sha: "bw_sha w1 = bw_sha w @ c" using ci2 by simp
        from ih ci(1) ci2 k kk fl all here sha Some show ?thesis by (auto simp: part_bytes_def)
      qed
    qed
  qed
qed

end
