(* ===== verification/S3_Server.thy ===== *)
theory S3_Server
  imports S3_Multipart
begin

text \<open>
  The dispatch of the S3 server, \<^verbatim>\<open>pkg/s3/server.go\<close>: splitting the path and choosing the handler.
\<close>

text \<open>What the server calls in the outside world: the XML decoders and the random source.\<close>

record s3_world =
  xml_delete :: "body \<Rightarrow> string + deleteRequest"
  xml_complete :: "body \<Rightarrow> string + completedPart list"
  rand_id :: bytes
  net_schedule :: "nat \<Rightarrow> nat \<times> bool"
  call_env :: "nat \<Rightarrow> env"

definition splitPath :: "string \<Rightarrow> string list option" where
  "splitPath escapedPath =
     (let trimmed = Trim escapedPath ''/''
      in if trimmed = [] then Some [] else unescapeAll (Split trimmed CHR ''/''))"

definition notAllowed :: "string \<Rightarrow> s3_response" where
  "notAllowed res = writeS3Error 405 ''MethodNotAllowed'' (Text ''method not allowed'') res"

definition handleBucket :: "lib \<Rightarrow> s3_world \<Rightarrow> request \<Rightarrow> string \<Rightarrow> s3_server \<Rightarrow> s3_response \<times> s3_server" where
  "handleBucket L W r bkt s =
     (if rq_Method r = ''POST'' \<and> query_has r ''delete'' then s3_deleteObjects L (xml_delete W) (call_env W) r bkt s
      else if rq_Method r = ''GET'' \<and> query_has r ''location'' then s3_getBucketLocation (call_env W) bkt s
      else if rq_Method r = ''GET'' then s3_listObjects L (call_env W) r bkt s
      else if rq_Method r = ''PUT'' then s3_createBucket (call_env W) bkt s
      else if rq_Method r = ''HEAD'' then s3_headBucket (call_env W) bkt s
      else if rq_Method r = ''DELETE'' then s3_deleteBucket (call_env W) bkt s
      else (notAllowed (''/'' @ bkt), s))"

definition handleObject :: "lib \<Rightarrow> s3_world \<Rightarrow> request \<Rightarrow> string \<Rightarrow> string \<Rightarrow> s3_server \<Rightarrow> s3_response \<times> s3_server" where
  "handleObject L W r bkt key s =
     (let m = rq_Method r; q = query_get r
      in if m = ''PUT'' \<and> q ''uploadId'' \<noteq> [] \<and> q ''partNumber'' \<noteq> []
         then uploadPart L (call_env W) (net_schedule W) r bkt key s
         else if m = ''POST'' \<and> query_has r ''uploads'' then initiateMultipartUpload (call_env W) (rand_id W) r bkt key s
         else if m = ''POST'' \<and> q ''uploadId'' \<noteq> [] then completeMultipartUpload L (xml_complete W) (call_env W) r bkt key s
         else if m = ''DELETE'' \<and> q ''uploadId'' \<noteq> [] then abortMultipartUpload (call_env W) r bkt key s
         else if m = ''PUT'' \<and> header_get r ''x-amz-copy-source'' \<noteq> [] then s3_copyObject L (call_env W) r bkt key s
         else if m = ''PUT'' then s3_putObject L (call_env W) (net_schedule W) r bkt key s
         else if m = ''GET'' \<or> m = ''HEAD'' then s3_getObject L (call_env W) r bkt key s
         else if m = ''DELETE'' then s3_deleteObject L (call_env W) bkt key s
         else (notAllowed (resource bkt key), s))"

definition ServeHTTP_s3 :: "lib \<Rightarrow> s3_world \<Rightarrow> request \<Rightarrow> s3_server \<Rightarrow> s3_response \<times> s3_server" where
  "ServeHTTP_s3 L W r s =
     (case splitPath (rq_EscapedPath r) of
        None \<Rightarrow> (writeS3Error 400 ''InvalidURI'' (Text ''invalid path encoding'') (rq_Path r), s)
      | Some [] \<Rightarrow> if rq_Method r = ''GET'' then s3_listBuckets (call_env W) s else (notAllowed ''/'', s)
      | Some [bkt] \<Rightarrow> handleBucket L W r bkt s
      | Some (bkt # segs) \<Rightarrow> handleObject L W r bkt (Join segs ''/'') s)"

end
