(* ===== verification/Gcs_Types.thy ===== *)
theory Gcs_Types
  imports Http Go_Time Store_List
begin

text \<open>
  The answers of the GCS server, \<^verbatim>\<open>pkg/gcs/resource.go\<close>, and its state
  (\<^verbatim>\<open>pkg/gcs/server.go\<close>, \<^verbatim>\<open>upload.go\<close>). A response body is the value handed to the JSON encoder,
  or what is handed to \<^verbatim>\<open>http.ServeContent\<close>.
\<close>

section \<open>Resources\<close>

record bucketResource =
  brs_Kind :: string
  brs_ID :: string
  brs_Name :: string
  brs_Location :: string
  brs_StorageClass :: string
  brs_Metageneration :: int
  brs_TimeCreated :: string
  brs_Updated :: string
  brs_Etag :: string

record bucketsResource =
  bss_Kind :: string
  bss_Items :: "bucketResource list"

text \<open>The size is an unsigned 64-bit number.\<close>

record objectResource =
  ors_Kind :: string
  ors_ID :: string
  ors_Name :: string
  ors_Bucket :: string
  ors_Generation :: int
  ors_Metageneration :: int
  ors_ContentType :: string
  ors_StorageClass :: string
  ors_Size :: "64 word"
  ors_MD5Hash :: string
  ors_CRC32C :: string
  ors_Etag :: string
  ors_TimeCreated :: string
  ors_Updated :: string
  ors_Metadata :: metadata

record objectsResource =
  oss_Kind :: string
  oss_Items :: "objectResource list"
  oss_Prefixes :: "string list"
  oss_NextPageToken :: string

datatype gcs_body =
    No_json
  | BucketJSON bucketResource
  | BucketsJSON bucketsResource
  | ObjectJSON objectResource
  | ObjectsJSON objectsResource
  | ErrorJSON nat string message
  | Media int bytes
  | Broken

type_synonym gcs_response = "gcs_body response"

section \<open>Making them\<close>

definition encodeCRC32C :: "32 word \<Rightarrow> string" where
  "encodeCRC32C v = b64_encode (be32_put v)"

text \<open>The entity tags \<^verbatim>\<open>m%d\<close> and \<^verbatim>\<open>g%dm%d\<close>.\<close>

definition bucket_etag :: "bucket_info \<Rightarrow> string" where
  "bucket_etag i = ''m'' @ FormatInt (bi_Metageneration i) 10"

definition object_etag :: "object_info \<Rightarrow> string" where
  "object_etag i = ''g'' @ FormatInt (oi_Generation i) 10 @ ''m'' @ FormatInt (oi_Metageneration i) 10"

definition toBucketResource :: "bucket_info \<Rightarrow> bucketResource" where
  "toBucketResource i =
     \<lparr>brs_Kind = ''storage#bucket'', brs_ID = bi_Name i, brs_Name = bi_Name i, brs_Location = ''US'',
      brs_StorageClass = ''STANDARD'', brs_Metageneration = bi_Metageneration i,
      brs_TimeCreated = rfc3339 (bi_Created i), brs_Updated = rfc3339 (bi_Created i),
      brs_Etag = bucket_etag i\<rparr>"

definition toObjectResource :: "object_info \<Rightarrow> objectResource" where
  "toObjectResource i =
     \<lparr>ors_Kind = ''storage#object'',
      ors_ID = oi_Bucket i @ ''/'' @ oi_Name i @ ''/'' @ FormatInt (oi_Generation i) 10,
      ors_Name = oi_Name i, ors_Bucket = oi_Bucket i, ors_Generation = oi_Generation i,
      ors_Metageneration = oi_Metageneration i, ors_ContentType = oi_ContentType i,
      ors_StorageClass = ''STANDARD'', ors_Size = of_int (oi_Size i),
      ors_MD5Hash = b64_encode (oi_MD5 i), ors_CRC32C = encodeCRC32C (oi_CRC32C i),
      ors_Etag = object_etag i, ors_TimeCreated = rfc3339 (oi_Created i),
      ors_Updated = rfc3339 (oi_Updated i), ors_Metadata = oi_Metadata i\<rparr>"

section \<open>Writing responses\<close>

definition writeJSON :: "nat \<Rightarrow> gcs_body \<Rightarrow> gcs_response" where
  "writeJSON status v = respond status [(''Content-Type'', ''application/json; charset=UTF-8'')] v"

definition writeError :: "nat \<Rightarrow> string \<Rightarrow> message \<Rightarrow> gcs_response" where
  "writeError code reason msg = writeJSON code (ErrorJSON code reason msg)"

text \<open>A panic in the store ends the request without a response.\<close>

definition gcs_writeStoreError :: "store_error \<Rightarrow> gcs_response" where
  "gcs_writeStoreError err =
     (case err of
        ErrBucketNotFound \<Rightarrow> writeError 404 ''notFound'' (Text ''The specified bucket does not exist.'')
      | ErrObjectNotFound \<Rightarrow> writeError 404 ''notFound'' (Text ''No such object'')
      | ErrBucketExists \<Rightarrow> writeError 409 ''conflict'' (Text ''The requested bucket name is not available.'')
      | ErrBucketNotEmpty \<Rightarrow> writeError 409 ''conflict'' (Text ''The bucket you tried to delete is not empty.'')
      | ErrPreconditionFailed \<Rightarrow> writeError 412 ''conditionNotMet''
          (Text ''At least one of the pre-conditions you specified did not hold.'')
      | ErrInvalidName n \<Rightarrow> writeError 400 ''invalid'' (Error_text [] err)
      | Panicked m \<Rightarrow> respond 0 [] Broken
      | _ \<Rightarrow> writeError 500 ''internalError'' (Error_text [] err))"

section \<open>State\<close>

text \<open>\<^verbatim>\<open>objectMetadata\<close>: the part of the object resource an upload may give.\<close>

record objectMetadata =
  om_Name :: string
  om_ContentType :: string
  om_Metadata :: metadata
  om_MD5Hash :: string
  om_CRC32C :: string

definition no_meta :: objectMetadata where
  "no_meta = \<lparr>om_Name = [], om_ContentType = [], om_Metadata = [], om_MD5Hash = [], om_CRC32C = []\<rparr>"

record uploadSession =
  us_bucket :: string
  us_meta :: objectMetadata
  us_conds :: conditions
  us_bw :: blob_writer
  us_offset :: int
  us_done :: bool

record gcs_server =
  gs_store :: store
  gs_sessions :: "(string, uploadSession) table"

definition NewServer_gcs :: "store \<Rightarrow> gcs_server" where
  "NewServer_gcs st = \<lparr>gs_store = st, gs_sessions = []\<rparr>"

text \<open>A call into the store.\<close>

definition gs_call :: "(store \<Rightarrow> 'r \<times> store) \<Rightarrow> gcs_server \<Rightarrow> 'r \<times> gcs_server" where
  "gs_call f s = (case f (gs_store s) of (r, st') \<Rightarrow> (r, s\<lparr>gs_store := st'\<rparr>))"

end
