(* ===== verification/Gcs_Objects.thy ===== *)
theory Gcs_Objects
  imports Gcs_Types
begin

text \<open>
  The bucket and object handlers of the GCS server: \<^verbatim>\<open>pkg/gcs/buckets.go\<close>, \<^verbatim>\<open>objects.go\<close>,
  \<^verbatim>\<open>download.go\<close> and the preconditions of \<^verbatim>\<open>server.go\<close>. The JSON decoder is a parameter; \<open>es\<close> gives
  an environment for each call into the store.
\<close>

section \<open>Preconditions\<close>

text \<open>The closure \<^verbatim>\<open>parse\<close> and \<^verbatim>\<open>parseConditions\<close>: the text of the number's error, or the conditions.\<close>

definition parse_condition :: "request \<Rightarrow> string \<Rightarrow> message + int option" where
  "parse_condition r key =
     (let v = query_get r key
      in if v = [] then Inr None
         else (case ParseInt v 10 of (n, None) \<Rightarrow> Inr (Some n) | (_, Some er) \<Rightarrow> Inl (Num_text v er)))"

definition parseConditions :: "request \<Rightarrow> message + conditions" where
  "parseConditions r =
     result_bind (parse_condition r ''ifGenerationMatch'') (\<lambda>g.
     result_bind (parse_condition r ''ifGenerationNotMatch'') (\<lambda>gn.
     result_bind (parse_condition r ''ifMetagenerationMatch'') (\<lambda>m.
     result_bind (parse_condition r ''ifMetagenerationNotMatch'') (\<lambda>mn.
     Inr \<lparr>GenerationMatch = g, GenerationNotMatch = gn, MetagenerationMatch = m, MetagenerationNotMatch = mn\<rparr>))))"

definition checkGenerationParam :: "request \<Rightarrow> int \<Rightarrow> store_error option" where
  "checkGenerationParam r liveGeneration =
     (let v = query_get r ''generation''
      in if v = [] then None
         else (case ParseInt v 10 of
                 (_, Some _) \<Rightarrow> Some (ErrInvalidName ''invalid generation'')
               | (gen, None) \<Rightarrow> if gen \<noteq> liveGeneration then Some ErrObjectNotFound else None))"

definition checkReadConditions :: "conditions \<Rightarrow> object_info \<Rightarrow> store_error option" where
  "checkReadConditions conds i =
     (if GenerationMatch conds \<noteq> None \<and> oi_Generation i \<noteq> the (GenerationMatch conds)
      then Some ErrPreconditionFailed
      else if GenerationNotMatch conds \<noteq> None \<and> oi_Generation i = the (GenerationNotMatch conds)
      then Some ErrPreconditionFailed
      else if MetagenerationMatch conds \<noteq> None \<and> oi_Metageneration i \<noteq> the (MetagenerationMatch conds)
      then Some ErrPreconditionFailed
      else if MetagenerationNotMatch conds \<noteq> None \<and> oi_Metageneration i = the (MetagenerationNotMatch conds)
      then Some ErrPreconditionFailed
      else None)"

text \<open>The three checks of a read, in the order of the code: the answer that refuses it, if any.\<close>

definition read_refused :: "request \<Rightarrow> object_info \<Rightarrow> gcs_response option" where
  "read_refused r i =
     (case checkGenerationParam r (oi_Generation i) of
        Some er \<Rightarrow> Some (gcs_writeStoreError er)
      | None \<Rightarrow>
          (case parseConditions r of
             Inl msg \<Rightarrow> Some (writeError 400 ''invalid'' msg)
           | Inr conds \<Rightarrow>
               (case checkReadConditions conds i of
                  Some er \<Rightarrow> Some (gcs_writeStoreError er)
                | None \<Rightarrow> None)))"

section \<open>Buckets\<close>

definition gcs_createBucket ::
  "(body \<Rightarrow> string + string) \<Rightarrow> (nat \<Rightarrow> env) \<Rightarrow> request \<Rightarrow> gcs_server \<Rightarrow> gcs_response \<times> gcs_server" where
  "gcs_createBucket json es r s =
     (case json (rq_Body r) of
        Inl m \<Rightarrow> (writeError 400 ''invalid'' (Other_error ''invalid bucket resource: '' m), s)
      | Inr name \<Rightarrow>
          (case gs_call (CreateBucket (es 0) name) s of
             (Inl err, s') \<Rightarrow> (gcs_writeStoreError err, s')
           | (Inr i, s') \<Rightarrow> (writeJSON 200 (BucketJSON (toBucketResource i)), s')))"

definition gcs_getBucket :: "(nat \<Rightarrow> env) \<Rightarrow> string \<Rightarrow> gcs_server \<Rightarrow> gcs_response \<times> gcs_server" where
  "gcs_getBucket es name s =
     (case gs_call (GetBucket (es 0) name) s of
        (Inl err, s') \<Rightarrow> (gcs_writeStoreError err, s')
      | (Inr i, s') \<Rightarrow> (writeJSON 200 (BucketJSON (toBucketResource i)), s'))"

definition gcs_listBuckets :: "(nat \<Rightarrow> env) \<Rightarrow> gcs_server \<Rightarrow> gcs_response \<times> gcs_server" where
  "gcs_listBuckets es s =
     (case gs_call (ListBuckets (es 0)) s of
        (Inl err, s') \<Rightarrow> (gcs_writeStoreError err, s')
      | (Inr infos, s') \<Rightarrow>
          (writeJSON 200 (BucketsJSON \<lparr>bss_Kind = ''storage#buckets'', bss_Items = map toBucketResource infos\<rparr>), s'))"

definition gcs_deleteBucket :: "(nat \<Rightarrow> env) \<Rightarrow> string \<Rightarrow> gcs_server \<Rightarrow> gcs_response \<times> gcs_server" where
  "gcs_deleteBucket es name s =
     (case gs_call (DeleteBucket (es 0) name) s of
        (Inl err, s') \<Rightarrow> (gcs_writeStoreError err, s')
      | (Inr _, s') \<Rightarrow> (respond 204 [] No_json, s'))"

section \<open>Objects\<close>

definition gcs_getObject ::
  "lib \<Rightarrow> (nat \<Rightarrow> env) \<Rightarrow> request \<Rightarrow> string \<Rightarrow> string \<Rightarrow> gcs_server \<Rightarrow> gcs_response \<times> gcs_server" where
  "gcs_getObject L es r bkt obj s =
     (case gs_call (GetObject L (es 0) bkt obj) s of
        (Inl err, s') \<Rightarrow> (gcs_writeStoreError err, s')
      | (Inr i, s') \<Rightarrow>
          (case read_refused r i of
             Some resp \<Rightarrow> (resp, s')
           | None \<Rightarrow> (writeJSON 200 (ObjectJSON (toObjectResource i)), s')))"

definition gcs_deleteObject ::
  "lib \<Rightarrow> (nat \<Rightarrow> env) \<Rightarrow> request \<Rightarrow> string \<Rightarrow> string \<Rightarrow> gcs_server \<Rightarrow> gcs_response \<times> gcs_server" where
  "gcs_deleteObject L es r bkt obj s =
     (case parseConditions r of
        Inl msg \<Rightarrow> (writeError 400 ''invalid'' msg, s)
      | Inr conds \<Rightarrow>
          (case gs_call (DeleteObject L (es 0) bkt obj conds) s of
             (Inl err, s') \<Rightarrow> (gcs_writeStoreError err, s')
           | (Inr _, s') \<Rightarrow> (respond 204 [] No_json, s')))"

text \<open>\<^verbatim>\<open>maxResults\<close>: 0 when it is not given; \<open>None\<close> when it is not a number.\<close>

definition gcs_maxResults :: "request \<Rightarrow> int option" where
  "gcs_maxResults r =
     (let v = query_get r ''maxResults''
      in if v = [] then Some 0
         else (case Atoi v of (n, None) \<Rightarrow> Some n | (_, Some _) \<Rightarrow> None))"

definition gcs_listObjects :: "lib \<Rightarrow> (nat \<Rightarrow> env) \<Rightarrow> request \<Rightarrow> string \<Rightarrow> gcs_server \<Rightarrow> gcs_response \<times> gcs_server" where
  "gcs_listObjects L es r bkt s =
     (case gcs_maxResults r of
        None \<Rightarrow> (writeError 400 ''invalid'' (Text ''invalid maxResults''), s)
      | Some n \<Rightarrow>
          (case gs_call (ListObjects L (es 0) bkt
                  \<lparr>lq_Prefix = query_get r ''prefix'', lq_Delimiter = query_get r ''delimiter'',
                   lq_PageToken = query_get r ''pageToken'', lq_MaxResults = n\<rparr>) s of
             (Inl err, s') \<Rightarrow> (gcs_writeStoreError err, s')
           | (Inr res, s') \<Rightarrow>
               (writeJSON 200 (ObjectsJSON
                  \<lparr>oss_Kind = ''storage#objects'', oss_Items = map toObjectResource (lr_Objects res),
                   oss_Prefixes = lr_Prefixes res, oss_NextPageToken = lr_NextPageToken res\<rparr>), s')))"

section \<open>Media\<close>

text \<open>The headers set before \<^verbatim>\<open>http.ServeContent\<close>, in canonical form.\<close>

definition media_headers :: "object_info \<Rightarrow> (string \<times> string) list" where
  "media_headers i =
     [(''Content-Type'', if oi_ContentType i = [] then ''application/octet-stream'' else oi_ContentType i),
      (''X-Goog-Generation'', FormatInt (oi_Generation i) 10),
      (''X-Goog-Metageneration'', FormatInt (oi_Metageneration i) 10),
      (''X-Goog-Stored-Content-Length'', FormatInt (oi_Size i) 10),
      (''X-Goog-Stored-Content-Encoding'', ''identity''),
      (''X-Goog-Storage-Class'', ''STANDARD''),
      (''X-Goog-Hash'', ''crc32c='' @ encodeCRC32C (oi_CRC32C i) @ '',md5='' @ b64_encode (oi_MD5 i)),
      (canonicalKey ''ETag'', object_etag i)]"

definition serveMedia ::
  "lib \<Rightarrow> (nat \<Rightarrow> env) \<Rightarrow> request \<Rightarrow> string \<Rightarrow> string \<Rightarrow> gcs_server \<Rightarrow> gcs_response \<times> gcs_server" where
  "serveMedia L es r bkt obj s =
     (case gs_call (OpenObject L (es 0) bkt obj) s of
        (Inl err, s') \<Rightarrow> (gcs_writeStoreError err, s')
      | (Inr (i, c), s') \<Rightarrow>
          (case read_refused r i of
             Some resp \<Rightarrow> (resp, s')
           | None \<Rightarrow> (respond 200 (media_headers i) (Media (oi_Updated i) c), s')))"

end
