(* ===== verification/Gcs_Upload.thy ===== *)
theory Gcs_Upload
  imports Gcs_Objects
begin

text \<open>
  Uploads of the GCS server, \<^verbatim>\<open>pkg/gcs/upload.go\<close>: in one request, as a multipart/related body,
  and resumable in chunks. The decoders of JSON and of MIME bodies are parameters.
\<close>

section \<open>Committing\<close>

text \<open>The comparison of the checksums a client gives with those of what was written: the answer that
  refuses the upload, if any.\<close>

definition checksum_refused :: "objectMetadata \<Rightarrow> bytes \<Rightarrow> 32 word \<Rightarrow> gcs_response option" where
  "checksum_refused meta md5Sum crc32c =
     (if om_MD5Hash meta \<noteq> [] \<and> b64_decode (om_MD5Hash meta) \<noteq> Some md5Sum
      then Some (writeError 400 ''invalid'' (Text ''md5Hash does not match uploaded content''))
      else if om_CRC32C meta \<noteq> [] \<and>
        (case b64_decode (om_CRC32C meta) of
           None \<Rightarrow> True | Some want \<Rightarrow> length want \<noteq> 4 \<or> be32_get want \<noteq> crc32c)
      then Some (writeError 400 ''invalid'' (Text ''crc32c does not match uploaded content''))
      else None)"

definition upload_opts :: "objectMetadata \<Rightarrow> conditions \<Rightarrow> put_options" where
  "upload_opts meta conds =
     \<lparr>po_ContentType = om_ContentType meta, po_Metadata = om_Metadata meta, po_Conditions = conds\<rparr>"

text \<open>\<^verbatim>\<open>commitUpload\<close>: the response, the writer afterwards and the server.\<close>

definition commitUpload ::
  "lib \<Rightarrow> env \<Rightarrow> blob_writer \<Rightarrow> objectMetadata \<Rightarrow> conditions \<Rightarrow> gcs_server
   \<Rightarrow> gcs_response \<times> blob_writer \<times> gcs_server" where
  "commitUpload L e bw meta conds s =
     (let abort = (\<lambda>resp. case Abort e bw (gs_store s) of (bw', st') \<Rightarrow> (resp, bw', s\<lparr>gs_store := st'\<rparr>))
      in if om_Name meta = [] then abort (writeError 400 ''required'' (Text ''object name is required''))
         else
           (case checksums L bw of (sha, md5Sum, crc32c) \<Rightarrow>
              (case checksum_refused meta md5Sum crc32c of
                 Some resp \<Rightarrow> abort resp
               | None \<Rightarrow>
                   (case Commit L e bw (om_Name meta) (upload_opts meta conds) (gs_store s) of
                      (Inl err, bw', st') \<Rightarrow> (gcs_writeStoreError err, bw', s\<lparr>gs_store := st'\<rparr>)
                    | (Inr i, bw', st') \<Rightarrow>
                        (writeJSON 200 (ObjectJSON (toObjectResource i)), bw', s\<lparr>gs_store := st'\<rparr>)))))"

text \<open>\<^verbatim>\<open>putObject\<close>: the body of the media as it is read.\<close>

definition gcs_putObject ::
  "lib \<Rightarrow> (nat \<Rightarrow> env) \<Rightarrow> body \<Rightarrow> string \<Rightarrow> objectMetadata \<Rightarrow> conditions \<Rightarrow> gcs_server
   \<Rightarrow> gcs_response \<times> gcs_server" where
  "gcs_putObject L es media bkt meta conds s =
     (case gs_call (NewBlobWriter (es 0) bkt) s of
        (Inl err, s1) \<Rightarrow> (gcs_writeStoreError err, s1)
      | (Inr bw, s1) \<Rightarrow>
          (case Copy (es 1) bw (fst media) (snd media) (gs_store s1) of
             ((n, Some er), bw', st2) \<Rightarrow>
               (writeError 400 ''invalid'' (Error_text ''reading upload body: '' er),
                s1\<lparr>gs_store := snd (Abort (es 2) bw' st2)\<rparr>)
           | ((n, None), bw', st2) \<Rightarrow>
               (case commitUpload L (es 2) bw' meta conds (s1\<lparr>gs_store := st2\<rparr>) of
                  (resp, _, s3) \<Rightarrow> (resp, s3))))"

section \<open>Multipart bodies\<close>

text \<open>What the MIME decoder makes of a request: the boundary of the content type (empty if there is
  none or the type does not parse), and the two parts in the order they are read: the JSON metadata,
  and the content type and body of the media.\<close>

record mime_world =
  mime_boundary :: "string \<Rightarrow> string"
  mime_meta :: "string \<Rightarrow> body \<Rightarrow> body option"
  mime_media :: "string \<Rightarrow> body \<Rightarrow> (string \<times> body) option"
  json_meta :: "body \<Rightarrow> (string option) + objectMetadata"

text \<open>\<open>json_meta\<close> returns the decoder's error, where \<open>None\<close> is \<^verbatim>\<open>io.EOF\<close>.\<close>

definition eof_text :: "string option \<Rightarrow> string" where
  "eof_text m = (case m of None \<Rightarrow> ''EOF'' | Some t \<Rightarrow> t)"

definition handleMultipartUpload ::
  "lib \<Rightarrow> mime_world \<Rightarrow> (nat \<Rightarrow> env) \<Rightarrow> request \<Rightarrow> string \<Rightarrow> conditions \<Rightarrow> gcs_server
   \<Rightarrow> gcs_response \<times> gcs_server" where
  "handleMultipartUpload L M es r bkt conds s =
     (let boundary = mime_boundary M (header_get r ''Content-Type'')
      in if boundary = [] then (writeError 400 ''invalid'' (Text ''expected multipart/related body''), s)
         else
           (case mime_meta M boundary (rq_Body r) of
              None \<Rightarrow> (writeError 400 ''invalid'' (Text ''missing metadata part''), s)
            | Some part \<Rightarrow>
                (case json_meta M part of
                   Inl m \<Rightarrow> (writeError 400 ''invalid'' (Other_error ''invalid metadata part: '' (eof_text m)), s)
                 | Inr meta0 \<Rightarrow>
                     let meta = (if om_Name meta0 = [] then meta0\<lparr>om_Name := query_get r ''name''\<rparr> else meta0)
                     in (case mime_media M boundary (rq_Body r) of
                           None \<Rightarrow> (writeError 400 ''invalid'' (Text ''missing media part''), s)
                         | Some (ctype, media) \<Rightarrow>
                             gcs_putObject L es media bkt
                               (if om_ContentType meta = [] then meta\<lparr>om_ContentType := ctype\<rparr> else meta) conds s))))"

section \<open>Resumable uploads\<close>

definition set_session :: "string \<Rightarrow> uploadSession \<Rightarrow> gcs_server \<Rightarrow> gcs_server" where
  "set_session uid sess s = s\<lparr>gs_sessions := tput uid sess (gs_sessions s)\<rparr>"

definition del_session :: "string \<Rightarrow> gcs_server \<Rightarrow> gcs_server" where
  "del_session uid s = s\<lparr>gs_sessions := tdel uid (gs_sessions s)\<rparr>"

text \<open>The metadata of a resumable upload: an empty body is accepted.\<close>

definition start_meta :: "mime_world \<Rightarrow> request \<Rightarrow> string + objectMetadata" where
  "start_meta M r =
     (let decoded = (if rq_ContentLength r \<noteq> 0
                     then (case json_meta M (rq_Body r) of
                             Inl None \<Rightarrow> Inr no_meta | Inl (Some m) \<Rightarrow> Inl m | Inr meta \<Rightarrow> Inr meta)
                     else Inr no_meta)
      in result_bind decoded (\<lambda>meta.
           Inr (if om_Name meta = [] then meta\<lparr>om_Name := query_get r ''name''\<rparr> else meta)))"

definition session_location :: "request \<Rightarrow> string \<Rightarrow> string" where
  "session_location r uid =
     (if rq_TLS r then ''https'' else ''http'') @ ''://'' @ rq_Host r @ rq_EscapedPath r @
     ''?uploadType=resumable&upload_id='' @ uid"

definition startResumableUpload ::
  "mime_world \<Rightarrow> (nat \<Rightarrow> env) \<Rightarrow> bytes \<Rightarrow> request \<Rightarrow> string \<Rightarrow> conditions \<Rightarrow> gcs_server
   \<Rightarrow> gcs_response \<times> gcs_server" where
  "startResumableUpload M es idBytes r bkt conds s =
     (case start_meta M r of
        Inl m \<Rightarrow> (writeError 400 ''invalid'' (Other_error ''invalid metadata: '' m), s)
      | Inr meta \<Rightarrow>
          (case gs_call (NewBlobWriter (es 0) bkt) s of
             (Inl err, s1) \<Rightarrow> (gcs_writeStoreError err, s1)
           | (Inr bw, s1) \<Rightarrow>
               let uid = hexEncode idBytes
               in (respond 200 [(''Location'', session_location r uid), (canonicalKey ''X-GUploader-UploadID'', uid)] No_json,
                   set_session uid \<lparr>us_bucket = bkt, us_meta = meta, us_conds = conds, us_bw = bw,
                     us_offset = 0, us_done = False\<rparr> s1)))"

text \<open>The regular expressions \<^verbatim>\<open>^bytes \*/(\d+|\*)$\<close> and \<^verbatim>\<open>^bytes (\d+)-(\d+)/(\d+|\*)$\<close>: the groups of
  a match. A run of digits ends where the digits end, since none of the separators is a digit.\<close>

definition is_digit :: "char \<Rightarrow> bool" where
  "is_digit c \<longleftrightarrow> 48 \<le> byte_val c \<and> byte_val c \<le> 57"

definition match_total :: "string \<Rightarrow> bool" where
  "match_total t \<longleftrightarrow> t = ''*'' \<or> (t \<noteq> [] \<and> list_all is_digit t)"

definition reContentRangeProbe :: "string \<Rightarrow> string option" where
  "reContentRangeProbe v =
     (if prefix ''bytes */'' v \<and> match_total (drop 8 v) then Some (drop 8 v) else None)"

definition reContentRangeChunk :: "string \<Rightarrow> (string \<times> string \<times> string) option" where
  "reContentRangeChunk v =
     (if \<not> prefix ''bytes '' v then None
      else
        let a = takeWhile is_digit (drop 6 v); rest = dropWhile is_digit (drop 6 v);
            b = takeWhile is_digit (drop 1 rest); rest2 = dropWhile is_digit (drop 1 rest);
            t = drop 1 rest2
        in if a \<noteq> [] \<and> prefix ''-'' rest \<and> b \<noteq> [] \<and> prefix ''/'' rest2 \<and> match_total t then Some (a, b, t) else None)"

text \<open>\<^verbatim>\<open>strconv.ParseInt(m, 10, 64)\<close> with its error dropped, and the total: -1 when it is not known.\<close>

definition range_int :: "string \<Rightarrow> int" where
  "range_int m = fst (ParseInt m 10)"

definition range_total :: "string \<Rightarrow> int" where
  "range_total m = (if m \<noteq> ''*'' then range_int m else -1)"

definition writeResumeIncomplete :: "request \<Rightarrow> uploadSession \<Rightarrow> gcs_response" where
  "writeResumeIncomplete r sess =
     (let hs = (if 0 < us_offset sess then [(''Range'', ''bytes=0-'' @ FormatInt (us_offset sess - 1) 10)] else [])
      in if header_get r ''X-GUploader-No-308'' = ''yes''
         then respond 200 (hs @ [(''X-Http-Status-Code-Override'', ''308'')]) No_json
         else respond 308 hs No_json)"

text \<open>Copying the body of a chunk into the session's writer: bytes copied, the error, and session and
  store afterwards. The writer is advanced also when the copy fails.\<close>

definition session_copy ::
  "env \<Rightarrow> request \<Rightarrow> uploadSession \<Rightarrow> store \<Rightarrow> (nat \<times> store_error option) \<times> uploadSession \<times> store" where
  "session_copy e r sess st =
     (case Copy e (us_bw sess) (fst (rq_Body r)) (snd (rq_Body r)) st of
        (res, bw', st') \<Rightarrow> (res, sess\<lparr>us_bw := bw'\<rparr>, st'))"

text \<open>The part of \<^verbatim>\<open>handleResumableChunk\<close> that reads the range and the body: an answer that ends the
  request, or the total; and the session and store afterwards.\<close>

definition receiveChunk ::
  "env \<Rightarrow> request \<Rightarrow> uploadSession \<Rightarrow> store \<Rightarrow> (gcs_response + int) \<times> uploadSession \<times> store" where
  "receiveChunk e r sess st =
     (let contentRange = header_get r ''Content-Range'';
          failed = (\<lambda>er. writeError 500 ''internalError'' (Error_text ''writing chunk: '' er))
      in (case reContentRangeProbe contentRange of
            Some m \<Rightarrow> (Inr (range_total m), sess, st)
          | None \<Rightarrow>
              (case reContentRangeChunk contentRange of
                 Some (m1, m2, m3) \<Rightarrow>
                   if range_int m1 \<noteq> us_offset sess then (Inl (writeResumeIncomplete r sess), sess, st)
                   else
                     (case session_copy e r sess st of
                        ((n, Some er), sess', st') \<Rightarrow> (Inl (failed er), sess', st')
                      | ((n, None), sess', st') \<Rightarrow>
                          if int n \<noteq> wrap64 (wrap64 (range_int m2 - range_int m1) + 1)
                          then (Inl (writeError 400 ''invalid''
                                  (Text_int2 ''chunk body length '' (int n) '' does not match Content-Range '' contentRange)),
                                sess', st')
                          else (Inr (range_total m3), sess'\<lparr>us_offset := wrap64 (us_offset sess' + int n)\<rparr>, st'))
               | None \<Rightarrow>
                   if contentRange = [] then
                     (case session_copy e r sess st of
                        ((n, Some er), sess', st') \<Rightarrow> (Inl (failed er), sess', st')
                      | ((n, None), sess', st') \<Rightarrow>
                          let off = wrap64 (us_offset sess' + int n)
                          in (Inr off, sess'\<lparr>us_offset := off\<rparr>, st'))
                   else (Inl (writeError 400 ''invalid'' (Other_error ''invalid Content-Range: '' contentRange)), sess, st))))"

definition handleResumableChunk ::
  "lib \<Rightarrow> (nat \<Rightarrow> env) \<Rightarrow> request \<Rightarrow> string \<Rightarrow> gcs_server \<Rightarrow> gcs_response \<times> gcs_server" where
  "handleResumableChunk L es r uid s =
     (if rq_Method r \<noteq> ''PUT'' \<and> rq_Method r \<noteq> ''POST''
      then (writeError 405 ''invalid'' (Text ''method not allowed''), s)
      else
        (case map_of (gs_sessions s) uid of
           None \<Rightarrow> (writeError 404 ''notFound'' (Text ''no such upload session''), s)
         | Some sess \<Rightarrow>
             if us_done sess then (writeError 410 ''invalid'' (Text ''upload session already finalized''), s)
             else
               (case receiveChunk (es 0) r sess (gs_store s) of
                  (Inl resp, sess', st') \<Rightarrow> (resp, set_session uid sess' (s\<lparr>gs_store := st'\<rparr>))
                | (Inr tot, sess', st') \<Rightarrow>
                    if 0 \<le> tot \<and> us_offset sess' = tot
                    then (case commitUpload L (es 1) (us_bw sess') (us_meta sess') (us_conds sess')
                                 (del_session uid (s\<lparr>gs_store := st'\<rparr>)) of
                            (resp, _, s') \<Rightarrow> (resp, s'))
                    else (writeResumeIncomplete r sess', set_session uid sess' (s\<lparr>gs_store := st'\<rparr>)))))"

section \<open>The upload endpoint\<close>

definition handleUpload ::
  "lib \<Rightarrow> mime_world \<Rightarrow> (nat \<Rightarrow> env) \<Rightarrow> bytes \<Rightarrow> request \<Rightarrow> string \<Rightarrow> gcs_server \<Rightarrow> gcs_response \<times> gcs_server" where
  "handleUpload L M es idBytes r bkt s =
     (if query_get r ''upload_id'' \<noteq> [] then handleResumableChunk L es r (query_get r ''upload_id'') s
      else if rq_Method r \<noteq> ''POST'' then (writeError 405 ''invalid'' (Text ''method not allowed''), s)
      else
        (case parseConditions r of
           Inl msg \<Rightarrow> (writeError 400 ''invalid'' msg, s)
         | Inr conds \<Rightarrow>
             if query_get r ''uploadType'' = ''media''
             then gcs_putObject L es (rq_Body r) bkt
                    (no_meta\<lparr>om_Name := query_get r ''name'', om_ContentType := header_get r ''Content-Type''\<rparr>) conds s
             else if query_get r ''uploadType'' = ''multipart'' then handleMultipartUpload L M es r bkt conds s
             else if query_get r ''uploadType'' = ''resumable'' then startResumableUpload M es idBytes r bkt conds s
             else (writeError 400 ''invalid'' (Text ''unsupported uploadType''), s)))"

end
