(* ===== verification/Gcs_Server.thy ===== *)
theory Gcs_Server
  imports Gcs_Upload
begin

text \<open>
  The dispatch of the GCS server, \<^verbatim>\<open>pkg/gcs/server.go\<close>.
\<close>

record gcs_world =
  gw_mime :: mime_world
  gw_json_name :: "body \<Rightarrow> string + string"
  gw_rand :: bytes
  gw_env :: "nat \<Rightarrow> env"

definition gcs_splitPath :: "string \<Rightarrow> string list option" where
  "gcs_splitPath escapedPath =
     (let trimmed = Trim escapedPath ''/''
      in if trimmed = [] then Some [] else unescapeAll (Split trimmed CHR ''/''))"

definition not_allowed :: gcs_response where
  "not_allowed = writeError 405 ''invalid'' (Text ''method not allowed'')"

definition not_found :: gcs_response where
  "not_found = writeError 404 ''notFound'' (Text ''not found'')"

text \<open>\<^verbatim>\<open>handleStorageV1\<close>: \<open>segs\<close> is the path after the segment \<^verbatim>\<open>b\<close>.\<close>

definition handleStorageV1 ::
  "lib \<Rightarrow> gcs_world \<Rightarrow> request \<Rightarrow> string list \<Rightarrow> gcs_server \<Rightarrow> gcs_response \<times> gcs_server" where
  "handleStorageV1 L W r segs s =
     (let m = rq_Method r; es = gw_env W
      in case segs of
           [] \<Rightarrow>
             if m = ''GET'' then gcs_listBuckets es s
             else if m = ''POST'' then gcs_createBucket (gw_json_name W) es r s
             else (not_allowed, s)
         | [bkt] \<Rightarrow>
             if m = ''GET'' then gcs_getBucket es bkt s
             else if m = ''DELETE'' then gcs_deleteBucket es bkt s
             else (writeError 501 ''notImplemented'' (Text ''not implemented''), s)
         | bkt # oh # rest \<Rightarrow>
             if oh = ''o'' \<and> rest = [] then
               (if m = ''GET'' then gcs_listObjects L es r bkt s else (not_allowed, s))
             else if oh = ''o'' then
               let obj = Join rest ''/''
               in if m = ''GET'' then
                    (if query_get r ''alt'' = ''media'' then serveMedia L es r bkt obj s else gcs_getObject L es r bkt obj s)
                  else if m = ''DELETE'' then gcs_deleteObject L es r bkt obj s
                  else (writeError 501 ''notImplemented''
                          (Text (''this server does not implement '' @ m @
                                 '' on objects (metadata update, compose, rewrite)'')), s)
             else (not_found, s))"

definition ServeHTTP_gcs :: "lib \<Rightarrow> gcs_world \<Rightarrow> request \<Rightarrow> gcs_server \<Rightarrow> gcs_response \<times> gcs_server" where
  "ServeHTTP_gcs L W r s =
     (case gcs_splitPath (rq_EscapedPath r) of
        None \<Rightarrow> (writeError 400 ''invalid'' (Text ''invalid path encoding''), s)
      | Some segs \<Rightarrow>
          if 3 \<le> length segs \<and> take 3 segs = [''storage'', ''v1'', ''b'']
          then handleStorageV1 L W r (drop 3 segs) s
          else if length segs = 6 \<and> take 4 segs = [''upload'', ''storage'', ''v1'', ''b''] \<and> segs ! 5 = ''o''
          then handleUpload L (gw_mime W) (gw_env W) (gw_rand W) r (segs ! 4) s
          else if 7 \<le> length segs \<and> take 4 segs = [''download'', ''storage'', ''v1'', ''b''] \<and> segs ! 5 = ''o''
          then serveMedia L (gw_env W) r (segs ! 4) (Join (drop 6 segs) ''/'') s
          else if 2 \<le> length segs then
            (if rq_Method r \<noteq> ''GET'' \<and> rq_Method r \<noteq> ''HEAD'' then (not_allowed, s)
             else serveMedia L (gw_env W) r (segs ! 0) (Join (drop 1 segs) ''/'') s)
          else (not_found, s))"

end
