(* ===== verification/Program.thy ===== *)
theory Program
  imports S3_Parts S3_Server Gcs_Server
begin

text \<open>
  The program: both servers over one store, as \<^verbatim>\<open>cmd/objectstorage/main.go\<close> puts them together. The
  state is the store with the multipart uploads of the S3 server and the resumable sessions of the
  GCS server; a step is one request to either server, with any faults in the calls it makes. The
  invariant ties the servers' state to the store's temporary files: every staged part is what its
  MD5 and size say, every session's writer has hashed what its file holds, and no two of them share
  a file.
\<close>

section \<open>State and steps\<close>

text \<open>Which servers listen, on which addresses, is decided by the flags: an empty address disables S3.\<close>

datatype protocol = GCS | S3

definition main_servers :: "string \<Rightarrow> string \<Rightarrow> (string \<times> protocol) list" where
  "main_servers listen s3Listen = [(listen, GCS)] @ (if s3Listen \<noteq> [] then [(s3Listen, S3)] else [])"

record program =
  pg_servers :: "(string \<times> protocol) list"
  pg_store :: store
  pg_uploads :: "(string, multipartUpload) table"
  pg_sessions :: "(string, uploadSession) table"

text \<open>\<^verbatim>\<open>main\<close>: the store is opened and handed to both servers, and closed when they are done.\<close>

definition main_start :: "env \<Rightarrow> string \<Rightarrow> string \<Rightarrow> (string, bucket_dir) table \<Rightarrow> store_error + program" where
  "main_start e listen s3Listen root =
     result_bind (Open e root) (\<lambda>st.
       Inr \<lparr>pg_servers = main_servers listen s3Listen, pg_store = st,
             pg_uploads = s3_uploads (NewServer_s3 st), pg_sessions = gs_sessions (NewServer_gcs st)\<rparr>)"

definition main_stop :: "env \<Rightarrow> program \<Rightarrow> (string, bucket_dir) table" where
  "main_stop e p = st_root (snd (Close e (pg_store p)))"

definition serve_s3 :: "lib \<Rightarrow> s3_world \<Rightarrow> request \<Rightarrow> program \<Rightarrow> s3_response \<times> program" where
  "serve_s3 L W r p =
     (case ServeHTTP_s3 L W r \<lparr>s3_store = pg_store p, s3_uploads = pg_uploads p\<rparr> of
        (resp, s) \<Rightarrow> (resp, p\<lparr>pg_store := s3_store s, pg_uploads := s3_uploads s\<rparr>))"

definition serve_gcs :: "lib \<Rightarrow> gcs_world \<Rightarrow> request \<Rightarrow> program \<Rightarrow> gcs_response \<times> program" where
  "serve_gcs L W r p =
     (case ServeHTTP_gcs L W r \<lparr>gs_store = pg_store p, gs_sessions = pg_sessions p\<rparr> of
        (resp, s) \<Rightarrow> (resp, p\<lparr>pg_store := gs_store s, pg_sessions := gs_sessions s\<rparr>))"

text \<open>Who uses which temporary file.\<close>

datatype owner_of_file = Part string int | Session string

fun owns :: "(string, multipartUpload) table \<Rightarrow> (string, uploadSession) table \<Rightarrow> owner_of_file \<Rightarrow> string option" where
  "owns ups ses (Part uid k) =
     (case map_of ups uid of None \<Rightarrow> None | Some up \<Rightarrow> map_option sp_tmp (map_of (mu_parts up) k))"
| "owns ups ses (Session uid) = map_option (\<lambda>sess. bw_tmp (us_bw sess)) (map_of ses uid)"

text \<open>The random names a request's calls try are not in use by anybody.\<close>

definition env_names :: "(nat \<Rightarrow> env) \<Rightarrow> string set" where
  "env_names es = (\<Union>i. set (env_tmp_names (es i)))"

definition fresh_names :: "(nat \<Rightarrow> env) \<Rightarrow> program \<Rightarrow> bool" where
  "fresh_names es p \<longleftrightarrow> env_names es \<inter> ran (owns (pg_uploads p) (pg_sessions p)) = {}"

inductive serves :: "lib \<Rightarrow> program \<Rightarrow> program \<Rightarrow> bool" for L where
  by_s3: "(addr, S3) \<in> set (pg_servers p) \<Longrightarrow>
    fresh_names (call_env W) p \<Longrightarrow> serve_s3 L W r p = (resp, p') \<Longrightarrow> serves L p p'"
| by_gcs: "(addr, GCS) \<in> set (pg_servers p) \<Longrightarrow>
    fresh_names (gw_env W) p \<Longrightarrow> serve_gcs L W r p = (resp', p') \<Longrightarrow> serves L p p'"

text \<open>The states of the program: after a start, after requests, and after it was stopped, or crashed between
  requests, and started again on the same directory.\<close>

inductive served :: "lib \<Rightarrow> (string, bucket_dir) table \<Rightarrow> program \<Rightarrow> bool" for L root where
  started: "main_start e a1 a2 root = Inr p \<Longrightarrow> served L root p"
| request: "served L root p \<Longrightarrow> serves L p p' \<Longrightarrow> served L root p'"
| restarted: "served L root p \<Longrightarrow> main_start e a1 a2 (main_stop e' p) = Inr p' \<Longrightarrow> served L root p'"
| crashed: "served L root p \<Longrightarrow> main_start e a1 a2 (st_root (pg_store p)) = Inr p' \<Longrightarrow> served L root p'"

section \<open>The invariant\<close>

definition part_ok :: "lib \<Rightarrow> store \<Rightarrow> stagedPart \<Rightarrow> bool" where
  "part_ok L st p \<longleftrightarrow>
     (\<forall>c. tmp_at st (sp_bucket p) (sp_tmp p) = Some c \<longrightarrow> sp_md5 p = lib_md5 L c \<and> sp_size p = int (length c))"

definition upload_ok :: "lib \<Rightarrow> store \<Rightarrow> multipartUpload \<Rightarrow> bool" where
  "upload_ok L st up \<longleftrightarrow>
     tsorted (mu_parts up) \<and> \<not> mu_done up \<and>
     (\<forall>k p. map_of (mu_parts up) k = Some p \<longrightarrow> part_ok L st p \<and> sp_bucket p = mu_bucket up)"

definition session_ok :: "store \<Rightarrow> uploadSession \<Rightarrow> bool" where
  "session_ok st sess \<longleftrightarrow>
     \<not> us_done sess \<and> \<not> bw_done (us_bw sess) \<and> writer_st (us_bw sess) st \<and>
     h_name (st_handles st ! bw_b (us_bw sess)) = us_bucket sess"

definition own_ok :: "('a \<Rightarrow> 'b option) \<Rightarrow> bool" where
  "own_ok m \<longleftrightarrow> (\<forall>a b n. m a = Some n \<longrightarrow> m b = Some n \<longrightarrow> a = b)"

definition srv_inv :: "lib \<Rightarrow> store \<Rightarrow> (string, multipartUpload) table \<Rightarrow> (string, uploadSession) table \<Rightarrow> bool" where
  "srv_inv L st ups ses \<longleftrightarrow>
     store_inv L st \<and> tsorted ups \<and> tsorted ses \<and>
     (\<forall>uid up. map_of ups uid = Some up \<longrightarrow> upload_ok L st up) \<and>
     (\<forall>uid sess. map_of ses uid = Some sess \<longrightarrow> session_ok st sess) \<and>
     own_ok (owns ups ses)"

definition prog_inv :: "lib \<Rightarrow> program \<Rightarrow> bool" where
  "prog_inv L p \<longleftrightarrow> srv_inv L (pg_store p) (pg_uploads p) (pg_sessions p)"

lemma own_ok_upd: "own_ok m \<Longrightarrow> n \<notin> ran m \<Longrightarrow> own_ok (m(a \<mapsto> n))"
  by (auto simp: own_ok_def ran_def)

lemma own_ok_sub: "own_ok m \<Longrightarrow> m' \<subseteq>\<^sub>m m \<Longrightarrow> own_ok m'"
  unfolding own_ok_def map_le_def by (metis domI)

section \<open>Quiet changes of the store\<close>

definition quiet_to :: "lib \<Rightarrow> string set \<Rightarrow> store \<Rightarrow> store \<Rightarrow> bool" where
  "quiet_to L N st st' \<longleftrightarrow> store_inv L st' \<and> keeps N st st'"

lemma quiet_refl: "store_inv L st \<Longrightarrow> quiet_to L N st st"
  by (simp add: quiet_to_def keeps_refl)

lemma quiet_trans: "quiet_to L N st st1 \<Longrightarrow> quiet_to L N st1 st2 \<Longrightarrow> quiet_to L N st st2"
  by (auto simp: quiet_to_def intro: keeps_trans)

lemma part_ok_quiet: "part_ok L st p \<Longrightarrow> quiet_to L N st st' \<Longrightarrow> sp_tmp p \<notin> N \<Longrightarrow> part_ok L st' p"
  unfolding part_ok_def quiet_to_def by (meson keeps_tmp)

lemma session_ok_quiet:
  assumes "session_ok st sess" "quiet_to L N st st'" "bw_tmp (us_bw sess) \<notin> N"
  shows "session_ok st' sess"
  using assms writer_st_keeps [of "us_bw sess" st N st']
  by (auto simp: session_ok_def quiet_to_def keeps_def writer_st_def)

text \<open>What does not touch a file that is in use keeps the invariant, whatever uploads and sessions
  are removed.\<close>

lemma srv_inv_quiet:
  assumes "srv_inv L st ups ses" "quiet_to L N st st'" "N \<inter> ran (owns ups ses) = {}"
  shows "srv_inv L st' ups ses"
proof -
  have n: "sp_tmp p \<notin> N" if "map_of ups uid = Some up" "map_of (mu_parts up) k = Some p" for uid up k p
  proof -
    have "owns ups ses (Part uid k) = Some (sp_tmp p)" using that by simp
    with assms(3) show ?thesis by (metis disjoint_iff ranI)
  qed
  have m: "bw_tmp (us_bw sess) \<notin> N" if "map_of ses uid = Some sess" for uid sess
  proof -
    have "owns ups ses (Session uid) = Some (bw_tmp (us_bw sess))" using that by simp
    with assms(3) show ?thesis by (metis disjoint_iff ranI)
  qed
  have "upload_ok L st' up" if "map_of ups uid = Some up" for uid up
    using assms(1) that n part_ok_quiet [OF _ assms(2)] unfolding srv_inv_def upload_ok_def by blast
  moreover have "session_ok st' sess" if "map_of ses uid = Some sess" for uid sess
    using assms(1) that m session_ok_quiet [OF _ assms(2)] unfolding srv_inv_def by blast
  ultimately show ?thesis using assms(1,2) by (auto simp: srv_inv_def quiet_to_def)
qed

text \<open>The store's operations are quiet.\<close>

lemma quiet_reads:
  assumes "store_inv L st"
  shows "quiet_to L N st (snd (GetBucket e bn st))" "quiet_to L N st (snd (GetObject L e bn n st))"
    "quiet_to L N st (snd (OpenObject L e bn n st))" "quiet_to L N st (snd (ListObjects L e bn req st))"
    "quiet_to L N st (snd (ListBuckets e st))"
  using GetBucket_inv [OF assms, of e bn] GetObject_inv [OF assms, of e bn n] OpenObject_inv [OF assms, of e bn n]
    ListObjects_inv [OF assms, of e bn req] ListBuckets_inv [OF assms, of e]
    keeps_reads(1) [OF assms, of e bn _ _ N] keeps_reads(2) [OF assms, of e bn n _ _ N]
    keeps_reads(3) [OF assms, of e bn n _ _ N] keeps_reads(4) [OF assms, of e bn req _ _ N]
    keeps_ListBuckets [OF assms, of e _ _ N]
  unfolding quiet_to_def by (metis prod.collapse)+

lemma quiet_buckets:
  assumes "store_inv L st"
  shows "quiet_to L N st (snd (CreateBucket e bn st))" "quiet_to L N st (snd (DeleteBucket e bn st))"
    "quiet_to L N st (snd (DeleteObject L e bn n conds st))"
  using CreateBucket_inv [OF assms, of e bn] DeleteBucket_inv [OF assms, of e bn] DeleteObject_inv(1) [OF assms, of e bn n conds]
    keeps_CreateBucket [OF assms, of e bn _ _ N] keeps_DeleteBucket [OF assms, of e bn _ _ N]
    keeps_DeleteObject [OF assms, of e bn n conds _ _ N]
  unfolding quiet_to_def by (metis prod.collapse)+

lemma quiet_writes:
  assumes "store_inv L st" "json_decodes L" "set (env_tmp_names e) \<subseteq> N"
  shows "quiet_to L N st (snd (PutObject L e bn n ps en opts st))" "quiet_to L N st (snd (NewBlobWriter e bn st))"
    "quiet_to L N st (snd (TempFile e bn st))"
  using PutObject_inv(1) [OF assms(1,2), of e bn n ps en opts] NewBlobWriter_inv(1) [OF assms(1), of e bn]
    TempFile_inv [OF assms(1), of e bn]
    keeps_mono [OF keeps_PutObject [OF assms(1,2), of e bn n ps en opts] assms(3)]
    keeps_mono [OF keeps_NewBlobWriter(1) [OF assms(1), of e bn] assms(3)]
    keeps_mono [OF keeps_TempFile [OF assms(1), of e bn] assms(3)]
  unfolding quiet_to_def by (metis prod.collapse)+

lemma env_names_in: "set (env_tmp_names (es i)) \<subseteq> env_names es"
  by (auto simp: env_names_def)

lemma quiet_env_writes:
  assumes "store_inv L st" "json_decodes L"
  shows "quiet_to L (env_names es) st (snd (PutObject L (es i) bn n ps en opts st))"
    "quiet_to L (env_names es) st (snd (NewBlobWriter (es i) bn st))"
    "quiet_to L (env_names es) st (snd (TempFile (es i) bn st))"
  using quiet_writes [OF assms env_names_in] by blast+

end
