(* ===== verification/Program_Inv.thy ===== *)
theory Program_Inv
  imports Program
begin

text \<open>
  Every request keeps the program's invariant, whichever calls fail in it.
\<close>

named_theorems quiet_handlers \<open>handlers that leave uploads and sessions alone\<close>

section \<open>The S3 server\<close>

definition quiet_s3 :: "lib \<Rightarrow> string set \<Rightarrow> s3_server \<Rightarrow> s3_server \<Rightarrow> bool" where
  "quiet_s3 L N s s' \<longleftrightarrow> quiet_to L N (s3_store s) (s3_store s') \<and> s3_uploads s' = s3_uploads s"

lemma quiet_s3_refl: "store_inv L (s3_store s) \<Longrightarrow> quiet_s3 L N s s"
  by (simp add: quiet_s3_def quiet_refl)

lemma quiet_s3_trans: "quiet_s3 L N s s1 \<Longrightarrow> quiet_s3 L N s1 s2 \<Longrightarrow> quiet_s3 L N s s2"
  by (auto simp: quiet_s3_def intro: quiet_trans)

lemma quiet_s3_inv: "quiet_s3 L N s s' \<Longrightarrow> store_inv L (s3_store s')"
  by (simp add: quiet_s3_def quiet_to_def)

lemma quiet_s3_call:
  "s3_call f s = (r, s') \<Longrightarrow> quiet_to L N (s3_store s) (snd (f (s3_store s))) \<Longrightarrow> quiet_s3 L N s s'"
  by (auto simp: quiet_s3_def s3_call_def split: prod.splits)

lemma quiet_s3_buckets [quiet_handlers]:
  assumes "store_inv L (s3_store s)"
  shows "quiet_s3 L N s (snd (s3_listBuckets es s))" "quiet_s3 L N s (snd (s3_createBucket es bkt s))"
    "quiet_s3 L N s (snd (s3_headBucket es bkt s))" "quiet_s3 L N s (snd (s3_deleteBucket es bkt s))"
    "quiet_s3 L N s (snd (s3_getBucketLocation es bkt s))"
  unfolding s3_listBuckets_def s3_createBucket_def s3_headBucket_def s3_deleteBucket_def s3_getBucketLocation_def
  using assms by (auto elim!: quiet_s3_call intro: quiet_reads quiet_buckets split: prod.splits sum.splits)

lemma quiet_s3_objects [quiet_handlers]:
  assumes "store_inv L (s3_store s)"
  shows "quiet_s3 L N s (snd (s3_getObject L es r bkt key s))" "quiet_s3 L N s (snd (s3_deleteObject L es bkt key s))"
    "quiet_s3 L N s (snd (s3_listObjects L es r bkt s))"
  unfolding s3_getObject_def s3_deleteObject_def s3_listObjects_def Let_def
  using assms by (auto elim!: quiet_s3_call intro: quiet_reads quiet_buckets quiet_s3_refl
      split: prod.splits sum.splits option.splits if_splits)

lemma quiet_s3_deleteObjects_loop:
  "store_inv L (s3_store s) \<Longrightarrow> deleteObjects_loop L es i silent bkt keys s = (res, s') \<Longrightarrow> quiet_s3 L N s s'"
proof (induction keys arbitrary: i s res s')
  case (Cons key keys)
  obtain r s1 where c: "s3_call (DeleteObject L (es i) bkt key no_conditions) s = (r, s1)" by force
  obtain ds errs s2 where d: "deleteObjects_loop L es (Suc i) silent bkt keys s1 = ((ds, errs), s2)" by (metis surj_pair)
  have q: "quiet_s3 L N s s1" by (rule quiet_s3_call [OF c quiet_buckets(3) [OF Cons.prems(1)]])
  have "s' = s2" using Cons.prems(2) c d by (auto split: sum.splits if_splits)
  with quiet_s3_trans [OF q Cons.IH [OF quiet_s3_inv [OF q] d]] show ?case by simp
qed (simp add: quiet_s3_refl)

lemma quiet_s3_deleteObjects [quiet_handlers]:
  assumes "store_inv L (s3_store s)"
  shows "quiet_s3 L N s (snd (s3_deleteObjects L xml es r bkt s))"
proof (cases "xml (rq_Body r)")
  case (Inr req)
  obtain ds errs s2 where d: "deleteObjects_loop L es 0 (dr_Quiet req) bkt (dr_Objects req) s = ((ds, errs), s2)"
    by (metis surj_pair)
  with quiet_s3_deleteObjects_loop [OF assms d] Inr show ?thesis by (simp add: s3_deleteObjects_def)
qed (simp add: s3_deleteObjects_def quiet_s3_refl assms)

lemma quiet_s3_put [quiet_handlers]:
  assumes "store_inv L (s3_store s)" "json_decodes L"
  shows "quiet_s3 L (env_names es) s (snd (s3_putObject L es sched r bkt key s))"
  unfolding s3_putObject_def
  using assms by (auto elim!: quiet_s3_call intro: quiet_env_writes split: prod.splits sum.splits)

lemma quiet_s3_copy [quiet_handlers]:
  assumes "store_inv L (s3_store s)" "json_decodes L"
  shows "quiet_s3 L (env_names es) s (snd (s3_copyObject L es r bkt key s))"
proof -
  have "quiet_s3 L (env_names es) s s2"
    if "s3_call (OpenObject L (es 0) b k) s = (ro, s1)" "s3_call (PutObject L (es 1) bkt key ps en opts) s1 = (rp, s2)"
    for b k ro s1 ps en opts rp s2
  proof -
    have q: "quiet_s3 L (env_names es) s s1" by (rule quiet_s3_call [OF that(1) quiet_reads(3) [OF assms(1)]])
    have "quiet_s3 L (env_names es) s1 s2"
      using that(2) by (rule quiet_s3_call) (rule quiet_env_writes(1) [OF quiet_s3_inv [OF q] assms(2)])
    from quiet_s3_trans [OF q this]
    show ?thesis .
  qed
  then show ?thesis
    unfolding s3_copyObject_def
    using assms by (auto intro: quiet_s3_refl quiet_reads elim: quiet_s3_call split: prod.splits sum.splits)
qed

subsection \<open>Multipart uploads\<close>

definition s3_inv :: "lib \<Rightarrow> (string, uploadSession) table \<Rightarrow> s3_server \<Rightarrow> bool" where
  "s3_inv L ses s \<longleftrightarrow> srv_inv L (s3_store s) (s3_uploads s) ses"

lemma s3_inv_store: "s3_inv L ses s \<Longrightarrow> store_inv L (s3_store s)"
  by (simp add: s3_inv_def srv_inv_def)

lemma s3_inv_quiet:
  "s3_inv L ses s \<Longrightarrow> env_names es \<inter> ran (owns (s3_uploads s) ses) = {} \<Longrightarrow> quiet_s3 L (env_names es) s s' \<Longrightarrow> s3_inv L ses s'"
  unfolding s3_inv_def quiet_s3_def by (metis srv_inv_quiet)

lemma owns_tput:
  assumes "tsorted ups"
  shows "owns (tput uid up ups) ses (Part u k) =
      (if u = uid then map_option sp_tmp (map_of (mu_parts up) k) else owns ups ses (Part u k))"
    "owns (tput uid up ups) ses (Session u) = owns ups ses (Session u)"
    "owns (tdel uid ups) ses (Part u k) = (if u = uid then None else owns ups ses (Part u k))"
    "owns (tdel uid ups) ses (Session u) = owns ups ses (Session u)"
  using assms by (auto simp: tbl_simps)

lemma own_ok_del: "own_ok (owns ups ses) \<Longrightarrow> tsorted ups \<Longrightarrow> own_ok (owns (tdel uid ups) ses)"
proof (erule own_ok_sub)
  assume s: "tsorted ups"
  have "owns (tdel uid ups) ses a = Some n \<Longrightarrow> owns ups ses a = Some n" for a n
    by (cases a) (use s in \<open>auto simp: owns_tput simp del: owns.simps split: if_splits\<close>)
  then show "owns (tdel uid ups) ses \<subseteq>\<^sub>m owns ups ses" by (auto simp: map_le_def dom_def)
qed

lemma s3_inv_initiate:
  assumes inv: "s3_inv L ses s" and fr: "env_names es \<inter> ran (owns (s3_uploads s) ses) = {}"
  shows "s3_inv L ses (snd (initiateMultipartUpload es ib r bkt key s))"
proof -
  obtain rg s1 where c: "s3_call (GetBucket (es 0) bkt) s = (rg, s1)" by force
  have "quiet_s3 L (env_names es) s s1" by (rule quiet_s3_call [OF c quiet_reads(1) [OF s3_inv_store [OF inv]]])
  from s3_inv_quiet [OF inv fr this] have i: "s3_inv L ses s1" .
  let ?up = "\<lparr>mu_bucket = bkt, mu_key = key, mu_contentType = header_get r ''Content-Type'',
     mu_metadata = metadataFromHeaders (rq_Header r), mu_parts = [], mu_done = False\<rparr>"
  have st: "tsorted (s3_uploads s1)" using i by (simp add: s3_inv_def srv_inv_def)
  have "upload_ok L (s3_store s1) ?up" by (simp add: upload_ok_def tbl_inv)
  moreover have "own_ok (owns (tput (hexEncode ib) ?up (s3_uploads s1)) ses)"
  proof (rule own_ok_sub)
    show "own_ok (owns (s3_uploads s1) ses)" using i by (simp add: s3_inv_def srv_inv_def)
    have "owns (tput (hexEncode ib) ?up (s3_uploads s1)) ses a = Some n \<Longrightarrow> owns (s3_uploads s1) ses a = Some n" for a n
      by (cases a) (use st in \<open>auto simp: owns_tput simp del: owns.simps split: if_splits\<close>)
    then show "owns (tput (hexEncode ib) ?up (s3_uploads s1)) ses \<subseteq>\<^sub>m owns (s3_uploads s1) ses" by (auto simp: map_le_def dom_def)
  qed
  ultimately have "s3_inv L ses (s1\<lparr>s3_uploads := tput (hexEncode ib) ?up (s3_uploads s1)\<rparr>)"
    using i st by (auto simp: s3_inv_def srv_inv_def tbl_inv tbl_simps split: if_splits)
  with i c show ?thesis by (simp add: initiateMultipartUpload_def Let_def split: sum.splits)
qed

lemma lookupUpload_Inr:
  "lookupUpload r bkt key s = Inr up \<longleftrightarrow>
   map_of (s3_uploads s) (query_get r ''uploadId'') = Some up \<and> mu_bucket up = bkt \<and> mu_key up = key"
  by (auto simp: lookupUpload_def split: option.splits)

text \<open>A new part: its file is not one that is in use.\<close>

lemma s3_inv_new_part:
  assumes inv: "srv_inv L st ups ses" and up: "map_of ups uid = Some up"
    and q: "quiet_to L N st st'" "N \<inter> ran (owns ups ses) = {}"
    and p: "sp_tmp p \<in> N" "part_ok L st' p" "sp_bucket p = mu_bucket up"
  shows "srv_inv L st' (tput uid (up\<lparr>mu_parts := tput k p (mu_parts up)\<rparr>) ups) ses"
proof -
  let ?up = "up\<lparr>mu_parts := tput k p (mu_parts up)\<rparr>"
  have i: "srv_inv L st' ups ses" by (rule srv_inv_quiet [OF inv q])
  have s: "tsorted ups" "tsorted (mu_parts up)" using inv up by (auto simp: srv_inv_def upload_ok_def)
  have "upload_ok L st' ?up"
    using i up p s(2) by (auto simp: srv_inv_def upload_ok_def tbl_inv tbl_simps split: if_splits)
  moreover have "owns (tput uid ?up ups) ses = (owns ups ses)(Part uid k \<mapsto> sp_tmp p)"
  proof
    fix a show "owns (tput uid ?up ups) ses a = ((owns ups ses)(Part uid k \<mapsto> sp_tmp p)) a"
      using s up by (cases a) (auto simp: tbl_simps)
  qed
  moreover have "sp_tmp p \<notin> ran (owns ups ses)" using p(1) q(2) by blast
  ultimately show ?thesis
    using i s(1) own_ok_upd [of "owns ups ses"] by (auto simp: srv_inv_def tbl_inv tbl_simps split: if_splits)
qed

lemma TempFile_result:
  assumes inv: "store_inv L st" and run: "TempFile e bn st = (Inr n, st')"
  shows "n \<in> set (env_tmp_names e) \<and> tmp_at st' bn n = Some []"
  using inv run unfolding TempFile_def
proof (cases rule: on_bucket_cases)
  case (found h st1)
  obtain b' where c: "createTemp e (view st1 h) = (Inr n, b')" "st' = put_view h b' st1"
    using found(4) by (auto split: prod.splits)
  have st: "tsorted (st_root st1)" using found(1) by (simp add: store_inv_def)
  have "tsorted (dir_tmp (view st1 h))" by (rule bucket_inv_sorted_tmp [OF view_inv [OF found(1)]])
  then have "map_of (dir_tmp b') n = Some [] \<and> n \<in> set (env_tmp_names e)" using c(1)
    by (auto simp: createTemp_def dir_tmp_def tbl_simps find_Some_iff split: option.splits if_splits)
  moreover have "h_name (st_handles st1 ! h) = bn" by (rule handle_forD(2) [OF found(1,3)])
  ultimately show ?thesis
    using st c(2) by (auto simp: put_view_def tmp_at_set_dir dir_tmp_def split: option.splits)
qed simp

lemma quiet_copyPart:
  "store_inv L st \<Longrightarrow> copyPart e i bn n ps en h st = ((m, err), h', st') \<Longrightarrow> n \<in> N \<Longrightarrow> quiet_to L N st st'"
  using copyPart_store [of L st e i bn n ps en h m err h' st'] keeps_mono [of "{n}" st st' N]
  by (auto simp: quiet_to_def)

lemma quiet_remove_at: "store_inv L st \<Longrightarrow> quiet_to L N st (remove_at e bn n st)"
  by (simp add: quiet_to_def remove_at_store)

lemma s3_inv_uploadPart:
  assumes inv: "s3_inv L ses s" and fr: "env_names es \<inter> ran (owns (s3_uploads s) ses) = {}" and json: "json_decodes L"
  shows "s3_inv L ses (snd (uploadPart L es sched r bkt key s))"
proof (cases "lookupUpload r bkt key s")
  case (Inl resp)
  with inv show ?thesis by (simp add: uploadPart_def)
next
  case (Inr up)
  let ?uid = "query_get r ''uploadId''" and ?st = "s3_store s"
  have up: "map_of (s3_uploads s) ?uid = Some up" "mu_bucket up = bkt" using Inr by (auto simp: lookupUpload_Inr)
  note st = s3_inv_store [OF inv]
  obtain k perr where pn: "Atoi (query_get r ''partNumber'') = (k, perr)" by force
  obtain rt st1 where t: "TempFile (es 0) bkt ?st = (rt, st1)" by force
  have q1: "quiet_to L (env_names es) ?st st1" using quiet_env_writes(3) [OF st json, of es 0 bkt] t by simp
  have st1: "store_inv L st1" using q1 by (simp add: quiet_to_def)
  have ok_at: "s3_inv L ses (s\<lparr>s3_store := st'\<rparr>)" if "quiet_to L (env_names es) ?st st'" for st'
    using srv_inv_quiet [OF _ that fr] inv by (simp add: s3_inv_def)
  show ?thesis
  proof (cases rt)
    case (Inl err)
    with t Inr pn inv ok_at [OF q1] show ?thesis by (simp add: uploadPart_def s3_call_def)
  next
    case tmp: (Inr tmp)
    note tr = TempFile_result [OF st t [unfolded tmp]]
    have tn: "tmp \<in> env_names es" using tr by (auto simp: env_names_def)
    obtain ps en where b: "requestBody sched r = (ps, en)" by force
    obtain sz cerr h st2 where c: "copyPart (es 1) 0 bkt tmp ps en [] st1 = ((sz, cerr), h, st2)" by (metis surj_pair)
    have q2: "quiet_to L (env_names es) ?st st2" by (rule quiet_trans [OF q1 quiet_copyPart [OF st1 c tn]])
    have st2: "store_inv L st2" using q2 by (simp add: quiet_to_def)
    have q3: "quiet_to L (env_names es) ?st (remove_at e bn n st2)" for e bn n
      by (rule quiet_trans [OF q2 quiet_remove_at [OF st2]])
    let ?part = "\<lparr>sp_bucket = bkt, sp_tmp = tmp, sp_size = int sz, sp_md5 = lib_md5 L h\<rparr>"
    let ?st3 = "case map_of (mu_parts up) k of None \<Rightarrow> st2 | Some prev \<Rightarrow> remove_at (es 1) (sp_bucket prev) (sp_tmp prev) st2"
    have q4: "quiet_to L (env_names es) ?st ?st3" "keeps {} st2 ?st3"
      using q2 q3 remove_at_store(3) [OF st2] by (auto simp: keeps_refl split: option.split)
    have "srv_inv L ?st3 (tput ?uid (up\<lparr>mu_parts := tput k ?part (mu_parts up)\<rparr>) (s3_uploads s)) ses" if "cerr = None"
    proof (rule s3_inv_new_part [OF _ up(1) q4(1) fr])
      have cp: "h = concat ps \<and> sz = length (concat ps) \<and> tmp_at st2 bkt tmp = Some (concat ps)"
        using copyPart_store [OF st1 c] that tr by auto
      then have "c = concat ps" if "tmp_at ?st3 bkt tmp = Some c" for c
        using keeps_tmp [OF q4(2) _ that] by simp
      with cp show "part_ok L ?st3 ?part" by (auto simp: part_ok_def)
    qed (use inv tn up(2) in \<open>simp_all add: s3_inv_def\<close>)
    then have new: "s3_inv L ses (set_upload r (up\<lparr>mu_parts := tput k ?part (mu_parts up)\<rparr>) (s\<lparr>s3_store := ?st3\<rparr>))"
      if "cerr = None" using that by (simp add: s3_inv_def set_upload_def)
    show ?thesis
      using t tmp Inr pn b c inv ok_at [OF q3] new
      by (auto simp: uploadPart_def s3_call_def Let_def split: option.splits)
  qed
qed

lemma srv_inv_del_upload: "srv_inv L st ups ses \<Longrightarrow> srv_inv L st (tdel uid ups) ses"
  using own_ok_del [of ups ses uid] by (auto simp: srv_inv_def tbl_inv tbl_simps split: if_splits)

lemma quiet_removeParts: "store_inv L st \<Longrightarrow> quiet_to L N st (removeParts e up st)"
  using removeParts_store [of L st e up N] by (simp add: quiet_to_def)

lemma s3_inv_abort:
  assumes inv: "s3_inv L ses s"
  shows "s3_inv L ses (snd (abortMultipartUpload es r bkt key s))"
proof -
  have "srv_inv L (removeParts (es 0) up (s3_store s)) (tdel uid (s3_uploads s)) ses" for up uid
    using srv_inv_quiet [OF _ quiet_removeParts [OF s3_inv_store [OF inv]], where N = "{}"] inv
    by (intro srv_inv_del_upload) (auto simp: s3_inv_def)
  with inv show ?thesis
    by (auto simp: abortMultipartUpload_def del_upload_def s3_inv_def split: sum.splits)
qed

text \<open>The store after a new writer was filled with the parts: quiet, and the writer is known.\<close>

lemma fill_writer:
  assumes inv: "s3_inv L ses s" and fr: "env_names es \<inter> ran (owns (s3_uploads s) ses) = {}" and json: "json_decodes L"
    and up: "map_of (s3_uploads s) uid = Some up"
    and n: "NewBlobWriter (es i) bkt (s3_store s) = (Inr w, st1)"
    and c: "copyParts es j up w qs st1 = (er, w', st2)"
  shows "quiet_to L (env_names es) (s3_store s) st2" "live_st L st2 = live_st L (s3_store s)" "files_at st2 m = files_at (s3_store s) m"
    "er = None \<Longrightarrow> writer_st w' st2 \<and> \<not> bw_done w' \<and> h_name (st_handles st2 ! bw_b w') = bkt \<and>
       bw_sha w' = part_bytes up st1 qs \<and>
       (\<forall>q \<in> set qs. case map_of (mu_parts up) (cp_PartNumber q) of
          None \<Rightarrow> False | Some p \<Rightarrow> tmp_at st1 (sp_bucket p) (sp_tmp p) \<noteq> None)"
proof -
  note st = s3_inv_store [OF inv]
  note nb = NewBlobWriter_inv [OF st n]
  have st1: "store_inv L st1" "live_st L st1 = live_st L (s3_store s)" and w: "writer_st w st1" "handle_for bkt (bw_b w) st1" "bw_sha w = []" "\<not> bw_done w"
    using nb(1) nb(2) [OF refl] by auto
  have wn: "bw_tmp w \<in> env_names es" using keeps_NewBlobWriter(2) [OF st n refl] by (auto simp: env_names_def)
  have pn: "\<forall>k p. map_of (mu_parts up) k = Some p \<longrightarrow> sp_tmp p \<noteq> bw_tmp w"
  proof (intro allI impI)
    fix k p assume "map_of (mu_parts up) k = Some p"
    with up have "owns (s3_uploads s) ses (Part uid k) = Some (sp_tmp p)" by simp
    with fr wn show "sp_tmp p \<noteq> bw_tmp w" by (metis disjoint_iff ranI)
  qed
  note cp = copyParts_store [OF st1(1) w(1) c pn]
  have q1: "quiet_to L (env_names es) (s3_store s) st1" using quiet_env_writes(2) [OF st json, of es i bkt] n by simp
  have "quiet_to L (env_names es) st1 st2" using cp keeps_mono [of "{bw_tmp w}" st1 st2 "env_names es"] wn by (auto simp: quiet_to_def)
  with q1 show "quiet_to L (env_names es) (s3_store s) st2" by (rule quiet_trans)
  show "live_st L st2 = live_st L (s3_store s)" using cp st1(2) by simp
  show "files_at st2 m = files_at (s3_store s) m"
    using copyParts_store [OF st1(1) w(1) c pn, of m] NewBlobWriter_files [OF st n] by simp
  show "writer_st w' st2 \<and> \<not> bw_done w' \<and> h_name (st_handles st2 ! bw_b w') = bkt \<and> bw_sha w' = part_bytes up st1 qs \<and>
       (\<forall>q \<in> set qs. case map_of (mu_parts up) (cp_PartNumber q) of
          None \<Rightarrow> False | Some p \<Rightarrow> tmp_at st1 (sp_bucket p) (sp_tmp p) \<noteq> None)" if "er = None"
  proof -
    have h: "bw_b w < length (st_handles st1)" "h_name (st_handles st1 ! bw_b w) = bkt" using handle_forD [OF st1(1) w(2)] by auto
    have "h_name (st_handles st2 ! bw_b w) = bkt" using cp h by (auto simp: keeps_def)
    with cp that w show ?thesis by simp
  qed
qed

lemma s3_inv_complete:
  assumes inv: "s3_inv L ses s" and fr: "env_names es \<inter> ran (owns (s3_uploads s) ses) = {}" and json: "json_decodes L"
  shows "s3_inv L ses (snd (completeMultipartUpload L xml es r bkt key s))"
proof (cases "lookupUpload r bkt key s")
  case (Inl resp)
  with inv show ?thesis by (simp add: completeMultipartUpload_def)
next
  case (Inr up)
  note st = s3_inv_store [OF inv]
  have up: "map_of (s3_uploads s) (query_get r ''uploadId'') = Some up" using Inr by (simp add: lookupUpload_Inr)
  have ok_at: "s3_inv L ses (s\<lparr>s3_store := st'\<rparr>)" if "quiet_to L (env_names es) (s3_store s) st'" for st'
    using srv_inv_quiet [OF _ that fr] inv by (simp add: s3_inv_def)
  have asm: "s3_inv L ses (snd (assembleUpload L es r bkt key up parts s))" for parts
  proof -
    obtain rn st1 where n: "NewBlobWriter (es 0) bkt (s3_store s) = (rn, st1)" by force
    show ?thesis
    proof (cases rn)
      case (Inl err)
      have "quiet_to L (env_names es) (s3_store s) st1" using quiet_env_writes(2) [OF st json, of es 0 bkt] n by simp
      with n Inl ok_at show ?thesis by (simp add: assembleUpload_def s3_call_def)
    next
      case w: (Inr w)
      obtain er w' st2 where c: "copyParts es 1 up w parts st1 = (er, w', st2)" by (metis prod_cases3)
      note f = fill_writer [OF inv fr json up n [unfolded w] c]
      have st2: "store_inv L st2" using f(1) by (simp add: quiet_to_def)
      show ?thesis
      proof (cases er)
        case (Some er')
        obtain w2 st3 where a: "Abort (es (Suc (length parts))) w' st2 = (w2, st3)" by force
        have "quiet_to L (env_names es) st2 st3"
          using Abort_inv [OF st2 a] keeps_Abort [OF st2 a] by (simp add: quiet_to_def)
        from ok_at [OF quiet_trans [OF f(1) this]] n w c Some a show ?thesis by (simp add: assembleUpload_def s3_call_def)
      next
        case None
        let ?opts = "\<lparr>po_ContentType = mu_contentType up, po_Metadata = mu_metadata up, po_Conditions = no_conditions\<rparr>"
        obtain rc w2 st3 where cm: "Commit L (es (Suc (length parts))) w' key ?opts st2 = (rc, w2, st3)" by (metis prod_cases3)
        have "quiet_to L (env_names es) st2 st3"
          using Commit_inv(1) [OF st2 _ json cm] f(4) [OF None] keeps_Commit [OF st2 cm] by (simp add: quiet_to_def)
        then have q3: "quiet_to L (env_names es) (s3_store s) st3" by (rule quiet_trans [OF f(1)])
        then have st3: "store_inv L st3" by (simp add: quiet_to_def)
        have "srv_inv L (removeParts (es (Suc (Suc (length parts)))) up st3) (tdel (query_get r ''uploadId'') (s3_uploads s)) ses"
          using srv_inv_del_upload srv_inv_quiet [OF _ quiet_trans [OF q3 quiet_removeParts [OF st3]] fr] inv by (simp add: s3_inv_def)
        with ok_at [OF q3] n w c None cm show ?thesis
          by (cases rc) (simp_all add: assembleUpload_def s3_call_def del_upload_def s3_inv_def)
      qed
    qed
  qed
  show ?thesis
    unfolding completeMultipartUpload_def Inr sum.case
    by (cases "xml (rq_Body r)") (use inv asm in \<open>auto split: option.split\<close>)
qed

lemma s3_inv_serve:
  assumes inv: "s3_inv L ses s" and fr: "env_names (call_env W) \<inter> ran (owns (s3_uploads s) ses) = {}" and json: "json_decodes L"
  shows "s3_inv L ses (snd (ServeHTTP_s3 L W r s))"
proof -
  note st = s3_inv_store [OF inv]
  note q = s3_inv_quiet [OF inv fr]
  have "s3_inv L ses (snd (handleBucket L W r bkt s))" for bkt
    using q quiet_handlers [OF st] unfolding handleBucket_def by (auto simp: inv)
  moreover have "s3_inv L ses (snd (handleObject L W r bkt key s))" for bkt key
    using s3_inv_uploadPart [OF inv fr json] s3_inv_initiate [OF inv fr] s3_inv_complete [OF inv fr json] s3_inv_abort [OF inv]
      q quiet_s3_objects [OF st] quiet_s3_put [OF st json] quiet_s3_copy [OF st json]
    unfolding handleObject_def Let_def by (auto simp: inv)
  moreover have "s3_inv L ses (snd (s3_listBuckets (call_env W) s))" using q quiet_s3_buckets(1) [OF st] by blast
  ultimately show ?thesis
    unfolding ServeHTTP_s3_def by (auto simp: inv split: option.split list.split)
qed

section \<open>The GCS server\<close>

definition quiet_gs :: "lib \<Rightarrow> string set \<Rightarrow> gcs_server \<Rightarrow> gcs_server \<Rightarrow> bool" where
  "quiet_gs L N s s' \<longleftrightarrow> quiet_to L N (gs_store s) (gs_store s') \<and> gs_sessions s' = gs_sessions s"

lemma quiet_gs_refl: "store_inv L (gs_store s) \<Longrightarrow> quiet_gs L N s s"
  by (simp add: quiet_gs_def quiet_refl)

lemma quiet_gs_trans: "quiet_gs L N s s1 \<Longrightarrow> quiet_gs L N s1 s2 \<Longrightarrow> quiet_gs L N s s2"
  by (auto simp: quiet_gs_def intro: quiet_trans)

lemma quiet_gs_call:
  "gs_call f s = (r, s') \<Longrightarrow> quiet_to L N (gs_store s) (snd (f (gs_store s))) \<Longrightarrow> quiet_gs L N s s'"
  by (auto simp: quiet_gs_def gs_call_def split: prod.splits)

lemma quiet_gs_handlers:
  assumes "store_inv L (gs_store s)"
  shows "quiet_gs L N s (snd (gcs_createBucket json es r s))" "quiet_gs L N s (snd (gcs_getBucket es bkt s))"
    "quiet_gs L N s (snd (gcs_listBuckets es s))" "quiet_gs L N s (snd (gcs_deleteBucket es bkt s))"
    "quiet_gs L N s (snd (gcs_getObject L es r bkt obj s))" "quiet_gs L N s (snd (gcs_deleteObject L es r bkt obj s))"
    "quiet_gs L N s (snd (gcs_listObjects L es r bkt s))" "quiet_gs L N s (snd (serveMedia L es r bkt obj s))"
  unfolding gcs_createBucket_def gcs_getBucket_def gcs_listBuckets_def gcs_deleteBucket_def gcs_getObject_def
    gcs_deleteObject_def gcs_listObjects_def serveMedia_def
  using assms by (auto elim!: quiet_gs_call intro: quiet_reads quiet_buckets quiet_gs_refl
      split: prod.splits sum.splits option.splits)

lemma quiet_Abort: "store_inv L st \<Longrightarrow> quiet_to L N st (snd (Abort e w st))"
  using Abort_inv [of L st e w] keeps_Abort [of L st e w _ _ N] by (metis prod.collapse quiet_to_def)

lemma quiet_commitUpload:
  assumes "store_inv L (gs_store s)" "writer_st bw (gs_store s)" "json_decodes L"
    "commitUpload L e bw meta conds s = (resp, bw', s')"
  shows "quiet_gs L N s s'"
proof -
  let ?c = "Commit L e bw (om_Name meta) (upload_opts meta conds) (gs_store s)"
  have "quiet_to L N (gs_store s) (snd (snd ?c))"
    using Commit_inv(1) [OF assms(1-3)] keeps_Commit [OF assms(1)] by (metis prod.collapse quiet_to_def)
  with quiet_Abort [OF assms(1), of N e bw] assms(4) show ?thesis
    by (auto simp: commitUpload_def quiet_gs_def Let_def split: if_splits prod.splits option.splits sum.splits)
qed

lemma quiet_Copy:
  assumes "store_inv L st" "writer_st w st" "Copy e w ps en st = (r, w', st')" "bw_tmp w \<in> N"
  shows "quiet_to L N st st'"
proof -
  obtain n er where "r = (n, er)" by force
  with Copy_inv(1) [OF assms(1,2)] keeps_mono [OF keeps_Copy(1) [OF assms(1,3)], of N] assms(3,4) show ?thesis
    by (auto simp: quiet_to_def)
qed

lemma quiet_gcs_put:
  assumes "store_inv L (gs_store s)" "json_decodes L"
  shows "quiet_gs L (env_names es) s (snd (gcs_putObject L es media bkt meta conds s))"
proof -
  obtain rn st1 where n: "NewBlobWriter (es 0) bkt (gs_store s) = (rn, st1)" by force
  have q1: "quiet_to L (env_names es) (gs_store s) st1" using quiet_env_writes(2) [OF assms, of es 0 bkt] n by simp
  show ?thesis
  proof (cases rn)
    case (Inl err)
    with n q1 show ?thesis by (simp add: gcs_putObject_def gs_call_def quiet_gs_def)
  next
    case (Inr w)
    note nb = NewBlobWriter_inv [OF assms(1) n]
    have st1: "store_inv L st1" "writer_st w st1" using nb(1) nb(2) [OF Inr] by auto
    have wn: "bw_tmp w \<in> env_names es" using keeps_NewBlobWriter(2) [OF assms(1) n Inr] by (auto simp: env_names_def)
    obtain k cer w' st2 where c: "Copy (es 1) w (fst media) (snd media) st1 = ((k, cer), w', st2)" by (metis surj_pair)
    have q2: "quiet_to L (env_names es) (gs_store s) st2" by (rule quiet_trans [OF q1 quiet_Copy [OF st1 c wn]])
    then have st2: "store_inv L st2" by (simp add: quiet_to_def)
    show ?thesis
    proof (cases cer)
      case (Some er)
      with n Inr c quiet_trans [OF q2 quiet_Abort [OF st2]] show ?thesis
        by (simp add: gcs_putObject_def gs_call_def quiet_gs_def)
    next
      case None
      have w': "writer_st w' st2" using Copy_inv(2) [OF st1 c None] by simp
      obtain resp bw' s3 where cu: "commitUpload L (es 2) w' meta conds (s\<lparr>gs_store := st2\<rparr>) = (resp, bw', s3)"
        by (metis prod_cases3)
      have "quiet_gs L (env_names es) (s\<lparr>gs_store := st2\<rparr>) s3" by (rule quiet_commitUpload [OF _ _ assms(2) cu]) (simp_all add: st2 w')
      moreover have "quiet_gs L (env_names es) s (s\<lparr>gs_store := st2\<rparr>)" using q2 by (simp add: quiet_gs_def)
      ultimately have "quiet_gs L (env_names es) s s3" by (blast intro: quiet_gs_trans)
      with n Inr c None cu show ?thesis by (simp add: gcs_putObject_def gs_call_def)
    qed
  qed
qed

subsection \<open>Resumable sessions\<close>

definition gs_inv :: "lib \<Rightarrow> (string, multipartUpload) table \<Rightarrow> gcs_server \<Rightarrow> bool" where
  "gs_inv L ups s \<longleftrightarrow> srv_inv L (gs_store s) ups (gs_sessions s)"

lemma gs_inv_store: "gs_inv L ups s \<Longrightarrow> store_inv L (gs_store s)"
  by (simp add: gs_inv_def srv_inv_def)

lemma gs_inv_quiet:
  "gs_inv L ups s \<Longrightarrow> env_names es \<inter> ran (owns ups (gs_sessions s)) = {} \<Longrightarrow> quiet_gs L (env_names es) s s' \<Longrightarrow> gs_inv L ups s'"
  unfolding gs_inv_def quiet_gs_def by (metis srv_inv_quiet)

lemma owns_tput_session:
  assumes "tsorted ses"
  shows "owns ups (tput uid sess ses) = (owns ups ses)(Session uid \<mapsto> bw_tmp (us_bw sess))"
    "owns ups (tdel uid ses) = (owns ups ses)(Session uid := None)"
proof -
  show "owns ups (tput uid sess ses) = (owns ups ses)(Session uid \<mapsto> bw_tmp (us_bw sess))"
  proof
    fix a show "owns ups (tput uid sess ses) a = ((owns ups ses)(Session uid \<mapsto> bw_tmp (us_bw sess))) a"
      using assms by (cases a) (auto simp: tbl_simps)
  qed
  show "owns ups (tdel uid ses) = (owns ups ses)(Session uid := None)"
  proof
    fix a show "owns ups (tdel uid ses) a = ((owns ups ses)(Session uid := None)) a"
      using assms by (cases a) (auto simp: tbl_simps)
  qed
qed

lemma srv_inv_del_session: "srv_inv L st ups ses \<Longrightarrow> srv_inv L st ups (tdel uid ses)"
  using own_ok_sub [of "owns ups ses" "(owns ups ses)(Session uid := None)"]
  by (auto simp: srv_inv_def tbl_inv tbl_simps owns_tput_session map_le_def split: if_splits)

text \<open>A session on a file that nobody else uses: a new one, or the same one further on.\<close>

lemma srv_inv_put_session:
  assumes inv: "srv_inv L st ups (tdel uid ses)" and s: "tsorted ses" and ok: "session_ok st sess"
    and own: "bw_tmp (us_bw sess) \<notin> ran (owns ups (tdel uid ses))"
  shows "srv_inv L st ups (tput uid sess ses)"
proof -
  have o: "owns ups (tput uid sess ses) = (owns ups (tdel uid ses))(Session uid \<mapsto> bw_tmp (us_bw sess))"
    using s by (simp add: owns_tput_session)
  have "own_ok (owns ups (tput uid sess ses))"
    unfolding o using inv own by (intro own_ok_upd) (auto simp: srv_inv_def)
  moreover have "map_of (tdel uid ses) u = (if u = uid then None else map_of ses u)" for u using s by (simp add: tbl_simps)
  ultimately show ?thesis
    using inv ok s unfolding srv_inv_def by (auto simp: tbl_inv tbl_simps split: if_splits)
qed

lemma gs_inv_start:
  assumes inv: "gs_inv L ups s" and fr: "env_names es \<inter> ran (owns ups (gs_sessions s)) = {}" and json: "json_decodes L"
  shows "gs_inv L ups (snd (startResumableUpload M es ib r bkt conds s))"
proof (cases "start_meta M r")
  case (Inl m)
  with inv show ?thesis by (simp add: startResumableUpload_def)
next
  case (Inr meta)
  note st = gs_inv_store [OF inv]
  obtain rn st1 where n: "NewBlobWriter (es 0) bkt (gs_store s) = (rn, st1)" by force
  have q1: "quiet_to L (env_names es) (gs_store s) st1" using quiet_env_writes(2) [OF st json, of es 0 bkt] n by simp
  have i1: "srv_inv L st1 ups (gs_sessions s)" using srv_inv_quiet [OF _ q1 fr] inv by (simp add: gs_inv_def)
  show ?thesis
  proof (cases rn)
    case (Inl err)
    with n i1 Inr show ?thesis by (simp add: startResumableUpload_def gs_call_def gs_inv_def)
  next
    case w: (Inr w)
    note nb = NewBlobWriter_inv [OF st n]
    have w': "store_inv L st1" "writer_st w st1" "handle_for bkt (bw_b w) st1" "\<not> bw_done w" using nb(1) nb(2) [OF w] by auto
    have wn: "bw_tmp w \<in> env_names es" using keeps_NewBlobWriter(2) [OF st n w] by (auto simp: env_names_def)
    let ?uid = "hexEncode ib" and ?sess = "\<lparr>us_bucket = bkt, us_meta = meta, us_conds = conds, us_bw = w, us_offset = 0, us_done = False\<rparr>"
    have s: "tsorted (gs_sessions s)" using inv by (simp add: gs_inv_def srv_inv_def)
    have "srv_inv L st1 ups (tput ?uid ?sess (gs_sessions s))"
    proof (rule srv_inv_put_session [OF srv_inv_del_session [OF i1] s])
      show "session_ok st1 ?sess" using w' handle_forD(2) [OF w'(1,3)] by (simp add: session_ok_def)
      have "ran (owns ups (tdel ?uid (gs_sessions s))) \<subseteq> ran (owns ups (gs_sessions s))"
        using s by (auto simp: owns_tput_session ran_def split: if_splits)
      with fr wn show "bw_tmp (us_bw ?sess) \<notin> ran (owns ups (tdel ?uid (gs_sessions s)))" by auto
    qed
    with n w Inr show ?thesis by (simp add: startResumableUpload_def gs_call_def gs_inv_def set_session_def Let_def)
  qed
qed

lemma Copy_writer:
  assumes i: "store_inv L st" and w: "writer_st w st" and run: "Copy e w ps en st = (rw, w', st')"
  shows "writer_st w' st'"
proof -
  obtain b' where c: "copy_b e 0 w ps en (view st (bw_b w)) = (rw, w', b')" and st': "st' = put_view (bw_b w) b' st"
    using run by (auto simp: Copy_def split: prod.splits)
  have wo: "writer_ok w (view st (bw_b w))" using w by (simp add: writer_st_def)
  have srt: "tsorted (st_root st)" using i by (simp add: store_inv_def)
  note b' = copy_b_inv [OF view_inv [OF i] wo c] and kc = keeps_Copy [OF i run]
  have "view st' (bw_b w) = b'" unfolding st' by (rule view_put_view [OF srt]) (use b' in auto)
  then show ?thesis using b' w kc(3) by (simp add: writer_st_def) (simp add: st' bk)
qed

lemma session_copy_store:
  assumes "store_inv L st" "session_ok st sess" "session_copy e r sess st = (res, sess', st')"
  shows "quiet_to L {bw_tmp (us_bw sess)} st st' \<and> session_ok st' sess' \<and> bw_tmp (us_bw sess') = bw_tmp (us_bw sess)"
proof -
  obtain bw' where c: "Copy e (us_bw sess) (fst (rq_Body r)) (snd (rq_Body r)) st = (res, bw', st')" "sess' = sess\<lparr>us_bw := bw'\<rparr>"
    using assms(3) by (auto simp: session_copy_def split: prod.splits)
  have w: "writer_st (us_bw sess) st" using assms(2) by (simp add: session_ok_def)
  have q: "quiet_to L {bw_tmp (us_bw sess)} st st'" by (rule quiet_Copy [OF assms(1) w c(1)]) simp
  moreover have "session_ok st' sess'"
    using assms(2) Copy_writer [OF assms(1) w c(1)] keeps_Copy [OF assms(1) c(1)] q c(2) w
    by (auto simp: session_ok_def quiet_to_def keeps_def writer_st_def)
  ultimately show ?thesis using keeps_Copy(2) [OF assms(1) c(1)] c(2) by simp
qed

lemma receiveChunk_store:
  assumes "store_inv L st" "session_ok st sess" "receiveChunk e r sess st = (res, sess', st')"
  shows "quiet_to L {bw_tmp (us_bw sess)} st st' \<and> session_ok st' sess' \<and> bw_tmp (us_bw sess') = bw_tmp (us_bw sess)"
proof -
  obtain n er s1 st1 where c: "session_copy e r sess st = ((n, er), s1, st1)" by (metis surj_pair)
  note k = session_copy_store [OF assms(1,2) c]
  have "sess' = sess \<and> st' = st \<or> (\<exists>off. sess' = s1\<lparr>us_offset := off\<rparr> \<and> st' = st1)"
  proof -
    have same: "s1 = s1\<lparr>us_offset := us_offset s1\<rparr>" by simp
    show ?thesis
      using assms(3) c unfolding receiveChunk_def Let_def
      by (auto split: option.splits prod.splits if_splits) (use same in blast)+
  qed
  with k assms(1,2) show ?thesis by (auto simp: quiet_refl session_ok_def)
qed

lemma gs_inv_chunk:
  assumes inv: "gs_inv L ups s" and json: "json_decodes L"
  shows "gs_inv L ups (snd (handleResumableChunk L es r uid s))"
proof (cases "map_of (gs_sessions s) uid")
  case None
  with inv show ?thesis by (simp add: handleResumableChunk_def)
next
  case (Some sess)
  note st = gs_inv_store [OF inv]
  let ?ses = "gs_sessions s" and ?n = "bw_tmp (us_bw sess)"
  have i: "srv_inv L (gs_store s) ups ?ses" using inv by (simp add: gs_inv_def)
  have s: "tsorted ?ses" and ok: "session_ok (gs_store s) sess" and own: "own_ok (owns ups ?ses)"
    using i Some by (auto simp: srv_inv_def)
  obtain res sess' st' where rc: "receiveChunk (es 0) r sess (gs_store s) = (res, sess', st')" by (metis prod_cases3)
  note k = receiveChunk_store [OF st ok rc]
  have mine: "?n \<notin> ran (owns ups (tdel uid ?ses))"
  proof
    assume "?n \<in> ran (owns ups (tdel uid ?ses))"
    then obtain a where a: "owns ups (tdel uid ?ses) a = Some ?n" by (auto simp: ran_def)
    then have "a \<noteq> Session uid" "owns ups ?ses a = Some ?n" using s by (auto simp: owns_tput_session split: if_splits)
    moreover have "owns ups ?ses (Session uid) = Some ?n" using Some by simp
    ultimately show False using own unfolding own_ok_def by blast
  qed
  then have "{?n} \<inter> ran (owns ups (tdel uid ?ses)) = {}" by simp
  from srv_inv_quiet [OF srv_inv_del_session [OF i] conjunct1 [OF k] this]
  have del: "srv_inv L st' ups (tdel uid ?ses)" .
  then have put: "gs_inv L ups (set_session uid sess' (s\<lparr>gs_store := st'\<rparr>))"
    using srv_inv_put_session [OF del s] k mine by (simp add: gs_inv_def set_session_def)
  obtain resp bw' s2 where cu: "commitUpload L (es 1) (us_bw sess') (us_meta sess') (us_conds sess')
      (del_session uid (s\<lparr>gs_store := st'\<rparr>)) = (resp, bw', s2)" by (metis prod_cases3)
  have "quiet_gs L {} (del_session uid (s\<lparr>gs_store := st'\<rparr>)) s2"
    using k del by (intro quiet_commitUpload [OF _ _ json cu]) (auto simp: del_session_def session_ok_def srv_inv_def)
  then have "gs_inv L ups s2"
    using srv_inv_quiet [OF del, of "{}" "gs_store s2"] by (simp add: gs_inv_def quiet_gs_def del_session_def)
  with put inv Some rc cu show ?thesis by (cases res) (auto simp: handleResumableChunk_def)
qed

lemma gs_inv_upload:
  assumes inv: "gs_inv L ups s" and fr: "env_names es \<inter> ran (owns ups (gs_sessions s)) = {}" and json: "json_decodes L"
  shows "gs_inv L ups (snd (handleUpload L M es ib r bkt s))"
proof -
  note put = gs_inv_quiet [OF inv fr quiet_gcs_put [OF gs_inv_store [OF inv] json]]
  have "gs_inv L ups (snd (handleMultipartUpload L M es r bkt conds s))" for conds
    using put inv by (auto simp: handleMultipartUpload_def Let_def split: option.split sum.split)
  with put gs_inv_chunk [OF inv json] gs_inv_start [OF inv fr json] inv show ?thesis
    by (auto simp: handleUpload_def split: sum.split)
qed

lemma gs_inv_serve:
  assumes inv: "gs_inv L ups s" and fr: "env_names (gw_env W) \<inter> ran (owns ups (gs_sessions s)) = {}" and json: "json_decodes L"
  shows "gs_inv L ups (snd (ServeHTTP_gcs L W r s))"
proof -
  note q = gs_inv_quiet [OF inv fr] quiet_gs_handlers [OF gs_inv_store [OF inv]]
  have "gs_inv L ups (snd (handleStorageV1 L W r segs s))" for segs
    using q inv by (auto simp: handleStorageV1_def Let_def split: list.split)
  with q gs_inv_upload [OF inv fr json] inv show ?thesis
    by (auto simp: ServeHTTP_gcs_def split: option.split)
qed

section \<open>The program\<close>

text \<open>What the program asks of a server: a request whose calls try random names that are not in use keeps
  what is good, and which servers listen does not change.\<close>

locale request_server =
  fixes serve :: "'w \<Rightarrow> request \<Rightarrow> program \<Rightarrow> 'resp \<times> program"
    and names :: "'w \<Rightarrow> nat \<Rightarrow> env"
    and good :: "program \<Rightarrow> bool"
  assumes serve_good: "good p \<Longrightarrow> fresh_names (names w) p \<Longrightarrow> serve w r p = (resp, p') \<Longrightarrow> good p'"
    and serve_servers: "serve w r p = (resp, p') \<Longrightarrow> pg_servers p' = pg_servers p"

locale two_servers =
  a: request_server serve1 names1 good + b: request_server serve2 names2 good
  for serve1 :: "'w1 \<Rightarrow> request \<Rightarrow> program \<Rightarrow> 'resp1 \<times> program" and names1
    and serve2 :: "'w2 \<Rightarrow> request \<Rightarrow> program \<Rightarrow> 'resp2 \<times> program" and names2
    and good :: "program \<Rightarrow> bool"
begin

text \<open>One request to either server.\<close>

definition either :: "program \<Rightarrow> program \<Rightarrow> bool" where
  "either p p' \<longleftrightarrow>
     (\<exists>w r resp. fresh_names (names1 w) p \<and> serve1 w r p = (resp, p')) \<or>
     (\<exists>w r resp. fresh_names (names2 w) p \<and> serve2 w r p = (resp, p'))"

lemma either_good: "either p p' \<Longrightarrow> good p \<Longrightarrow> good p' \<and> pg_servers p' = pg_servers p"
  using a.serve_good a.serve_servers b.serve_good b.serve_servers unfolding either_def by blast

text \<open>Any number of requests, to either server in any order.\<close>

lemma requests_good: "either\<^sup>*\<^sup>* p p' \<Longrightarrow> good p \<Longrightarrow> good p' \<and> pg_servers p' = pg_servers p"
proof (induction rule: rtranclp_induct)
  case (step q p')
  then show ?case using either_good [of q p'] by auto
qed simp

end

lemma serve_s3_inv:
  assumes "json_decodes L" "prog_inv L p" "fresh_names (call_env W) p" "serve_s3 L W r p = (resp, p')"
  shows "prog_inv L p'"
proof -
  let ?s = "\<lparr>s3_store = pg_store p, s3_uploads = pg_uploads p\<rparr>"
  have "s3_inv L (pg_sessions p) (snd (ServeHTTP_s3 L W r ?s))"
    using assms(1-3) by (intro s3_inv_serve) (auto simp: s3_inv_def prog_inv_def fresh_names_def)
  with assms(4) show ?thesis by (auto simp: serve_s3_def prog_inv_def s3_inv_def split: prod.splits)
qed

lemma serve_gcs_inv:
  assumes "json_decodes L" "prog_inv L p" "fresh_names (gw_env W) p" "serve_gcs L W r p = (resp, p')"
  shows "prog_inv L p'"
proof -
  let ?s = "\<lparr>gs_store = pg_store p, gs_sessions = pg_sessions p\<rparr>"
  have "gs_inv L (pg_uploads p) (snd (ServeHTTP_gcs L W r ?s))"
    using assms(1-3) by (intro gs_inv_serve) (auto simp: gs_inv_def prog_inv_def fresh_names_def)
  with assms(4) show ?thesis by (auto simp: serve_gcs_def prog_inv_def gs_inv_def split: prod.splits)
qed

interpretation servers: two_servers "serve_s3 L" call_env "serve_gcs L" gw_env "\<lambda>p. json_decodes L \<and> prog_inv L p" for L
proof
  show "json_decodes L \<and> prog_inv L p'"
    if "json_decodes L \<and> prog_inv L p" "fresh_names (call_env w) p" "serve_s3 L w r p = (resp, p')" for p w r resp p'
    using that serve_s3_inv by blast
  show "json_decodes L \<and> prog_inv L p'"
    if "json_decodes L \<and> prog_inv L p" "fresh_names (gw_env w) p" "serve_gcs L w r p = (resp, p')" for p w r resp p'
    using that serve_gcs_inv by blast
qed (auto simp: serve_s3_def serve_gcs_def split: prod.splits)

lemma serves_either: "serves L p p' \<Longrightarrow> servers.either L p p'"
  unfolding servers.either_def by (cases rule: serves.cases) auto

lemma serves_inv:
  assumes "json_decodes L" "serves L p p'" "prog_inv L p"
  shows "prog_inv L p'" "pg_servers p' = pg_servers p"
  using servers.either_good [OF serves_either [OF assms(2)]] assms(1,3) by auto

text \<open>A start, on a directory that is consistent.\<close>

lemma main_start_inv:
  assumes "root_ok L root" "main_start e a1 a2 root = Inr p"
  shows "prog_inv L p" "st_root (pg_store p) = root" "pg_uploads p = []" "pg_sessions p = []" "pg_servers p = main_servers a1 a2"
proof -
  have "own_ok (owns [] [])" unfolding own_ok_def
  proof (intro allI impI)
    fix a b n assume "owns [] [] a = Some n" then show "a = b" by (cases a) auto
  qed
  with assms show "prog_inv L p"
    using Open_inv [OF assms(1), of e]
    by (auto simp: main_start_def prog_inv_def srv_inv_def NewServer_s3_def NewServer_gcs_def tbl_inv result_bind_Inr)
  show "st_root (pg_store p) = root" "pg_uploads p = []" "pg_sessions p = []" "pg_servers p = main_servers a1 a2"
    using assms(2) by (auto simp: main_start_def Open_def NewServer_s3_def NewServer_gcs_def result_bind_Inr split: if_splits)
qed

lemma main_stop_root [simp]: "main_stop e p = st_root (pg_store p)"
  by (simp add: main_stop_def Close_def fold_close_simps)

lemma root_ok_store: "store_inv L st \<Longrightarrow> root_ok L (st_root st)"
  by (simp add: store_inv_def root_ok_def)

lemma prog_inv_store: "prog_inv L p \<Longrightarrow> store_inv L (pg_store p)"
  by (simp add: prog_inv_def srv_inv_def)

lemma served_inv:
  assumes "json_decodes L" "root_ok L root" "served L root p"
  shows "prog_inv L p"
  using assms(3)
proof induction
  case (started e a1 a2 p)
  then show ?case using main_start_inv(1) [OF assms(2)] by blast
next
  case (request p p')
  then show ?case using serves_inv(1) [OF assms(1)] by blast
next
  case (restarted p e a1 a2 e' p')
  then show ?case using main_start_inv(1) [OF root_ok_store [OF prog_inv_store]] by auto
next
  case (crashed p e a1 a2 p')
  then show ?case using main_start_inv(1) [OF root_ok_store [OF prog_inv_store]] by blast
qed

end
