(* ===== verification/Store_List_Spec.thy ===== *)
theory Store_List_Spec
  imports Store_List
begin

text \<open>
  What a listing should contain, and that the batched scan of \<open>Store_List\<close> produces it: the
  reference listing, its pages, and the client that follows page tokens.
\<close>

section \<open>The reference listing\<close>

datatype entry = Entry_object object_info | Entry_prefix string

text \<open>The common prefix a name is grouped under: up to the first delimiter after the prefix.\<close>

definition common_prefix :: "string \<Rightarrow> string \<Rightarrow> string \<Rightarrow> string option" where
  "common_prefix p d name =
     (if d = [] then None
      else map_option (\<lambda>idx. p @ take (idx + length d) (drop (length p) name))
             (Index (drop (length p) name) d))"

text \<open>One entry per object that is not grouped and one per group, each with the name it starts
  at. The objects are given in the order of their names.\<close>

function entries :: "string \<Rightarrow> string \<Rightarrow> object_info list \<Rightarrow> (string \<times> entry) list" where
  "entries p d [] = []"
| "entries p d (i # is) =
     (case common_prefix p d (oi_Name i) of
        None \<Rightarrow> (oi_Name i, Entry_object i) # entries p d is
      | Some cp \<Rightarrow> (oi_Name i, Entry_prefix cp) # entries p d (dropWhile (\<lambda>j. prefix cp (oi_Name j)) is))"
  by pat_completeness auto
termination
  by (relation "measure (\<lambda>(p, d, is). length is)") (auto simp: le_imp_less_Suc length_dropWhile_le)

definition page_objects :: "(string \<times> entry) list \<Rightarrow> object_info list" where
  "page_objects es = List.map_filter (\<lambda>(n, x). case x of Entry_object i \<Rightarrow> Some i | _ \<Rightarrow> None) es"

definition page_prefixes :: "(string \<times> entry) list \<Rightarrow> string list" where
  "page_prefixes es = List.map_filter (\<lambda>(n, x). case x of Entry_prefix c \<Rightarrow> Some c | _ \<Rightarrow> None) es"

text \<open>A page: the first \<open>m\<close> entries, and the name the rest starts at.\<close>

definition page :: "nat \<Rightarrow> (string \<times> entry) list \<Rightarrow> list_result" where
  "page m es =
     \<lparr>lr_Objects = page_objects (take m es), lr_Prefixes = page_prefixes (take m es),
      lr_NextPageToken = (if m < length es then fst (es ! m) else [])\<rparr>"

text \<open>Delimiters that end in a byte below 0x7f, such as \<^verbatim>\<open>/\<close>.\<close>

definition plain_delim :: "string \<Rightarrow> bool" where
  "plain_delim d \<longleftrightarrow> d = [] \<or> byte_val (last d) < 127"

definition names_sorted :: "object_info list \<Rightarrow> bool" where
  "names_sorted is \<longleftrightarrow> sorted_wrt (<) (map oi_Name is)"

section \<open>Emitting entries\<close>

text \<open>What the scan does with the entries: add them to the result until the limit is reached.\<close>

fun emit :: "nat \<Rightarrow> list_result \<Rightarrow> nat \<Rightarrow> (string \<times> entry) list \<Rightarrow> list_result" where
  "emit m res cnt [] = res"
| "emit m res cnt ((n, x) # es) =
     (if m \<le> cnt then res\<lparr>lr_NextPageToken := n\<rparr>
      else emit m (case x of Entry_object i \<Rightarrow> add_object i res | Entry_prefix c \<Rightarrow> add_prefix c res) (Suc cnt) es)"

lemma page_objects_simps [simp]:
  "page_objects [] = []"
  "page_objects ((n, Entry_object i) # es) = i # page_objects es"
  "page_objects ((n, Entry_prefix c) # es) = page_objects es"
  "page_prefixes [] = []"
  "page_prefixes ((n, Entry_object i) # es) = page_prefixes es"
  "page_prefixes ((n, Entry_prefix c) # es) = c # page_prefixes es"
  by (simp_all add: page_objects_def page_prefixes_def List.map_filter_simps)

lemma emit_page:
  "emit (cnt + k) res cnt es =
     (let pg = page k es
      in res\<lparr>lr_Objects := lr_Objects res @ lr_Objects pg, lr_Prefixes := lr_Prefixes res @ lr_Prefixes pg,
             lr_NextPageToken := (if k < length es then lr_NextPageToken pg else lr_NextPageToken res)\<rparr>)"
proof (induction es arbitrary: k res cnt)
  case (Cons e es)
  obtain n x where e: "e = (n, x)" by (cases e)
  show ?case
  proof (cases k)
    case 0
    then show ?thesis by (simp add: e page_def Let_def)
  next
    case (Suc k')
    with Cons.IH [of "Suc cnt" k'] show ?thesis
      by (cases x) (auto simp: e page_def Let_def add_object_def add_prefix_def)
  qed
qed (simp add: page_def Let_def)

lemma emit_empty: "emit m empty_result 0 es = page m es"
  using emit_page [of 0 m empty_result es] by (simp add: Let_def empty_result_def page_def)

section \<open>Skipping a group\<close>

lemma ascii_tail_append: "d \<noteq> [] \<Longrightarrow> byte_val (last d) < 127 \<Longrightarrow> ascii_tail (x @ d)"
  by (cases d rule: rev_cases) (auto simp: ascii_tail_snoc simp flip: append_assoc)

lemma common_prefix_Some:
  assumes "common_prefix p d name = Some cp" "prefix p name" "plain_delim d"
  shows "prefix cp name" "ascii_tail cp"
proof -
  obtain idx where i: "d \<noteq> []" "Index (drop (length p) name) d = Some idx"
      and cp: "cp = p @ take (idx + length d) (drop (length p) name)"
    using assms(1) by (auto simp: common_prefix_def split: if_splits)
  from assms(2) have "name = p @ drop (length p) name" by (auto simp: prefix_def)
  with cp show "prefix cp name" by (metis same_prefix_prefix take_is_prefix)
  have "cp = (p @ take idx (drop (length p) name)) @ d" using cp Index_take [OF i(2)] by simp
  then show "ascii_tail cp" using i(1) assms(3) ascii_tail_append by (simp add: plain_delim_def)
qed

lemma dropWhile_sorted:
  "sorted_wrt (<) (map f xs) \<Longrightarrow> dropWhile (\<lambda>x. f x < b) xs = filter (\<lambda>x. b \<le> f x) (xs :: 'x list)"
  for f :: "'x \<Rightarrow> string"
proof (induction xs)
  case (Cons x xs)
  show ?case
  proof (cases "f x < b")
    case False
    then have "\<forall>y \<in> set xs. b \<le> f y" using Cons.prems by (auto simp: not_less intro: less_imp_le)
    with False show ?thesis by (simp add: not_less)
  qed (use Cons in auto)
qed simp

text \<open>Jumping to the successor of a common prefix leaves exactly the names after its group.\<close>

lemma skip_group:
  assumes s: "names_sorted (i # is)" and cp: "prefix cp (oi_Name i)" "ascii_tail cp"
  shows "prefixSuccessor cp \<noteq> [] \<Longrightarrow>
      dropWhile (\<lambda>j. prefix cp (oi_Name j)) is = filter (\<lambda>j. prefixSuccessor cp \<le> oi_Name j) (i # is)"
    and "prefixSuccessor cp = [] \<Longrightarrow> dropWhile (\<lambda>j. prefix cp (oi_Name j)) is = []"
proof -
  have ge: "cp \<le> oi_Name j" if "j \<in> set (i # is)" for j
    using that s prefix_le [OF cp(1)] by (auto simp: names_sorted_def dest: less_imp_le order_trans)
  have st: "sorted_wrt (<) (map oi_Name is)" using s by (simp add: names_sorted_def)
  show "dropWhile (\<lambda>j. prefix cp (oi_Name j)) is = filter (\<lambda>j. prefixSuccessor cp \<le> oi_Name j) (i # is)"
    if nx: "prefixSuccessor cp \<noteq> []"
  proof -
    have "prefix cp (oi_Name j) \<longleftrightarrow> oi_Name j < prefixSuccessor cp" if "j \<in> set (i # is)" for j
      using prefixSuccessor_ge [OF cp(2) nx ge [OF that]] by auto
    then have "dropWhile (\<lambda>j. prefix cp (oi_Name j)) is = dropWhile (\<lambda>j. oi_Name j < prefixSuccessor cp) is"
        "\<not> prefixSuccessor cp \<le> oi_Name i"
      using cp(1) by (auto intro!: dropWhile_cong simp: not_le)
    with dropWhile_sorted [OF st] show ?thesis by simp
  qed
  show "dropWhile (\<lambda>j. prefix cp (oi_Name j)) is = []" if "prefixSuccessor cp = []"
    using prefixSuccessor_exact [OF cp(2)] that ge by (simp add: dropWhile_eq_Nil_conv)
qed

section \<open>The scan produces the page\<close>

lemma batch_loop_spec:
  assumes "plain_delim d" "names_sorted (is @ js)" "\<forall>i \<in> set (is @ js). prefix p (oi_Name i)"
  shows "\<exists>res' cnt' ex. batch_loop p d m is res cnt = Inr (res', cnt', ex) \<and>
    (case ex of
       Break_scan \<Rightarrow> emit m res cnt (entries p d (is @ js)) = res'
     | Continue_scan nxt \<Rightarrow>
         (\<exists>i \<in> set is. oi_Name i < nxt) \<and>
         emit m res cnt (entries p d (is @ js)) =
           emit m res' cnt' (entries p d (filter (\<lambda>j. nxt \<le> oi_Name j) (is @ js)))
     | Batch_done \<Rightarrow> emit m res cnt (entries p d (is @ js)) = emit m res' cnt' (entries p d js))"
  using assms
proof (induction "is" arbitrary: res cnt)
  case (Cons i "is")
  have pi: "prefix p (oi_Name i)" "\<not> length (oi_Name i) < length p"
    using Cons.prems(3) prefix_length_le by (auto simp: not_less)
  have s: "names_sorted (is @ js)" "\<forall>i \<in> set (is @ js). prefix p (oi_Name i)"
    using Cons.prems by (auto simp: names_sorted_def)
  show ?case
  proof (cases "m \<le> cnt")
    case True
    then show ?thesis by (simp split: option.split)
  next
    case False
    show ?thesis
    proof (cases "common_prefix p d (oi_Name i)")
      case None
      then have "(if d \<noteq> [] then Index (drop (length p) (oi_Name i)) d else None) = None"
        by (auto simp: common_prefix_def)
      with Cons.IH [OF Cons.prems(1) s, of "add_object i res" "Suc cnt"] False pi None
      obtain res' cnt' ex where ih: "batch_loop p d m is (add_object i res) (Suc cnt) = Inr (res', cnt', ex)"
        "case ex of
           Break_scan \<Rightarrow> emit m (add_object i res) (Suc cnt) (entries p d (is @ js)) = res'
         | Continue_scan nxt \<Rightarrow>
             (\<exists>i \<in> set is. oi_Name i < nxt) \<and>
             emit m (add_object i res) (Suc cnt) (entries p d (is @ js)) =
               emit m res' cnt' (entries p d (filter (\<lambda>j. nxt \<le> oi_Name j) (is @ js)))
         | Batch_done \<Rightarrow> emit m (add_object i res) (Suc cnt) (entries p d (is @ js)) = emit m res' cnt' (entries p d js)"
        by blast
      have "\<not> nxt \<le> oi_Name i" if "k \<in> set is" "oi_Name k < nxt" for nxt k
        using that Cons.prems(2) by (auto simp: names_sorted_def not_le dest: less_trans)
      with ih None False pi \<open>(if d \<noteq> [] then Index (drop (length p) (oi_Name i)) d else None) = None\<close>
      show ?thesis by (auto split: scan_exit.splits)
    next
      case (Some cp)
      then obtain idx where idx: "(if d \<noteq> [] then Index (drop (length p) (oi_Name i)) d else None) = Some idx"
          "cp = p @ take (idx + length d) (drop (length p) (oi_Name i))"
        by (auto simp: common_prefix_def split: if_splits)
      note cp = common_prefix_Some [OF Some pi(1) Cons.prems(1)]
      have st: "names_sorted (i # (is @ js))" using Cons.prems(2) by simp
      note sk = skip_group [OF st cp]
      have lt: "oi_Name i < prefixSuccessor cp" if "prefixSuccessor cp \<noteq> []"
        using prefixSuccessor_exact [OF cp(2), of "oi_Name i"] cp(1) that by simp
      show ?thesis
      proof (cases "prefixSuccessor cp = []")
        case True
        have "emit m res cnt (entries p d ((i # is) @ js)) = add_prefix cp res"
          using False Some sk(2) [OF True] by (simp del: dropWhile_eq_Nil_conv)
        with True idx False pi show ?thesis by (simp add: Let_def)
      next
        case nx: False
        have "emit m res cnt (entries p d ((i # is) @ js)) =
            emit m (add_prefix cp res) (Suc cnt)
              (entries p d (filter (\<lambda>j. prefixSuccessor cp \<le> oi_Name j) ((i # is) @ js)))"
          using False Some sk(1) [OF nx] by (simp del: filter.simps)
        with nx idx False pi lt show ?thesis by (simp add: Let_def del: filter.simps)
      qed
    qed
  qed
qed simp

lemma scan_rows_filter:
  "scan_rows L bn t = Inr is \<Longrightarrow>
   scan_rows L bn (filter (\<lambda>e. P (fst e)) t) = Inr (filter (\<lambda>i. P (oi_Name i)) is)"
  by (induction t arbitrary: "is") (auto simp: result_bind_Inr scanObject_Inr(1))

lemma scan_rows_take: "scan_rows L bn t = Inr is \<Longrightarrow> scan_rows L bn (take k t) = Inr (take k is)"
proof (induction t arbitrary: "is" k)
  case (Cons e t)
  then show ?case by (cases k) (auto simp: result_bind_Inr)
qed simp

lemma scan_rows_names: "scan_rows L bn t = Inr is \<Longrightarrow> map oi_Name is = map fst t"
  by (induction t arbitrary: "is") (auto simp: result_bind_Inr scanObject_Inr(1))

lemma names_sorted_filter: "names_sorted is \<Longrightarrow> names_sorted (filter P is)"
  by (simp add: names_sorted_def sorted_wrt_map sorted_wrt_filter)

lemma names_sorted_append:
  "names_sorted (xs @ ys) \<longleftrightarrow> names_sorted xs \<and> names_sorted ys \<and>
     (\<forall>x \<in> set xs. \<forall>y \<in> set ys. oi_Name x < oi_Name y)"
  by (auto simp: names_sorted_def sorted_wrt_append)

text \<open>The names in the range of a scan all have the prefix.\<close>

lemma in_range_prefix:
  "ascii_tail p \<Longrightarrow> p \<le> lo \<Longrightarrow> in_range lo (prefixSuccessor p) name \<Longrightarrow> prefix p name"
  using prefixSuccessor_exact [of p name] by (auto simp: in_range_def)

text \<open>Continuing after a full batch, at the last name with a zero byte appended.\<close>

lemma rest_after_batch:
  assumes s: "names_sorted (xs @ ys)" and x: "xs \<noteq> []"
  shows "filter (\<lambda>i. oi_Name (last xs) @ [char_of (0::nat)] \<le> oi_Name i) (xs @ ys) = ys"
proof -
  obtain zs z where z: "xs = zs @ [z]" using x by (cases xs rule: rev_cases) auto
  have "\<not> oi_Name z < oi_Name i" if "i \<in> set xs" for i
    using s z that by (auto simp: names_sorted_def sorted_wrt_append dest: less_asym)
  moreover have "oi_Name z < oi_Name i" if "i \<in> set ys" for i
    using s z that by (auto simp: names_sorted_def sorted_wrt_append)
  ultimately have "filter (\<lambda>i. oi_Name z < oi_Name i) xs = []" "filter (\<lambda>i. oi_Name z < oi_Name i) ys = ys"
    by (auto simp: filter_empty_conv)
  with z show ?thesis by (simp flip: less_iff_snoc0)
qed

lemma list_loop_spec:
  assumes rows: "scan_rows L bn t = Inr is" and s: "names_sorted is"
    and d: "plain_delim d" and p: "ascii_tail p" and e: "\<not> env_fails e Sys_Query"
  shows "p \<le> nxt \<Longrightarrow> list_loop L e bn t p d m (prefixSuccessor p) nxt res cnt =
    Inr (emit m res cnt (entries p d (filter (\<lambda>i. in_range nxt (prefixSuccessor p) (oi_Name i)) is)))"
proof (induction "m - cnt" arbitrary: nxt res cnt rule: less_induct)
  case less
  let ?hi = "prefixSuccessor p"
  let ?R = "\<lambda>nxt. filter (\<lambda>i. in_range nxt ?hi (oi_Name i)) is"
  let ?bs = "take batchSize (?R nxt)" and ?js = "drop batchSize (?R nxt)"
  have batch: "scan_rows L bn (query_batch nxt ?hi t) = Inr ?bs"
    unfolding query_batch_def by (rule scan_rows_take [OF scan_rows_filter [OF rows]])
  have sR: "names_sorted (?bs @ ?js)" using names_sorted_filter [OF s] by simp
  have pR: "\<forall>i \<in> set (?bs @ ?js). prefix p (oi_Name i)"
    using in_range_prefix [OF p less.prems] by simp
  have narrow: "filter (\<lambda>j. lo \<le> oi_Name j) (?R nxt) = ?R lo" if "i \<in> set (?R nxt)" "oi_Name i < lo" for lo i
    using that by (auto simp: in_range_def intro!: filter_cong dest: le_less_trans less_imp_le order_trans)
  obtain res' cnt' ex where bl: "batch_loop p d m ?bs res cnt = Inr (res', cnt', ex)" and
    ex: "case ex of
       Break_scan \<Rightarrow> emit m res cnt (entries p d (?bs @ ?js)) = res'
     | Continue_scan nx \<Rightarrow>
         (\<exists>i \<in> set ?bs. oi_Name i < nx) \<and>
         emit m res cnt (entries p d (?bs @ ?js)) =
           emit m res' cnt' (entries p d (filter (\<lambda>j. nx \<le> oi_Name j) (?bs @ ?js)))
     | Batch_done \<Rightarrow> emit m res cnt (entries p d (?bs @ ?js)) = emit m res' cnt' (entries p d ?js)"
    using batch_loop_spec [OF d sR pR] by blast
  note step = list_loop.simps [of L e bn t p d m ?hi nxt res cnt]
  show ?case
  proof (cases ex)
    case Break_scan
    with ex bl batch e step show ?thesis by simp
  next
    case (Continue_scan nx)
    then obtain i where i: "i \<in> set ?bs" "oi_Name i < nx" using ex by auto
    then have iR: "i \<in> set (?R nxt)" by (rule_tac in_set_takeD)
    then have "nxt \<le> oi_Name i" by (simp add: in_range_def)
    with i less.prems have "p \<le> nx" by (meson le_less_trans less_imp_le order_trans)
    moreover have "m - cnt' < m - cnt" using batch_loop_count [OF bl] Continue_scan by auto
    ultimately have "list_loop L e bn t p d m ?hi nx res' cnt' = Inr (emit m res' cnt' (entries p d (?R nx)))"
      using less.hyps by blast
    with Continue_scan ex bl batch e step narrow [OF iR i(2)] show ?thesis by simp
  next
    case Batch_done
    show ?thesis
    proof (cases "length ?bs < batchSize")
      case True
      then have "length (?R nxt) < batchSize" by (simp add: min_def split: if_splits)
      then have "?js = []" "?bs = ?R nxt" "length (?R nxt) < batchSize" by simp_all
      with Batch_done ex bl batch e step show ?thesis by simp
    next
      case False
      then have ne: "?bs \<noteq> []" by (auto simp: batchSize_def)
      let ?nx = "oi_Name (last ?bs) @ [char_of (0::nat)]"
      have l: "last ?bs \<in> set (?R nxt)" using ne last_in_set in_set_takeD by metis
      have lt: "oi_Name (last ?bs) < ?nx" by (simp add: less_iff_snoc0)
      have "nxt \<le> oi_Name (last ?bs)" using l by (simp add: in_range_def)
      with lt less.prems have "p \<le> ?nx" by (meson le_less_trans less_imp_le order_trans)
      moreover have "0 < length ?bs" using ne by (simp only: length_greater_0_conv not_False_eq_True)
      then have "m - cnt' < m - cnt"
        using batch_loop_count [OF bl] Batch_done ne by (simp del: length_take take_eq_Nil add: diff_less_mono2)
      ultimately have "list_loop L e bn t p d m ?hi ?nx res' cnt' = Inr (emit m res' cnt' (entries p d (?R ?nx)))"
        using less.hyps by blast
      moreover have "?R ?nx = ?js"
        using rest_after_batch [OF sR ne] narrow [OF l lt] by simp
      ultimately show ?thesis using False Batch_done ex bl batch e step by simp
    qed
  qed
qed

section \<open>Pages\<close>

text \<open>The names of the entries rise, and each is the name of one of the objects.\<close>

lemma entries_names: "n \<in> fst ` set (entries p d is) \<Longrightarrow> n \<in> oi_Name ` set is"
proof (induction p d "is" rule: entries.induct)
  case (2 p d i "is")
  then show ?case by (auto split: option.splits dest: set_dropWhileD)
qed simp

lemma entries_length: "length (entries p d is) \<le> length is"
proof (induction p d "is" rule: entries.induct)
  case (2 p d i "is")
  show ?case
  proof (cases "common_prefix p d (oi_Name i)")
    case (Some cp)
    with 2(2) [OF Some] length_dropWhile_le [of "\<lambda>j. prefix cp (oi_Name j)" "is"] show ?thesis by simp
  qed (use 2 in simp)
qed simp

text \<open>Restarting at the name of the \<open>k\<close>-th entry drops the entries before it.\<close>

lemma names_sorted_drop: "names_sorted (i # is) \<Longrightarrow> names_sorted (dropWhile P is)"
  by (metis names_sorted_append names_sorted_def list.simps(9) sorted_wrt.simps(2) takeWhile_dropWhile_id)

lemma entries_restart:
  "names_sorted is \<Longrightarrow> k < length (entries p d is) \<Longrightarrow>
   entries p d (filter (\<lambda>i. fst (entries p d is ! k) \<le> oi_Name i) is) = drop k (entries p d is)"
proof (induction p d "is" arbitrary: k rule: entries.induct)
  case (2 p d i "is")
  define js where "js = (case common_prefix p d (oi_Name i) of None \<Rightarrow> is
    | Some cp \<Rightarrow> dropWhile (\<lambda>j. prefix cp (oi_Name j)) is)"
  define x where "x = (case common_prefix p d (oi_Name i) of None \<Rightarrow> Entry_object i | Some cp \<Rightarrow> Entry_prefix cp)"
  obtain ds where ds: "is = ds @ js"
    by (cases "common_prefix p d (oi_Name i)") (auto simp: js_def, metis takeWhile_dropWhile_id)
  have es: "entries p d (i # is) = (oi_Name i, x) # entries p d js"
    by (simp add: js_def x_def split: option.split)
  have sj: "names_sorted js" using "2.prems"(1) ds by (simp add: names_sorted_def sorted_wrt_append)
  show ?case
  proof (cases k)
    case 0
    have "filter (\<lambda>j. oi_Name i \<le> oi_Name j) (i # is) = i # is"
      using "2.prems"(1) by (auto simp: names_sorted_def intro!: filter_True less_imp_le)
    with 0 es show ?thesis by simp
  next
    case (Suc k')
    let ?n = "fst (entries p d js ! k')"
    have k': "k' < length (entries p d js)" using "2.prems"(2) Suc es by simp
    then have "?n \<in> oi_Name ` set js" by (intro entries_names [of _ p d]) auto
    then have "\<not> ?n \<le> oi_Name i" "\<forall>j \<in> set ds. \<not> ?n \<le> oi_Name j"
      using "2.prems"(1) ds by (auto simp: names_sorted_def sorted_wrt_append not_le)
    then have "filter (\<lambda>j. ?n \<le> oi_Name j) (i # is) = filter (\<lambda>j. ?n \<le> oi_Name j) js"
      by (simp add: ds filter_empty_conv)
    moreover have "entries p d (filter (\<lambda>j. ?n \<le> oi_Name j) js) = drop k' (entries p d js)"
      using 2(1,2) sj k' by (cases "common_prefix p d (oi_Name i)") (auto simp: js_def)
    ultimately show ?thesis using Suc es by simp
  qed
qed simp

text \<open>The entries a request with a page token starts from.\<close>

definition entries_from :: "string \<Rightarrow> string \<Rightarrow> object_info list \<Rightarrow> string \<Rightarrow> (string \<times> entry) list" where
  "entries_from p d is token =
     entries p d (filter (\<lambda>i. prefix p (oi_Name i) \<and> token \<le> oi_Name i) is)"

lemma entries_from_next:
  assumes "names_sorted is" "m < length (entries_from p d is token)"
  shows "entries_from p d is (fst (entries_from p d is token ! m)) = drop m (entries_from p d is token)"
proof -
  let ?R = "filter (\<lambda>i. prefix p (oi_Name i) \<and> token \<le> oi_Name i) is"
  let ?n = "fst (entries p d ?R ! m)"
  have "m < length (entries p d ?R)" using assms(2) by (simp add: entries_from_def)
  then have "?n \<in> oi_Name ` set ?R" by (intro entries_names [of _ p d]) auto
  then have "token \<le> ?n" by auto
  then have "filter (\<lambda>i. prefix p (oi_Name i) \<and> ?n \<le> oi_Name i) is = filter (\<lambda>i. ?n \<le> oi_Name i) ?R"
    by (auto intro!: filter_cong)
  then show ?thesis
    using entries_restart [OF names_sorted_filter [OF assms(1)] \<open>m < length (entries p d ?R)\<close>]
    unfolding entries_from_def by (simp only:)
qed

lemma range_filter:
  assumes "ascii_tail p"
  shows "in_range (if p < token then token else p) (prefixSuccessor p) name \<longleftrightarrow> prefix p name \<and> token \<le> name"
  using prefixSuccessor_exact [OF assms, of name] prefix_le [of p name]
  by (auto simp: in_range_def not_less)

text \<open>The bucket's objects in name order.\<close>

definition objects_of :: "lib \<Rightarrow> bucket \<Rightarrow> object_info list" where
  "objects_of L b =
     (case b_db b of None \<Rightarrow> []
      | Some x \<Rightarrow> (case scan_rows L (b_name b) (db_objects x) of Inl _ \<Rightarrow> [] | Inr is \<Rightarrow> is))"

lemma scan_rows_total:
  "\<forall>e \<in> set t. \<exists>i. scanObject L bn (fst e) (snd e) = Inr i \<Longrightarrow> \<exists>is. scan_rows L bn t = Inr is"
  by (induction t) auto

lemma objects_of:
  assumes "bucket_inv L b" "b_db b = Some x"
  shows "scan_rows L (b_name b) (db_objects x) = Inr (objects_of L b)" "names_sorted (objects_of L b)"
    "map oi_Name (objects_of L b) = map fst (db_objects x)"
proof -
  have x: "tsorted (db_objects x)" "\<And>n r. map_of (db_objects x) n = Some r \<Longrightarrow> row_ok L n r"
    using assms by (auto simp: bucket_inv_def db_inv_def)
  have "\<exists>i. scanObject L (b_name b) (fst e) (snd e) = Inr i" if "e \<in> set (db_objects x)" for e
    using x(2) [of "fst e" "snd e"] tbl.get_rows [OF x(1)] that row_ok_scans by auto
  then obtain "is" where "is": "scan_rows L (b_name b) (db_objects x) = Inr is" using scan_rows_total by blast
  then show r: "scan_rows L (b_name b) (db_objects x) = Inr (objects_of L b)" by (simp add: objects_of_def assms(2))
  then show "map oi_Name (objects_of L b) = map fst (db_objects x)" by (rule scan_rows_names)
  with x(1) show "names_sorted (objects_of L b)" by (simp add: names_sorted_def tsorted_def)
qed

text \<open>A request returns the page of the reference listing that starts at its token.\<close>

lemma listObjects_b_spec:
  assumes "bucket_inv L b" "\<not> b_closed b" "b_db b = Some x" "\<not> env_fails e Sys_Query"
    "ascii_tail (lq_Prefix req)" "plain_delim (lq_Delimiter req)"
  shows "listObjects_b L e b req =
    Inr (page (page_limit (lq_MaxResults req))
      (entries_from (lq_Prefix req) (lq_Delimiter req) (objects_of L b) (lq_PageToken req)))"
proof -
  let ?nx = "if lq_Prefix req < lq_PageToken req then lq_PageToken req else lq_Prefix req"
  have "lq_Prefix req \<le> ?nx" by auto
  from list_loop_spec [OF objects_of(1,2) [OF assms(1,3)] assms(6,5,4) this, of "page_limit (lq_MaxResults req)" empty_result 0]
  show ?thesis
    using assms(2,3) by (simp add: listObjects_b_def openDb_def Let_def emit_empty range_filter [OF assms(5)] entries_from_def)
qed

section \<open>Following page tokens\<close>

text \<open>
  What a client of a paginated listing relies on: a request at a token returns the page of the
  entries from that token, and the entries from the token it returns are the remaining ones. A
  client that asks again with every token it is given collects the whole listing.
\<close>

locale paginated =
  fixes ready :: "'q \<Rightarrow> bool"
    and request :: "'q \<Rightarrow> string \<Rightarrow> 'err + list_result"
    and listing :: "'q \<Rightarrow> string \<Rightarrow> (string \<times> entry) list"
    and limit :: "'q \<Rightarrow> nat"
  assumes request: "ready q \<Longrightarrow> request q token = Inr (page (limit q) (listing q token))"
    and resume: "ready q \<Longrightarrow> limit q < length (listing q token) \<Longrightarrow>
      listing q (fst (listing q token ! limit q)) = drop (limit q) (listing q token)"
    and named: "ready q \<Longrightarrow> limit q < length (listing q token) \<Longrightarrow> fst (listing q token ! limit q) \<noteq> []"
    and positive: "0 < limit q"

text \<open>The client: the objects and prefixes of all pages, \<open>None\<close> when the fuel ends first.\<close>

fun drain :: "(string \<Rightarrow> 'err + list_result) \<Rightarrow> nat \<Rightarrow> string \<Rightarrow> (object_info list \<times> string list) option" where
  "drain req 0 token = None"
| "drain req (Suc k) token =
     (case req token of Inl _ \<Rightarrow> None
      | Inr pg \<Rightarrow>
          if lr_NextPageToken pg = [] then Some (lr_Objects pg, lr_Prefixes pg)
          else map_option (\<lambda>(os, ps). (lr_Objects pg @ os, lr_Prefixes pg @ ps))
                 (drain req k (lr_NextPageToken pg)))"

lemma page_objects_append [simp]:
  "page_objects (xs @ ys) = page_objects xs @ page_objects ys"
  "page_prefixes (xs @ ys) = page_prefixes xs @ page_prefixes ys"
  by (simp_all add: page_objects_def page_prefixes_def List.map_filter_def)

lemma page_split:
  "page_objects (take m es) @ page_objects (drop m es) = page_objects es"
  "page_prefixes (take m es) @ page_prefixes (drop m es) = page_prefixes es"
  by (metis append_take_drop_id page_objects_append(1)) (metis append_take_drop_id page_objects_append(2))

lemma page_entries: "length (page_objects es) + length (page_prefixes es) = length es"
proof (induction es)
  case (Cons e es)
  then show ?case by (cases e; cases "snd e") auto
qed simp

context paginated
begin

lemma drain_all:
  "ready q \<Longrightarrow> length (listing q token) < k \<Longrightarrow>
   drain (request q) k token = Some (page_objects (listing q token), page_prefixes (listing q token))"
proof (induction k arbitrary: token)
  case (Suc k)
  show ?case
  proof (cases "limit q < length (listing q token)")
    case True
    let ?nx = "fst (listing q token ! limit q)"
    note rs = resume [OF Suc.prems(1) True]
    have "length (listing q ?nx) < k" using rs positive [of q] True Suc.prems(2) by simp
    from Suc.IH [OF Suc.prems(1) this] rs named [OF Suc.prems(1) True] True show ?thesis
      by (simp add: request [OF Suc.prems(1)] page_def page_split)
  qed (simp add: request [OF Suc.prems(1)] page_def)
qed simp

lemma page_bounded:
  "ready q \<Longrightarrow> request q token = Inr pg \<Longrightarrow> length (lr_Objects pg) + length (lr_Prefixes pg) \<le> limit q"
  using page_entries [of "take (limit q) (listing q token)"] by (auto simp: request page_def)

end

text \<open>The store's listing is such an interface: in a consistent bucket, with a prefix and a
  delimiter of plain bytes, while no call fails.\<close>

definition list_ready :: "lib \<Rightarrow> env \<times> bucket \<times> list_request \<Rightarrow> bool" where
  "list_ready L = (\<lambda>(e, b, req). bucket_inv L b \<and> \<not> b_closed b \<and> b_db b \<noteq> None \<and>
     \<not> env_fails e Sys_Query \<and> ascii_tail (lq_Prefix req) \<and> plain_delim (lq_Delimiter req))"

definition list_from :: "lib \<Rightarrow> env \<times> bucket \<times> list_request \<Rightarrow> string \<Rightarrow> store_error + list_result" where
  "list_from L = (\<lambda>(e, b, req) token. listObjects_b L e b (req\<lparr>lq_PageToken := token\<rparr>))"

definition list_entries :: "lib \<Rightarrow> env \<times> bucket \<times> list_request \<Rightarrow> string \<Rightarrow> (string \<times> entry) list" where
  "list_entries L = (\<lambda>(e, b, req). entries_from (lq_Prefix req) (lq_Delimiter req) (objects_of L b))"

definition list_limit :: "env \<times> bucket \<times> list_request \<Rightarrow> nat" where
  "list_limit = (\<lambda>(e, b, req). page_limit (lq_MaxResults req))"

lemma entries_from_named:
  assumes "bucket_inv L b" "b_db b = Some x" "k < length (entries_from p d (objects_of L b) token)"
  shows "fst (entries_from p d (objects_of L b) token ! k) \<noteq> []"
proof -
  let ?n = "fst (entries_from p d (objects_of L b) token ! k)"
  have "?n \<in> fst ` set (entries_from p d (objects_of L b) token)" using assms(3) by (intro imageI nth_mem)
  then have "?n \<in> oi_Name ` set (objects_of L b)" unfolding entries_from_def using entries_names by fastforce
  then have "?n \<in> fst ` set (db_objects x)" using objects_of(3) [OF assms(1,2)] by (metis list.set_map)
  then obtain r where "map_of (db_objects x) ?n = Some r" by (metis domD dom_map_of_conv_image_fst)
  then have "validObjectName ?n" using assms(1,2) by (auto simp: bucket_inv_def db_inv_def row_ok_def)
  then show ?thesis by (auto simp: validObjectName_def)
qed

interpretation store_pages: paginated "list_ready L" "list_from L" "list_entries L" list_limit for L
proof
  fix q :: "env \<times> bucket \<times> list_request" and token
  obtain e b req where q: "q = (e, b, req)" by (cases q)
  show "0 < list_limit q" by (auto simp: q list_limit_def page_limit_def defaultMaxResults_def)
  assume "list_ready L q"
  then obtain x where r: "bucket_inv L b" "\<not> b_closed b" "b_db b = Some x" "\<not> env_fails e Sys_Query"
      "ascii_tail (lq_Prefix req)" "plain_delim (lq_Delimiter req)"
    by (auto simp: q list_ready_def)
  show "list_from L q token = Inr (page (list_limit q) (list_entries L q token))"
    using listObjects_b_spec [OF r(1-4), of "req\<lparr>lq_PageToken := token\<rparr>"] r(5,6)
    by (simp add: q list_from_def list_entries_def list_limit_def)
  assume m: "list_limit q < length (list_entries L q token)"
  then show "list_entries L q (fst (list_entries L q token ! list_limit q)) = drop (list_limit q) (list_entries L q token)"
    using entries_from_next [OF objects_of(2) [OF r(1,3)]] by (simp add: q list_entries_def)
  show "fst (list_entries L q token ! list_limit q) \<noteq> []"
    using m entries_from_named [OF r(1,3)] by (simp add: q list_entries_def)
qed

end
