(* ===== verification/Store_Demo.thy ===== *)
theory Store_Demo
  imports Store_Machine Store_List_Spec
begin

text \<open>
  A concrete instance of the libraries and of the environment, and a small store in it: what the
  theorems' hypotheses are shown to hold of. The digests of the instance are the identity (which
  has no collisions) and JSON knows one metadata map.
\<close>

definition demo_lib :: lib where
  "demo_lib = \<lparr>lib_sha256 = (\<lambda>c. c), lib_md5 = (\<lambda>c. c), lib_crc32c = (\<lambda>c. of_nat (length c)),
     lib_marshal = (\<lambda>_. ''{k:v}''), lib_unmarshal = (\<lambda>_. Some [(''k'', ''v'')])\<rparr>"

text \<open>A call at time \<open>t\<close> in which the calls of \<open>bad\<close> fail.\<close>

definition demo_env :: "int \<Rightarrow> syscall list \<Rightarrow> string list \<Rightarrow> env" where
  "demo_env t bad names =
     \<lparr>env_now = t, env_fails = (\<lambda>s. s \<in> set bad), env_tmp_names = names, env_accepts = (\<lambda>_. None)\<rparr>"

definition demo_opts :: "metadata \<Rightarrow> put_options" where
  "demo_opts md = \<lparr>po_ContentType = ''text/plain'', po_Metadata = md, po_Conditions = no_conditions\<rparr>"

definition empty_store :: store where
  "empty_store = \<lparr>st_root = [], st_buckets = [], st_handles = []\<rparr>"

text \<open>A store with the bucket \<open>abc\<close>, and the same with one object in it.\<close>

definition demo_store :: store where
  "demo_store = snd (CreateBucket (demo_env 100 [] []) ''abc'' empty_store)"

definition demo_store1 :: store where
  "demo_store1 = snd (PutObject demo_lib (demo_env 200 [] [''t1'']) ''abc'' ''x'' [''he'', ''llo''] EOF
     (demo_opts [(''k'', ''v'')]) demo_store)"

lemma demo_lib_ok [simp]:
  "json_decodes demo_lib" "json_roundtrip demo_lib []" "json_roundtrip demo_lib [(''k'', ''v'')]"
  by (simp_all add: json_decodes_def json_roundtrip_def demo_lib_def)

lemma demo_collision_free [simp]: "collision_free demo_lib files c"
  by (simp add: collision_free_def demo_lib_def list_all_iff)

lemma demo_env_simps [simp]:
  "fault_free (demo_env t [] names)" "env_now (demo_env t bad names) = t"
  "env_fails (demo_env t bad names) s \<longleftrightarrow> s \<in> set bad" "env_tmp_names (demo_env t bad names) = names"
  by (simp_all add: fault_free_def demo_env_def)

lemma empty_store_inv: "store_inv L empty_store"
  using Open_inv [OF root_ok_empty, of quiet empty_store L] by (simp add: Open_def quiet_def empty_store_def)

lemma demo_store_inv: "store_inv L demo_store"
  using CreateBucket_inv [OF empty_store_inv] unfolding demo_store_def by (metis surj_pair snd_conv)

lemma demo_store1_inv: "store_inv demo_lib demo_store1"
  using PutObject_inv(1) [OF demo_store_inv demo_lib_ok(1)] unfolding demo_store1_def by (metis surj_pair snd_conv)

lemma demo_bucket: "bucket_exists demo_store ''abc''" "bucket_exists demo_store1 ''abc''"
  by code_simp+

lemma demo_tmp:
  "tmp_ready (demo_env 300 [] [''t2'']) demo_store ''abc''" "tmp_ready (demo_env 300 [] [''t2'']) demo_store1 ''abc''"
  by code_simp+

text \<open>What the second store shows.\<close>

lemma demo_live:
  "live_st demo_lib demo_store1 ''abc'' ''x'' =
     Some (commit_info ''abc'' ''x'' 200 (demo_opts [(''k'', ''v'')]) 200 (hexEncode ''hello'') ''hello'' 5 5, ''hello'')"
  "live_st demo_lib demo_store ''abc'' ''x'' = None"
  by code_simp+

end
