(* ===== verification/Go_Exec.thy ===== *)
theory Go_Exec
  imports Http
begin

text \<open>
  Equations for evaluation: the number conversions compute on binary integers instead of unary
  natural numbers.
\<close>

fun parseUint_int :: "int \<Rightarrow> int \<Rightarrow> string \<Rightarrow> num_error + int" where
  "parseUint_int base n [] = Inr n"
| "parseUint_int base n (c # s) =
     (case digit_val c of
        None \<Rightarrow> Inl ErrSyntax
      | Some d \<Rightarrow>
          if base \<le> int d then Inl ErrSyntax
          else if 18446744073709551615 div base + 1 \<le> n then Inl ErrRange
          else if 18446744073709551615 < n * base + int d then Inl ErrRange
          else parseUint_int base (n * base + int d) s)"

lemma max_uint64_int: "int max_uint64 = 18446744073709551615"
  by (simp add: max_uint64_def)

lemma parseUint_loop_int: "map_sum id int (parseUint_loop base n s) = parseUint_int (int base) (int n) s"
proof (induction base n s rule: parseUint_loop.induct)
  case (2 base n c s)
  have a: "max_uint64 div base + 1 \<le> n \<longleftrightarrow> 18446744073709551615 div int base + 1 \<le> int n"
    by (simp flip: max_uint64_int add: zdiv_int [symmetric]) linarith
  have b: "max_uint64 < n * base + d \<longleftrightarrow> 18446744073709551615 < int n * int base + int d" for d
    by (simp flip: max_uint64_int of_nat_mult of_nat_add)
  from 2 a b show ?case by (cases "digit_val c") (auto simp del: parseUint_loop.simps simp: parseUint_loop.simps(2))
qed simp

lemma ParseInt_code [code]:
  "ParseInt s base =
     (let neg = (s \<noteq> [] \<and> hd s = CHR ''-'');
          ds = (if s \<noteq> [] \<and> (hd s = CHR ''-'' \<or> hd s = CHR ''+'') then tl s else s)
      in if ds = [] then (0, Some ErrSyntax)
         else (case parseUint_int (int base) 0 ds of
                 Inl ErrSyntax \<Rightarrow> (0, Some ErrSyntax)
               | Inl ErrRange \<Rightarrow> (if neg then min_int64 else max_int64, Some ErrRange)
               | Inr un \<Rightarrow>
                   if \<not> neg \<and> 9223372036854775808 \<le> un then (max_int64, Some ErrRange)
                   else if neg \<and> 9223372036854775808 < un then (min_int64, Some ErrRange)
                   else (if neg then - un else un, None)))"
proof -
  have *: "parseUint_int (int base) 0 t = map_sum id int (parseUint_loop base 0 t)" for t
    using parseUint_loop_int [of base 0 t] by simp
  have "2 ^ 63 \<le> un \<longleftrightarrow> 9223372036854775808 \<le> int un" "2 ^ 63 < un \<longleftrightarrow> 9223372036854775808 < int un" for un :: nat
    by auto
  then show ?thesis unfolding ParseInt_def Let_def *
    by (auto simp del: parseUint_loop.simps split: sum.split num_error.split)
qed

function int_digits :: "int \<Rightarrow> int \<Rightarrow> string" where
  "int_digits base n =
     (if base < 2 \<or> n < base then [hex_digit (nat n)] else int_digits base (n div base) @ [hex_digit (nat (n mod base))])"
  by pat_completeness auto
termination
proof (relation "measure (\<lambda>(base, n). nat n)")
  fix base n :: int
  assume "\<not> (base < 2 \<or> n < base)"
  then have "0 < n" "n div base < n" "0 \<le> n div base" by (auto simp: pos_imp_zdiv_nonneg_iff intro!: int_div_less_self)
  then show "((base, n div base), base, n) \<in> measure (\<lambda>(base, n). nat n)" by auto
qed simp

declare int_digits.simps [simp del]

lemma nat_digits_int: "nat_digits base n = int_digits (int base) (int n)"
proof (induction base n rule: nat_digits.induct)
  case (1 base n)
  then show ?case
    by (subst nat_digits.simps, subst int_digits.simps)
       (auto simp: zdiv_int [symmetric] zmod_int [symmetric])
qed

lemma FormatInt_code [code]:
  "FormatInt i base = (if i < 0 then CHR ''-'' # int_digits (int base) (- i) else int_digits (int base) i)"
  by (simp add: FormatInt_def nat_digits_int)

lemma be32_put_code [code]:
  "be32_put v = map (\<lambda>k. char_of (nat (uint v div k mod 256))) [16777216, 65536, 256, 1]"
proof -
  define n where "n = nat (uint v)"
  have u: "uint v = int n" by (simp add: n_def)
  have e: "nat (int n div int j mod 256) = n div j mod 256" for j
    by (metis nat_int of_nat_numeral zdiv_int zmod_int)
  have "map (\<lambda>k. char_of (nat (int n div k mod 256))) [16777216, 65536, 256, 1] =
      map (\<lambda>j. char_of (nat (int n div int j mod 256))) [2 ^ 24, 2 ^ 16, 2 ^ 8, 2 ^ 0]" by simp
  then show ?thesis unfolding be32_put_def u e nat_int by (simp only: list.map)
qed

lemma be32_get_code [code]:
  "be32_get b = of_int (foldl (\<lambda>n c. n * 256 + int (byte_val c)) 0 (take 4 b))"
proof -
  have h: "z = int m \<Longrightarrow> foldl (\<lambda>n c. n * 256 + int (byte_val c)) z s = int (foldl (\<lambda>n c. n * 256 + byte_val c) m s)"
    for z :: int and m :: nat and s
  proof (induction s arbitrary: z m)
    case (Cons a s)
    have "z * 256 + int (byte_val a) = int (m * 256 + byte_val a)" using Cons.prems by simp
    from Cons.IH [OF this] show ?case by (simp only: foldl_Cons)
  qed simp
  show ?thesis unfolding be32_get_def h [OF semiring_1_class.of_nat_0 [symmetric]] by (rule of_int_of_nat_eq [symmetric])
qed

end
