(* ===== verification/Program_Demo.thy ===== *)
theory Program_Demo
  imports Program_Inv Store_Demo Go_Exec
begin

text \<open>
  Concrete requests, decoders and a running program: what the theorems about the servers are applied
  to in their witnesses.
\<close>

definition demo_request :: "string \<Rightarrow> string \<Rightarrow> (string \<times> string) list \<Rightarrow> (string \<times> string list) list \<Rightarrow> bytes list \<Rightarrow> request" where
  "demo_request m path q hs ps =
     \<lparr>rq_Method = m, rq_EscapedPath = path, rq_Path = path, rq_Query = q, rq_Header = hs, rq_Host = ''localhost'',
      rq_TLS = False, rq_ContentLength = int (length (concat ps)), rq_Body = (ps, EOF)\<rparr>"

text \<open>An XML decoder for the body of a complete request: every byte is a part number, no tags.\<close>

definition demo_parts :: "body \<Rightarrow> string + completedPart list" where
  "demo_parts b = Inr (map (\<lambda>c. \<lparr>cp_PartNumber = int (byte_val c) - 48, cp_ETag = []\<rparr>) (concat (fst b)))"

definition demo_s3 :: "int \<Rightarrow> string list \<Rightarrow> s3_world" where
  "demo_s3 t names =
     \<lparr>xml_delete = (\<lambda>b. Inr \<lparr>dr_Quiet = False, dr_Objects = [concat (fst b)]\<rparr>), xml_complete = demo_parts,
      rand_id = ''A'', net_schedule = (\<lambda>_. (100, False)), call_env = (\<lambda>_. demo_env t [] names)\<rparr>"

definition demo_mime :: mime_world where
  "demo_mime =
     \<lparr>mime_boundary = (\<lambda>t. t), mime_meta = (\<lambda>_ b. Some b), mime_media = (\<lambda>_ b. Some ([], b)),
      json_meta = (\<lambda>b. Inr (no_meta\<lparr>om_Name := concat (fst b)\<rparr>))\<rparr>"

definition demo_gcs :: "int \<Rightarrow> string list \<Rightarrow> gcs_world" where
  "demo_gcs t names =
     \<lparr>gw_mime = demo_mime, gw_json_name = (\<lambda>b. Inr (concat (fst b))), gw_rand = ''B'',
      gw_env = (\<lambda>_. demo_env t [] names)\<rparr>"

definition demo_prog0 :: program where
  "demo_prog0 = \<lparr>pg_servers = main_servers '':8080'' '':8081'', pg_store = empty_store, pg_uploads = [], pg_sessions = []\<rparr>"

text \<open>The bucket is created, a multipart upload and a resumable upload are started, and two parts are
  staged.\<close>

definition demo_prog1 :: program where
  "demo_prog1 = snd (serve_s3 demo_lib (demo_s3 100 []) (demo_request ''PUT'' ''/abc'' [] [] []) demo_prog0)"

definition demo_prog2 :: program where
  "demo_prog2 = snd (serve_s3 demo_lib (demo_s3 101 []) (demo_request ''POST'' ''/abc/big'' [(''uploads'', [])] [] []) demo_prog1)"

definition part_query :: "string \<Rightarrow> (string \<times> string) list" where
  "part_query n = [(''uploadId'', ''41''), (''partNumber'', n)]"

definition demo_prog3 :: program where
  "demo_prog3 = snd (serve_s3 demo_lib (demo_s3 102 [''p1'']) (demo_request ''PUT'' ''/abc/big'' (part_query ''1'') [] [''he'', ''l'']) demo_prog2)"

definition demo_prog4 :: program where
  "demo_prog4 = snd (serve_s3 demo_lib (demo_s3 103 [''p2'']) (demo_request ''PUT'' ''/abc/big'' (part_query ''2'') [] [''lo'']) demo_prog3)"

definition demo_prog5 :: program where
  "demo_prog5 = snd (serve_gcs demo_lib (demo_gcs 104 [''u1''])
     (demo_request ''POST'' ''/upload/storage/v1/b/abc/o'' [(''uploadType'', ''resumable''), (''name'', ''r'')] [] []) demo_prog4)"

lemma demo_names: "env_names (call_env (demo_s3 t names)) = set names" "env_names (gw_env (demo_gcs t names)) = set names"
  by (simp_all add: env_names_def demo_s3_def demo_gcs_def)

lemma demo_served0: "served demo_lib [] demo_prog0"
  by (rule started [of "demo_env 0 [] []" "'':8080''" "'':8081''"]) (simp add: main_start_def Open_def demo_prog0_def empty_store_def
      NewServer_s3_def NewServer_gcs_def)

lemma served_s3:
  "served L root p \<Longrightarrow> ('':8081'', S3) \<in> set (pg_servers p) \<Longrightarrow> fresh_names (call_env W) p \<Longrightarrow>
   served L root (snd (serve_s3 L W r p))"
  by (rule request, assumption, rule by_s3, assumption+, rule prod.collapse [symmetric])

lemma served_gcs:
  "served L root p \<Longrightarrow> ('':8080'', GCS) \<in> set (pg_servers p) \<Longrightarrow> fresh_names (gw_env W) p \<Longrightarrow>
   served L root (snd (serve_gcs L W r p))"
  by (rule request, assumption, rule by_gcs, assumption+, rule prod.collapse [symmetric])

lemma serve_listening: "pg_servers (snd (serve_s3 L W r p)) = pg_servers p" "pg_servers (snd (serve_gcs L V r p)) = pg_servers p"
  using servers.a.serve_servers servers.b.serve_servers by (metis prod.collapse)+

lemma demo_listening:
  "('':8081'', S3) \<in> set (pg_servers demo_prog0)" "('':8081'', S3) \<in> set (pg_servers demo_prog1)"
  "('':8081'', S3) \<in> set (pg_servers demo_prog2)" "('':8081'', S3) \<in> set (pg_servers demo_prog3)"
  "('':8080'', GCS) \<in> set (pg_servers demo_prog4)"
  by (simp_all add: demo_prog4_def demo_prog3_def demo_prog2_def demo_prog1_def serve_listening)
    (simp_all add: demo_prog0_def main_servers_def)

text \<open>The names in use, as a list.\<close>

definition names_in_use :: "program \<Rightarrow> string list" where
  "names_in_use p =
     concat (map (\<lambda>(u, up). map (\<lambda>(k, q). sp_tmp q) (mu_parts up)) (pg_uploads p)) @
     map (\<lambda>(u, sess). bw_tmp (us_bw sess)) (pg_sessions p)"

lemma names_in_use: "ran (owns (pg_uploads p) (pg_sessions p)) \<subseteq> set (names_in_use p)"
proof
  fix n assume "n \<in> ran (owns (pg_uploads p) (pg_sessions p))"
  then obtain a where a: "owns (pg_uploads p) (pg_sessions p) a = Some n" by (auto simp: ran_def)
  show "n \<in> set (names_in_use p)"
  proof (cases a)
    case (Part u k)
    with a show ?thesis
      by (fastforce simp: names_in_use_def split: option.splits dest!: map_of_SomeD)
  next
    case (Session u)
    with a show ?thesis by (fastforce simp: names_in_use_def dest!: map_of_SomeD)
  qed
qed

lemma fresh_demo:
  "list_all (\<lambda>n. n \<notin> set (names_in_use p)) names \<Longrightarrow> fresh_names (call_env (demo_s3 t names)) p"
  "list_all (\<lambda>n. n \<notin> set (names_in_use p)) names \<Longrightarrow> fresh_names (gw_env (demo_gcs t names)) p"
  using names_in_use [of p] by (auto simp: fresh_names_def demo_names list_all_iff)

lemma demo_served: "served demo_lib [] demo_prog1" "served demo_lib [] demo_prog2" "served demo_lib [] demo_prog3"
    "served demo_lib [] demo_prog4" "served demo_lib [] demo_prog5"
proof -
  show 1: "served demo_lib [] demo_prog1" unfolding demo_prog1_def
    by (intro served_s3 demo_served0 demo_listening fresh_demo) simp
  show 2: "served demo_lib [] demo_prog2" unfolding demo_prog2_def
    by (intro served_s3 1 demo_listening fresh_demo) simp
  show 3: "served demo_lib [] demo_prog3" unfolding demo_prog3_def
    by (intro served_s3 2 demo_listening fresh_demo) code_simp
  show 4: "served demo_lib [] demo_prog4" unfolding demo_prog4_def
    by (intro served_s3 3 demo_listening fresh_demo) code_simp
  show "served demo_lib [] demo_prog5" unfolding demo_prog5_def
    by (intro served_gcs 4 demo_listening fresh_demo) code_simp
qed

end
