(* ===== verification/Store_Props.thy ===== *)
theory Store_Props
  imports Store_Demo
begin

text \<open>
  The properties of the store (\<^verbatim>\<open>pkg/store\<close>): consistency of the reachable states, refinement of
  the specification, what failed operations leave behind, and the accounting of blobs.
\<close>

section \<open>Reachable states\<close>

text \<open>C1. However the requests of clients interleave and whatever calls of the file system and the
  database fail, every reachable state of the server is consistent: every object row has its blob
  file with the content its digests describe, the reference counts are the numbers of rows, and
  every unfinished upload has hashed exactly what is in its own temporary file.\<close>

theorem reachable_consistent:
  assumes "json_decodes L" "root_ok L root" "reachable L root s"
  shows "store_inv L (sy_store s) \<and> list_all (\<lambda>w. writer_st w (sy_store s)) (sy_writers s) \<and>
    distinct (map bw_tmp (unfinished s))"
  using reachable_inv [OF assms] by (simp add: sys_inv_def list_all_iff)

definition demo_sys :: sys where
  "demo_sys = \<lparr>sy_store = demo_store1, sy_writers = []\<rparr>"

definition demo_sys_w :: sys where
  "demo_sys_w =
     (case NewBlobWriter (demo_env 300 [] [''t2'']) ''abc'' demo_store1 of
        (Inr w, st) \<Rightarrow> \<lparr>sy_store = st, sy_writers = [w]\<rparr> | _ \<Rightarrow> demo_sys)"

lemma demo_sys_reachable: "reachable demo_lib [] demo_sys"
proof -
  let ?s0 = "\<lparr>sy_store = empty_store, sy_writers = []\<rparr>" and ?s1 = "\<lparr>sy_store = demo_store, sy_writers = []\<rparr>"
  have s0: "reachable demo_lib [] ?s0"
    by (rule reachable.start [of quiet]) (simp add: Open_def quiet_def empty_store_def)
  obtain r where "CreateBucket (demo_env 100 [] []) ''abc'' (sy_store ?s0) = (r, demo_store)"
    unfolding demo_store_def by (metis prod.collapse select_convs(1))
  from reachable.move [OF s0 step.create_bucket [OF this]] have s1: "reachable demo_lib [] ?s1" by simp
  obtain r' where p: "PutObject demo_lib (demo_env 200 [] [''t1'']) ''abc'' ''x'' [''he'', ''llo''] EOF
      (demo_opts [(''k'', ''v'')]) (sy_store ?s1) = (r', demo_store1)"
    unfolding demo_store1_def by (metis prod.collapse select_convs(1))
  have "fresh (demo_env 200 [] [''t1'']) ?s1" by (simp add: fresh_def)
  from reachable.move [OF s1 step.put_object [OF this p]] show ?thesis by (simp add: demo_sys_def)
qed

lemma demo_sys_w_reachable: "reachable demo_lib [] demo_sys_w"
proof -
  obtain r st where n: "NewBlobWriter (demo_env 300 [] [''t2'']) ''abc'' demo_store1 = (r, st)" by force
  show ?thesis
  proof (cases r)
    case (Inl er)
    with n demo_sys_reachable show ?thesis by (simp add: demo_sys_w_def)
  next
    case (Inr w)
    have "fresh (demo_env 300 [] [''t2'']) demo_sys" by (simp add: fresh_def demo_sys_def)
    from reachable.move [OF demo_sys_reachable step.open_writer [OF this, of "''abc''" w st]] n Inr show ?thesis
      by (simp add: demo_sys_def demo_sys_w_def)
  qed
qed

theorem reachable_consistent_witness:
  "sy_writers demo_sys_w \<noteq> [] \<and> reachable demo_lib [] demo_sys_w \<and> store_inv demo_lib (sy_store demo_sys_w)"
proof -
  have "sy_writers demo_sys_w \<noteq> []" by code_simp
  with reachable_consistent [OF demo_lib_ok(1) root_ok_empty demo_sys_w_reachable] demo_sys_w_reachable
  show ?thesis by simp
qed

text \<open>C4. Concurrent uploads do not mix: in every reachable state, when the commit of an upload
  succeeds, the object holds exactly the bytes written to that upload, the description returned is
  that of those bytes, the preconditions held of the object it replaced, and every other object of
  the store is as it was.\<close>

theorem commit_installs_upload:
  assumes "json_decodes L" "root_ok L root" "reachable L root s" "k < length (sy_writers s)"
    "json_roundtrip L (po_Metadata opts)"
    "collision_free L (dir_objects (view (sy_store s) (bw_b (sy_writers s ! k)))) (bw_sha (sy_writers s ! k))"
    "Commit L e (sy_writers s ! k) name opts (sy_store s) = (Inr i, w', st')"
  shows "(let w = sy_writers s ! k; bn = h_name (st_handles (sy_store s) ! bw_b w); v = live_st L (sy_store s)
    in spec_put L (env_now e) bn name opts (bw_sha w) v = (Inr i, live_st L st'))"
proof -
  have "store_inv L (sy_store s)" "writer_st (sy_writers s ! k) (sy_store s)"
    using reachable_inv [OF assms(1-3)] assms(4) by (auto simp: sys_inv_def)
  from Commit_inv(3) [OF this assms(1,7) refl assms(6,5)] show ?thesis
    by (simp add: Let_def put_result_spec)
qed

definition demo_sys_w2 :: sys where
  "demo_sys_w2 =
     (case Copy (demo_env 301 [] []) (sy_writers demo_sys_w ! 0) [''new''] EOF (sy_store demo_sys_w) of
        (r, w, st) \<Rightarrow> demo_sys_w\<lparr>sy_store := st, sy_writers := (sy_writers demo_sys_w)[0 := w]\<rparr>)"

lemma demo_sys_w2_reachable: "reachable demo_lib [] demo_sys_w2" "0 < length (sy_writers demo_sys_w2)"
proof -
  have l: "0 < length (sy_writers demo_sys_w)" by code_simp
  obtain r w st where c: "Copy (demo_env 301 [] []) (sy_writers demo_sys_w ! 0) [''new''] EOF (sy_store demo_sys_w) = (r, w, st)"
    by (metis prod_cases3)
  from reachable.move [OF demo_sys_w_reachable step.write_body [OF l c]] c show "reachable demo_lib [] demo_sys_w2"
    by (simp add: demo_sys_w2_def)
  from l c show "0 < length (sy_writers demo_sys_w2)" by (simp add: demo_sys_w2_def)
qed

theorem commit_installs_upload_witness:
  "\<exists>i w' st'. Commit demo_lib (demo_env 400 [] []) (sy_writers demo_sys_w2 ! 0) ''x'' (demo_opts []) (sy_store demo_sys_w2)
      = (Inr i, w', st') \<and> map_option snd (live_st demo_lib st' ''abc'' ''x'') = Some ''new''"
proof -
  obtain r w' st' where c: "Commit demo_lib (demo_env 400 [] []) (sy_writers demo_sys_w2 ! 0) ''x'' (demo_opts [])
      (sy_store demo_sys_w2) = (r, w', st')" by (metis prod_cases3)
  have "(case fst (Commit demo_lib (demo_env 400 [] []) (sy_writers demo_sys_w2 ! 0) ''x'' (demo_opts [])
      (sy_store demo_sys_w2)) of Inl _ \<Rightarrow> False | Inr _ \<Rightarrow> True)" by code_simp
  with c obtain i where i: "r = Inr i" by (auto split: sum.splits)
  have w: "bw_sha (sy_writers demo_sys_w2 ! 0) = ''new''"
      "h_name (st_handles (sy_store demo_sys_w2) ! bw_b (sy_writers demo_sys_w2 ! 0)) = ''abc''" by code_simp+
  have md: "json_roundtrip demo_lib (po_Metadata (demo_opts []))" by (simp add: demo_opts_def)
  from commit_installs_upload [OF demo_lib_ok(1) root_ok_empty demo_sys_w2_reachable md demo_collision_free c [unfolded i]]
  have "live_st demo_lib st' ''abc'' ''x'' = Some (i, ''new'')"
    by (auto simp: w Let_def dest!: spec_put_view)
  with c i show ?thesis by auto
qed

section \<open>Refinement of the specification\<close>

text \<open>C5. Put refines its specification: when no call fails and the bucket exists, \<^verbatim>\<open>PutObject\<close>
  returns exactly what the specification returns on the view of the store (the new description, or
  the invalid-name or precondition error) and the view afterwards is the specification's.\<close>

theorem put_refines:
  assumes "store_inv L st" "fault_free e" "bucket_exists st bn" "tmp_ready e st bn" "json_decodes L"
    "json_roundtrip L (po_Metadata opts)" "collision_free L (files_at st bn) (concat ps)"
  shows "(case PutObject L e bn name ps EOF opts st of (r, st') \<Rightarrow>
      (r, live_st L st') = spec_put L (env_now e) bn name opts (concat ps) (live_st L st) \<and> store_inv L st')"
  using PutObject_spec [OF assms, of name] by auto

theorem put_refines_witness:
  "map_option snd (live_st demo_lib (snd (PutObject demo_lib (demo_env 300 [] [''t2'']) ''abc'' ''y'' [''a'', ''b'']
     EOF (demo_opts []) demo_store1)) ''abc'' ''y'') = Some ''ab''"
proof -
  have md: "json_roundtrip demo_lib (po_Metadata (demo_opts []))" by (simp add: demo_opts_def)
  obtain r st' where p: "PutObject demo_lib (demo_env 300 [] [''t2'']) ''abc'' ''y'' [''a'', ''b''] EOF (demo_opts []) demo_store1 = (r, st')"
    by force
  from put_refines [OF demo_store1_inv demo_env_simps(1) demo_bucket(2) demo_tmp(2) demo_lib_ok(1) md demo_collision_free,
      of "''y''" "[''a'', ''b'']"] p
  have "(r, live_st demo_lib st') = spec_put demo_lib 300 ''abc'' ''y'' (demo_opts []) ''ab'' (live_st demo_lib demo_store1)"
    by simp
  moreover have "validObjectName ''y''" by code_simp
  ultimately show ?thesis using p by (simp add: spec_put_def Let_def demo_opts_def)
qed

text \<open>C6. Delete refines its specification: when no call fails, \<^verbatim>\<open>DeleteObject\<close> returns the
  precondition error, object-not-found or success as the specification does, and removes exactly
  that object from the view when it succeeds; in a bucket that does not exist it returns
  bucket-not-found and changes nothing.\<close>

theorem delete_refines:
  assumes "store_inv L st" "fault_free e"
  shows "(case DeleteObject L e bn name conds st of (r, st') \<Rightarrow>
      (if bucket_exists st bn
       then (r, live_st L st') = spec_delete bn name conds (live_st L st)
       else r = Inl ErrBucketNotFound \<and> st' = st) \<and> store_inv L st')"
proof (cases "bucket_exists st bn")
  case True
  from DeleteObject_spec [OF assms True, of name conds] True show ?thesis by (auto simp: prod_eq_iff)
next
  case False
  with assms(1) show ?thesis by (simp add: DeleteObject_def on_bucket_missing)
qed

theorem delete_refines_witness:
  "live_st demo_lib (snd (DeleteObject demo_lib (demo_env 300 [] []) ''abc'' ''x'' no_conditions demo_store1)) ''abc'' ''x'' = None"
proof -
  obtain r st' where d: "DeleteObject demo_lib (demo_env 300 [] []) ''abc'' ''x'' no_conditions demo_store1 = (r, st')"
    by force
  from delete_refines [OF demo_store1_inv demo_env_simps(1) [of 300 "[]"], of "''abc''" "''x''" no_conditions] d
  have "(r, live_st demo_lib st') = spec_delete ''abc'' ''x'' no_conditions (live_st demo_lib demo_store1)"
    by (simp add: demo_bucket)
  then show ?thesis using d by (simp add: spec_delete_def delete_result_def demo_live)
qed

text \<open>C7. Reads refine their specification: when no call fails, \<^verbatim>\<open>OpenObject\<close> returns the description
  and content the view has under the name, object-not-found when it has none, bucket-not-found when
  there is no such bucket, and \<^verbatim>\<open>GetObject\<close> the same description.\<close>

theorem reads_refine:
  assumes "store_inv L st" "fault_free e"
  shows "fst (OpenObject L e bn name st) =
      (if bucket_exists st bn then spec_open bn name (live_st L st) else Inl ErrBucketNotFound) \<and>
    fst (GetObject L e bn name st) = result_bind (fst (OpenObject L e bn name st)) (\<lambda>(i, c). Inr i)"
proof -
  have "fst (GetObject L e bn name st) =
      (if bucket_exists st bn then result_bind (spec_open bn name (live_st L st)) (\<lambda>(i, c). Inr i) else Inl ErrBucketNotFound)"
  proof (cases "bucket_exists st bn")
    case True
    from assms True show ?thesis
    proof (rule on_bucket_found)
      fix h st1 x
      assume a: "on_bucket e bn (\<lambda>h st'. (getObject_b L e (view st' h) name, st')) st =
          (getObject_b L e (view st1 h) name, st1)" "store_inv L st1" "b_db (view st1 h) = Some x"
          "\<not> b_closed (view st1 h)" "live L (view st1 h) = live_st L st bn"
      then show ?thesis
        using getObject_b_total [OF view_inv [OF a(2)] a(4,3)] assms(2) True
        by (auto simp: GetObject_def spec_open_def split: option.split)
    qed
  qed (simp add: GetObject_def on_bucket_missing [OF assms(1)])
  with OpenObject_spec [OF assms, of bn name] show ?thesis by simp
qed

theorem reads_refine_witness:
  "fst (GetObject demo_lib (demo_env 300 [] []) ''abc'' ''zz'' demo_store1) = Inl ErrObjectNotFound"
proof -
  have "live_st demo_lib demo_store1 ''abc'' ''zz'' = None" by code_simp
  with reads_refine [OF demo_store1_inv demo_env_simps(1) [of 300 "[]"], of "''abc''" "''zz''"] show ?thesis
    by (simp add: demo_bucket spec_open_def)
qed

text \<open>C13. The store is what its successful requests say: for every sequence of puts, reads and
  deletes with any faults, the view at the end is the view at the start with the successful puts and
  deletes replayed in order, and the store stays consistent. In particular a request that returned
  an error has changed nothing a client can see.\<close>

theorem history_replays:
  assumes "json_decodes L" "store_inv L st"
    "all_ready (put_ready L) (run_op (PutObject L) (OpenObject L) (DeleteObject L)) ops st"
    "run_ops (run_op (PutObject L) (OpenObject L) (DeleteObject L)) ops st = (rs, st')"
  shows "store_inv L st' \<and> live_st L st' = fold (\<lambda>(op, r). replay1 op r) (zip ops rs) (live_st L st)"
  using os.run_replay [of L st ops rs st'] assms by blast

definition demo_ops :: "store_op list" where
  "demo_ops =
     [Op_put (demo_env 300 [Sys_Rename] [''t2'']) ''abc'' ''x'' [''lost''] EOF (demo_opts []),
      Op_open (demo_env 301 [] []) ''abc'' ''x'',
      Op_delete (demo_env 302 [] []) ''abc'' ''x'' no_conditions]"

theorem history_replays_witness:
  "live_st demo_lib (snd (run_ops (run_op (PutObject demo_lib) (OpenObject demo_lib) (DeleteObject demo_lib)) demo_ops demo_store1))
     ''abc'' ''x'' = None"
proof -
  let ?run = "run_ops (run_op (PutObject demo_lib) (OpenObject demo_lib) (DeleteObject demo_lib)) demo_ops demo_store1"
  obtain rs st' where r: "?run = (rs, st')" by force
  have "all_ready (put_ready demo_lib) (run_op (PutObject demo_lib) (OpenObject demo_lib) (DeleteObject demo_lib)) demo_ops demo_store1"
    by (simp add: demo_ops_def put_ready_def demo_opts_def)
  note h = history_replays [OF demo_lib_ok(1) demo_store1_inv this r]
  have "(case fst ?run of [_, _, Res_delete (Inr u)] \<Rightarrow> True | _ \<Rightarrow> False)" by code_simp
  then obtain a b c where "rs = [a, b, Res_delete (Inr c)]"
    using r by (auto split: list.splits op_result.splits sum.splits)
  with h r show ?thesis by (simp add: demo_ops_def)
qed

end
