(* ===== verification/Store_Props2.thy ===== *)
theory Store_Props2
  imports Store_Props
begin

text \<open>
  More properties of the store: the accounting of blobs, generations and preconditions, and the
  life of a bucket.
\<close>

section \<open>Blobs\<close>


definition demo_dir :: bucket_dir where
  "demo_dir = the (map_of (st_root demo_store1) ''abc'')"


text \<open>C22. Garbage collection is exact: when a delete succeeds and no call fails, the blob file of the
  deleted object is removed exactly when no other object of the bucket has the same content, and no
  other blob file is touched.\<close>

theorem delete_collects:
  assumes "bucket_inv L b" "fault_free e" "b_db b = Some x" "map_of (db_objects x) name = Some row"
    "deleteObject_b L e b name conds = (Inr u, b')"
  shows "map_of (dir_objects b') p =
    (if p = blobPath (or_sha256 row) \<and> filter (\<lambda>(n, r). n \<noteq> name \<and> or_sha256 r = or_sha256 row) (db_objects x) = []
     then None else map_of (dir_objects b) p)"
proof -
  from assms(5) obtain x1 x' orphan sha where x1: "b_db b = Some x1"
      and d: "delete_tx L e (b_name b) name conds x1 = Inr (x', orphan, sha)"
      and b': "b' = (if orphan then removeBlob e sha (set_db x' b) else set_db x' b)"
    by (rule deleteObject_b_Inr)
  with assms(3) have "x1 = x" by simp
  have inv: "db_inv L x1" using assms(1) x1 by (simp add: bucket_inv_def)
  from inv d obtain r i where r: "map_of (db_objects x1) name = Some r" "sha = or_sha256 r"
      "db_objects x' = tdel name (db_objects x1)" "db_inv L x'" "orphan \<longleftrightarrow> refs sha (db_objects x') = 0"
    by (rule delete_tx_Inr)
  have row: "r = row" using r(1) assms(4) \<open>x1 = x\<close> by simp
  have srt: "tsorted (db_objects x)" "tsorted (db_objects x')" using inv r(4) \<open>x1 = x\<close> by (auto simp: db_inv_def)
  have "orphan \<longleftrightarrow> (\<forall>n r. n \<noteq> name \<longrightarrow> map_of (db_objects x) n = Some r \<longrightarrow> or_sha256 r \<noteq> or_sha256 row)"
    using r(2,3,5) row \<open>x1 = x\<close> srt refs_zero_iff [OF srt(2)] by (auto simp: tbl_simps)
  also have "\<dots> \<longleftrightarrow> filter (\<lambda>(n, r). n \<noteq> name \<and> or_sha256 r = or_sha256 row) (db_objects x) = []"
    using tbl.get_rows [OF srt(1)] by (auto simp: filter_empty_conv)
  finally have o: "orphan \<longleftrightarrow> filter (\<lambda>(n, r). n \<noteq> name \<and> or_sha256 r = or_sha256 row) (db_objects x) = []" .
  have "tsorted (dir_objects b)" using bucket_inv_sorted [OF assms(1)] by simp
  with b' o r(2) row assms(2) b_db_dir [OF x1] show ?thesis by (auto simp: bk tbl_simps)
qed

definition demo_bucket1 :: bucket where
  "demo_bucket1 = \<lparr>b_name = ''abc'', b_closed = False, b_dir = Some demo_dir\<rparr>"

lemma demo_bucket1_inv: "bucket_inv demo_lib demo_bucket1"
proof -
  have "map_of (st_root demo_store1) ''abc'' = Some demo_dir" by code_simp
  with demo_store1_inv have "dir_inv demo_lib demo_dir" by (auto simp: store_inv_def)
  then show ?thesis by (simp add: bucket_inv_dir demo_bucket1_def)
qed

theorem delete_collects_witness:
  "map_of (dir_objects demo_bucket1) (blobPath (hexEncode ''hello'')) = Some ''hello'' \<and>
   map_of (dir_objects (snd (deleteObject_b demo_lib (demo_env 300 [] []) demo_bucket1 ''x'' no_conditions)))
     (blobPath (hexEncode ''hello'')) = None"
proof -
  let ?x = "the (b_db demo_bucket1)" and ?row = "the (map_of (db_objects (the (b_db demo_bucket1))) ''x'')"
  have x: "b_db demo_bucket1 = Some ?x" "map_of (db_objects ?x) ''x'' = Some ?row" by code_simp+
  obtain r b' where d: "deleteObject_b demo_lib (demo_env 300 [] []) demo_bucket1 ''x'' no_conditions = (r, b')" by force
  have "fst (deleteObject_b demo_lib (demo_env 300 [] []) demo_bucket1 ''x'' no_conditions) = Inr ()" by code_simp
  with d have d': "deleteObject_b demo_lib (demo_env 300 [] []) demo_bucket1 ''x'' no_conditions = (Inr (), b')" by simp
  have "blobPath (or_sha256 ?row) = blobPath (hexEncode ''hello'')"
    "filter (\<lambda>(n, r). n \<noteq> ''x'' \<and> or_sha256 r = or_sha256 ?row) (db_objects ?x) = []"
    "map_of (dir_objects demo_bucket1) (blobPath (hexEncode ''hello'')) = Some ''hello''" by code_simp+
  with delete_collects [OF demo_bucket1_inv demo_env_simps(1) x d', of "blobPath (hexEncode ''hello'')"] d' show ?thesis
    by simp
qed

section \<open>Generations and preconditions\<close>

lemma next_generation_gt:
  "oi_Generation i < 2 ^ 63 - 1 \<Longrightarrow> - (2 ^ 63) \<le> oi_Generation i \<Longrightarrow> oi_Generation i < next_generation now (Some i)"
  by (auto simp: next_generation_def int64_defs)

lemma next_generation_ge: "- (2 ^ 63) \<le> oi_Generation i \<Longrightarrow> oi_Generation i < 2 ^ 63 - 1 \<Longrightarrow> now \<le> next_generation now (Some i)"
  by (auto simp: next_generation_def int64_defs)

lemma conditions_hold_generation:
  "conditions_hold c existing \<Longrightarrow> GenerationMatch c = Some g \<Longrightarrow>
   (case existing of None \<Rightarrow> g = 0 | Some i \<Rightarrow> oi_Generation i = g)"
  by (simp add: conditions_hold_def)

text \<open>C23. Generations grow: overwriting an object gives it a strictly larger generation number, also
  when the clock stands still or runs backwards, as long as the old one is below the largest 64-bit
  value; a new object gets the time of the call.\<close>

theorem generation_grows:
  assumes "store_inv L st" "json_decodes L" "put_ready L st bn opts (concat ps)"
    "PutObject L e bn name ps en opts st = (Inr i, st')"
  shows "case live_st L st bn name of
      None \<Rightarrow> oi_Generation i = env_now e
    | Some (j, c) \<Rightarrow> oi_Generation j \<in> {- (2 ^ 63) ..< 2 ^ 63 - 1} \<longrightarrow>
        oi_Generation j < oi_Generation i \<and> env_now e \<le> oi_Generation i"
proof -
  have "put_result L e bn name opts (concat ps) st i st'"
    using PutObject_inv(3) [OF assms(1,2,4) refl] assms(3) by (simp add: put_ready_def)
  then have "oi_Generation i = next_generation (env_now e) (map_option fst (live_st L st bn name))"
    by (simp add: put_result_def commit_info_def)
  then show ?thesis
    using next_generation_gt next_generation_ge
    by (cases "live_st L st bn name") (simp_all add: next_generation_def [of _ None] case_prod_beta)
qed

theorem generation_grows_witness:
  "\<exists>i st'. PutObject demo_lib (demo_env 50 [] [''t2'']) ''abc'' ''x'' [''b''] EOF (demo_opts []) demo_store1 = (Inr i, st') \<and>
     200 < oi_Generation i"
proof -
  have "(case fst (PutObject demo_lib (demo_env 50 [] [''t2'']) ''abc'' ''x'' [''b''] EOF (demo_opts []) demo_store1) of
      Inr i \<Rightarrow> True | _ \<Rightarrow> False)" by code_simp
  then obtain i st' where p: "PutObject demo_lib (demo_env 50 [] [''t2'']) ''abc'' ''x'' [''b''] EOF (demo_opts []) demo_store1 = (Inr i, st')"
    by (cases "PutObject demo_lib (demo_env 50 [] [''t2'']) ''abc'' ''x'' [''b''] EOF (demo_opts []) demo_store1")
       (auto split: sum.splits)
  have r: "put_ready demo_lib demo_store1 ''abc'' (demo_opts []) (concat [''b''])" by (simp add: put_ready_def demo_opts_def)
  from generation_grows [OF demo_store1_inv demo_lib_ok(1) r p] p show ?thesis
    by (simp add: demo_live commit_info_def)
qed

text \<open>C24. Conditional writes exclude each other: of two puts that both demand the same generation of
  an object (0: that it does not exist yet), the one that comes after a successful other can not
  succeed, so no update is lost. The clock is assumed to be past 0 and generations below the largest
  64-bit value.\<close>

theorem conditional_put_exclusive:
  assumes "store_inv L st" "json_decodes L" "put_ready L st bn opts (concat ps)"
    "PutObject L e bn name ps en opts st = (Inr i, st')"
    "put_ready L st' bn opts' (concat ps')"
    "GenerationMatch (po_Conditions opts) = Some g" "GenerationMatch (po_Conditions opts') = Some g"
    "0 \<le> g" "g < 2 ^ 63 - 1" "0 < env_now e"
  shows "case PutObject L e' bn name ps' en' opts' st' of (r, _) \<Rightarrow> (case r of Inr _ \<Rightarrow> False | Inl _ \<Rightarrow> True)"
proof (rule ccontr)
  assume "\<not> ?thesis"
  then obtain i' st2 where p2: "PutObject L e' bn name ps' en' opts' st' = (Inr i', st2)"
    by (auto split: prod.splits sum.splits)
  have st': "store_inv L st'" by (rule PutObject_inv(1) [OF assms(1,2,4)])
  have r1: "put_result L e bn name opts (concat ps) st i st'"
    using PutObject_inv(3) [OF assms(1,2,4) refl] assms(3) by (simp add: put_ready_def)
  have r2: "put_result L e' bn name opts' (concat ps') st' i' st2"
    using PutObject_inv(3) [OF st' assms(2) p2 refl] assms(5) by (simp add: put_ready_def)
  have "live_st L st' bn name = Some (i, concat ps)" using r1 by (simp add: put_result_def)
  then have "oi_Generation i = g"
    using r2 conditions_hold_generation [of "po_Conditions opts'"] assms(7) by (fastforce simp: put_result_def)
  moreover have "case map_option fst (live_st L st bn name) of None \<Rightarrow> g = 0 | Some j \<Rightarrow> oi_Generation j = g"
    using r1 conditions_hold_generation [OF _ assms(6)] unfolding put_result_def by blast
  moreover have "oi_Generation i = next_generation (env_now e) (map_option fst (live_st L st bn name))"
    using r1 by (simp add: put_result_def commit_info_def)
  moreover have "oi_Generation j < next_generation (env_now e) (Some j)" if "oi_Generation j = g" for j
    using that assms(8,9) by (intro next_generation_gt) auto
  ultimately show False
    using assms(10) by (cases "live_st L st bn name") (auto simp: next_generation_def [of _ None])
qed

definition create_only :: put_options where
  "create_only = (demo_opts [])\<lparr>po_Conditions := no_conditions\<lparr>GenerationMatch := Some 0\<rparr>\<rparr>"

theorem conditional_put_exclusive_witness:
  "\<exists>i st'. PutObject demo_lib (demo_env 300 [] [''t2'']) ''abc'' ''y'' [''a''] EOF create_only demo_store1 = (Inr i, st') \<and>
     (case fst (PutObject demo_lib (demo_env 301 [] [''t3'']) ''abc'' ''y'' [''b''] EOF create_only st') of Inr _ \<Rightarrow> False | Inl _ \<Rightarrow> True)"
proof -
  have "(case fst (PutObject demo_lib (demo_env 300 [] [''t2'']) ''abc'' ''y'' [''a''] EOF create_only demo_store1) of
      Inr i \<Rightarrow> True | _ \<Rightarrow> False)" by code_simp
  then obtain i st' where p: "PutObject demo_lib (demo_env 300 [] [''t2'']) ''abc'' ''y'' [''a''] EOF create_only demo_store1 = (Inr i, st')"
    by (cases "PutObject demo_lib (demo_env 300 [] [''t2'']) ''abc'' ''y'' [''a''] EOF create_only demo_store1")
       (auto split: sum.splits)
  have r: "put_ready demo_lib st ''abc'' create_only c" for st c by (simp add: put_ready_def demo_opts_def create_only_def)
  have g: "GenerationMatch (po_Conditions create_only) = Some 0" by (simp add: create_only_def)
  from conditional_put_exclusive [OF demo_store1_inv demo_lib_ok(1) r p r g g, of "demo_env 301 [] [''t3'']" "[''b'']" EOF] p
  show ?thesis by (auto split: prod.splits)
qed

text \<open>\<^verbatim>\<open>Conditions.check\<close> accepts exactly when every condition that is given holds, where an object
  that does not exist has generation 0 for the match conditions and satisfies every not-match
  condition; otherwise it returns the precondition error, and no other error.\<close>

theorem check_decides:
  "check c existing = (if conditions_hold c existing then Inr () else Inl ErrPreconditionFailed)"
  using check_ok_iff [of c existing] check_error_iff [of c existing] by (cases "check c existing") auto

section \<open>Buckets\<close>

lemma name_inner_code:
  "name_inner c \<Longrightarrow> c \<noteq> CHR ''/'' \<and> c \<noteq> CHR 0x00"
  by (auto simp: name_inner_def name_edge_def byte_val_def)

lemma valid_name_inner:
  assumes v: "validBucketName name"
  shows "list_all name_inner name"
proof -
  have "3 \<le> length name" using v by (auto simp: validBucketName_def)
  then obtain a xs b where n: "name = a # xs @ [b]"
    by (metis One_nat_def Suc_1 append_butlast_last_id length_Cons list.exhaust list.size(3) not_less_eq_eq numeral_3_eq_3 zero_le)
  with v show ?thesis by (auto simp: validBucketName_def name_inner_def butlast_append)
qed

text \<open>C31. A valid bucket name is one component of a path and nothing else: it has no slash and no zero
  byte, is neither a dot nor two dots and not empty, so the directory of a bucket is always directly
  below the root.\<close>

theorem bucket_name_safe:
  "validBucketName name \<Longrightarrow>
   CHR ''/'' \<notin> set name \<and> CHR 0x00 \<notin> set name \<and> name \<noteq> ''.'' \<and> name \<noteq> ''..'' \<and> 3 \<le> length name \<and> length name \<le> 63"
proof -
  assume v: "validBucketName name"
  then have l: "3 \<le> length name" "length name \<le> 63" by (auto simp: validBucketName_def)
  have "CHR ''/'' \<notin> set name \<and> CHR 0x00 \<notin> set name" using valid_name_inner [OF v] name_inner_code by (auto simp: list_all_iff)
  with l show ?thesis by auto
qed

theorem bucket_name_safe_witness: "CHR ''/'' \<notin> set ''my-bucket.0''"
proof -
  have "validBucketName ''my-bucket.0''" by code_simp
  from bucket_name_safe [OF this] show ?thesis by blast
qed

lemma bucket_exists_handle:
  assumes "store_inv L st" "handle_for bn h st" "validBucketName bn"
  shows "bucket_exists st bn"
proof -
  note h = handle_forD [OF assms(1,2)]
  from h(4) show ?thesis by (auto simp: bucket_exists_def assms(3) b_db_def view_simps h(2) split: option.splits)
qed

text \<open>C32. Creating a bucket, when no call fails: a valid name that is free becomes an empty bucket with
  the time of the call, which exists from then on; a name that is taken gives bucket-exists and an
  invalid one the invalid-name error, and then nothing changes.\<close>

theorem create_bucket_result:
  assumes "store_inv L st" "fault_free e"
  shows "case CreateBucket e bn st of (r, st') \<Rightarrow>
      if \<not> validBucketName bn then r = Inl (ErrInvalidName bn) \<and> st' = st
      else if map_of (st_root st) bn \<noteq> None then r = Inl ErrBucketExists \<and> st' = st
      else r = Inr \<lparr>bi_Name = bn, bi_Created = env_now e, bi_Metageneration = 1\<rparr> \<and> bucket_exists st' bn \<and>
           live_st L st' = live_st L st"
proof (cases "validBucketName bn \<and> map_of (st_root st) bn = None")
  case True
  have st: "tsorted (st_root st)" "tsorted (st_buckets st)" "handles_ok st" using assms(1) by (auto simp: store_inv_def)
  have nb: "map_of (st_buckets st) bn = None"
    using st(3) True unfolding handles_ok_def by (cases "map_of (st_buckets st) bn") fastforce+
  let ?d = "(empty_dir\<lparr>bd_tmp := Some []\<rparr>)\<lparr>bd_db := Some \<lparr>db_info = Some (env_now e, 1), db_objects = [], db_blobs = []\<rparr>\<rparr>"
  let ?st1 = "set_dir bn (Some (empty_dir\<lparr>bd_tmp := Some []\<rparr>)) st"
  let ?st = "(set_dir bn (Some ?d) ?st1)\<lparr>
      st_handles := st_handles st @ [\<lparr>h_name = bn, h_closed = False\<rparr>],
      st_buckets := tput bn (length (st_handles st)) (st_buckets st)\<rparr>"
  have st1: "tsorted (st_root ?st1)" "map_of (st_root ?st1) bn = Some (empty_dir\<lparr>bd_tmp := Some []\<rparr>)"
    using st by (simp_all add: bk)
  have "openBucket e bn ?st1 = (Inr (length (st_handles st)), ?st)"
    using st1 nb assms(2) by (simp add: openBucket_def openBucket_dir_def Let_def empty_dir_def bk)
  moreover have root: "map_of (st_root ?st) bn = Some ?d" using st1(1) by (simp add: bk)
  moreover have "info_b e (view ?st (length (st_handles st))) = Inr \<lparr>bi_Name = bn, bi_Created = env_now e, bi_Metageneration = 1\<rparr>"
    using root assms(2) by (simp add: info_b_def openDb_def view_def b_db_def)
  ultimately have run: "CreateBucket e bn st = (Inr \<lparr>bi_Name = bn, bi_Created = env_now e, bi_Metageneration = 1\<rparr>, ?st)"
    using True assms(2) by (simp add: CreateBucket_def)
  moreover have "bucket_exists ?st bn" using root True unfolding bucket_exists_def by simp
  moreover have "live_st L ?st = live_st L st" using CreateBucket_inv [OF assms(1) run] by blast
  ultimately show ?thesis using True by simp
qed (auto simp: CreateBucket_def)

theorem create_bucket_result_witness:
  "bucket_exists (snd (CreateBucket (demo_env 500 [] []) ''new-bucket'' demo_store1)) ''new-bucket''"
proof -
  have "validBucketName ''new-bucket''" "map_of (st_root demo_store1) ''new-bucket'' = None" by code_simp+
  with create_bucket_result [OF demo_store1_inv demo_env_simps(1) [of 500 "[]"], of "''new-bucket''"] show ?thesis
    by (simp split: prod.splits)
qed

text \<open>C33. Deleting a bucket, when no call fails, refuses a bucket that has objects, and removes an empty
  one, which then does not exist any more; a bucket that does not exist is not found. What clients see
  of objects does not change in any case.\<close>

theorem delete_bucket_result:
  assumes "store_inv L st" "fault_free e"
  shows "case DeleteBucket e bn st of (r, st') \<Rightarrow>
      live_st L st' = live_st L st \<and>
      (if \<not> bucket_exists st bn then r = Inl ErrBucketNotFound \<and> st' = st
       else if live_st L st bn \<noteq> (\<lambda>_. None) then r = Inl ErrBucketNotEmpty \<and> bucket_exists st' bn
       else r = Inr () \<and> \<not> bucket_exists st' bn)"
proof (cases "bucket_exists st bn")
  case True
  obtain r st' where run: "DeleteBucket e bn st = (r, st')" by force
  note keep = DeleteBucket_inv [OF assms(1) run]
  from assms True show ?thesis
  proof (rule on_bucket_found)
    fix h st1 x
    assume a: "on_bucket e bn (deleteBucket_h e bn) st = deleteBucket_h e bn h st1" "store_inv L st1"
        "handle_for bn h st1" "b_db (view st1 h) = Some x" "\<not> b_closed (view st1 h)" "live L (view st1 h) = live_st L st bn"
    have v: "validBucketName bn" using True by (simp add: bucket_exists_def)
    have ex: "bucket_exists st1 bn" by (rule bucket_exists_handle [OF a(2,3) v])
    have d: "deleteBucket_h e bn h st1 = (r, st')" using run a(1) by (simp add: DeleteBucket_def)
    have "tsorted (st_root st1)" using a(2) by (simp add: store_inv_def)
    then have gone: "\<not> bucket_exists (set_dir bn None (close_handle h (st1\<lparr>st_buckets := tdel bn (st_buckets st1)\<rparr>))) bn"
      by (simp add: bucket_exists_def bk)
    have "live_st L st bn = (\<lambda>_. None) \<longleftrightarrow> db_objects x = []"
      using live_None_iff [OF view_inv [OF a(2)] a(4)] a(6) by (auto simp: fun_eq_iff map_of_eq_empty_iff [symmetric])
    with d a(4,5) assms(2) ex gone keep run True show ?thesis
      by (auto simp: deleteBucket_h_def openDb_def Let_def split: if_splits)
  qed
qed (simp add: DeleteBucket_def on_bucket_missing [OF assms(1)])

theorem delete_bucket_result_witness:
  "fst (DeleteBucket (demo_env 300 [] []) ''abc'' demo_store1) = Inl ErrBucketNotEmpty"
proof -
  have "live_st demo_lib demo_store1 ''abc'' \<noteq> (\<lambda>_. None)" using demo_live(1) by (metis option.discI)
  with delete_bucket_result [OF demo_store1_inv demo_env_simps(1) [of 300 "[]"], of "''abc''"] show ?thesis
    by (simp add: demo_bucket split: prod.splits)
qed

end
