(* ===== verification/Store_List_Props.thy ===== *)
theory Store_List_Props
  imports Store_Props2
begin

text \<open>
  The properties of listings, and three places where the store does less than it means to: the
  successor of a prefix that ends in a byte from 0x7f on, the blob file a refused commit leaves
  behind, and a commit into a deleted bucket.
\<close>

section \<open>Listings\<close>

text \<open>The objects of a bucket of the store, in the order of their names.\<close>

definition objects_in :: "lib \<Rightarrow> store \<Rightarrow> string \<Rightarrow> object_info list" where
  "objects_in L st bn = objects_of L (dir_bucket bn (map_of (st_root st) bn))"

lemma objects_in_bucket:
  assumes "bucket_exists st bn" "tsorted (st_root st)" "bucket e bn st = (Inr h, st1)" "h_name (st_handles st1 ! h) = bn"
  shows "objects_of L (view st1 h) = objects_in L st bn"
proof -
  have od: "(\<exists>y. bd_db d' = Some y \<and> db_objects y = db_objects x)" if "openBucket_dir e d = (Inr u, d')" "bd_db d = Some x" for d d' u x
    using that by (auto simp: openBucket_dir_def Let_def split: if_splits)
  obtain d x where d: "map_of (st_root st) bn = Some d" "bd_db d = Some x"
    using assms(1) by (auto simp: bucket_exists_def split: option.splits)
  then have "\<exists>d1 y. map_of (st_root st1) bn = Some d1 \<and> bd_db d1 = Some y \<and> db_objects y = db_objects x"
    using assms(2,3) od by (fastforce simp: bucket_def openBucket_def bk Let_def split: if_splits option.splits prod.splits sum.splits)
  with d show ?thesis
    by (auto simp: objects_in_def objects_of_def b_db_def dir_bucket_def view_def assms(4))
qed

lemma ListObjects_page:
  assumes "store_inv L st" "fault_free e" "bucket_exists st bn"
    "ascii_tail (lq_Prefix req)" "plain_delim (lq_Delimiter req)"
  shows "fst (ListObjects L e bn req st) =
    Inr (page (page_limit (lq_MaxResults req))
      (entries (lq_Prefix req) (lq_Delimiter req)
        (filter (\<lambda>i. prefix (lq_Prefix req) (oi_Name i) \<and> lq_PageToken req \<le> oi_Name i) (objects_in L st bn))))"
  using assms(1-3)
proof (rule on_bucket_found)
  fix h st1 x
  assume a: "on_bucket e bn (\<lambda>h st'. (listObjects_b L e (view st' h) req, st')) st = (listObjects_b L e (view st1 h) req, st1)"
    "store_inv L st1" "b_db (view st1 h) = Some x" "\<not> b_closed (view st1 h)" "bucket e bn st = (Inr h, st1)" "b_name (view st1 h) = bn"
  have "objects_of L (view st1 h) = objects_in L st bn"
    using objects_in_bucket [OF assms(3) _ a(5)] assms(1) a(6) by (simp add: store_inv_def view_simps)
  with a listObjects_b_spec [OF view_inv [OF a(2)] a(4,3) _ assms(4,5)] assms(2) show ?thesis
    by (simp add: ListObjects_def entries_from_def)
qed


definition demo_list :: "string \<Rightarrow> int \<Rightarrow> list_request" where
  "demo_list d m = \<lparr>lq_Prefix = [], lq_Delimiter = d, lq_PageToken = [], lq_MaxResults = m\<rparr>"




text \<open>\<^verbatim>\<open>prefixSuccessor\<close> delimits a prefix whose last byte that is not 0xff is below 0x7f: a name from the prefix on is below the successor exactly when it has the prefix, and no
  successor means that every name from the prefix on has it.\<close>

theorem prefix_successor_delimits:
  assumes "ascii_tail p"
  shows "prefix p name \<longleftrightarrow> p \<le> name \<and> (prefixSuccessor p \<noteq> [] \<longrightarrow> name < prefixSuccessor p)"
  using prefixSuccessor_exact [OF assms, of name] prefix_le [of p name] by auto

theorem prefix_successor_delimits_witness: "''logs0'' \<notin> {n. ''logs/'' \<le> n \<and> n < prefixSuccessor ''logs/''}"
proof -
  have "ascii_tail ''logs/''" "prefixSuccessor ''logs/'' \<noteq> []" "\<not> prefix ''logs/'' ''logs0''" by code_simp+
  with prefix_successor_delimits [of "''logs/''" "''logs0''"] show ?thesis by simp
qed

section \<open>Where the store does less than it means to\<close>

definition e_acute :: string where "e_acute = [CHR 0xC3, CHR 0xA9]"
definition e_circ :: string where "e_circ = [CHR 0xC3, CHR 0xAA]"

definition demo_store2 :: store where
  "demo_store2 = snd (PutObject demo_lib (demo_env 300 [] [''t2'']) ''abc'' e_circ [''c''] EOF (demo_opts []) demo_store1)"

text \<open>C34. A prefix that ends in a byte from 0x80 to 0xc0, as every non-ASCII character does in UTF-8, is
  not delimited: the successor is one byte in the comment and a code point in the code, so a name that
  sorts after the prefix and does not have it is below the bound, and the listing of the prefix scans
  and returns it.\<close>

theorem prefix_successor_overshoots:
  assumes "128 \<le> byte_val c" "byte_val c \<le> 192"
  shows "let p = q @ [c]; name = q @ [char_of (byte_val c + 1)] in p \<le> name \<and> name < prefixSuccessor p \<and> \<not> prefix p name"
proof -
  have v: "byte_val (char_of (byte_val c + 1)) = byte_val c + 1" using assms by (simp add: byte_val_def)
  have ne: "char_of (byte_val c + 1) \<noteq> c" using v by auto
  have "prefixSuccessor (q @ [c]) = q @ rune_string (byte_val c + 1)"
    using assms by (simp add: prefixSuccessor_def)
  moreover have "[char_of (byte_val c + 1)] < rune_string (byte_val c + 1)"
    using assms v by (auto simp: rune_string_def byte_less_iff byte_val_def)
  moreover have "[c] \<le> [char_of (byte_val c + 1)]" using v by (simp add: byte_less_iff)
  ultimately show ?thesis using ne by (simp add: Let_def)
qed

text \<open>At e-acute: e-circumflex is below the bound, and listing the prefix e-acute of a bucket that has
  only e-circumflex returns that object.\<close>

theorem prefix_successor_overshoots_witness:
  "e_circ < prefixSuccessor e_acute \<and> \<not> prefix e_acute e_circ \<and>
   (case fst (ListObjects demo_lib (demo_env 400 [] []) ''abc'' ((demo_list [] 10)\<lparr>lq_Prefix := e_acute\<rparr>) demo_store2) of
      Inl _ \<Rightarrow> False | Inr pg \<Rightarrow> map oi_Name (lr_Objects pg) = [e_circ])"
proof -
  have "128 \<le> byte_val (CHR 0xA9)" "byte_val (CHR 0xA9) \<le> 192" "char_of (byte_val (CHR 0xA9) + 1) = CHR 0xAA" by code_simp+
  with prefix_successor_overshoots [of "CHR 0xA9" "[CHR 0xC3]"]
  have "e_circ < prefixSuccessor e_acute \<and> \<not> prefix e_acute e_circ"
    by (simp add: e_acute_def e_circ_def Let_def)
  moreover have "case fst (ListObjects demo_lib (demo_env 400 [] []) ''abc'' ((demo_list [] 10)\<lparr>lq_Prefix := e_acute\<rparr>) demo_store2) of
      Inl _ \<Rightarrow> False | Inr pg \<Rightarrow> map oi_Name (lr_Objects pg) = [e_circ]" by code_simp
  ultimately show ?thesis by blast
qed

text \<open>C39. A commit that is refused by its precondition leaves its blob behind: when no call fails, the
  file is moved into place before the precondition is checked, the error leaves the database as it
  was, and the file stays although no object row refers to it.\<close>

theorem refused_commit_leaks:
  assumes "bucket_inv L b" "b_db b = Some x" "\<not> b_closed b" "fault_free e" "\<not> bw_done w"
    "map_of (dir_tmp b) (bw_tmp w) \<noteq> None" "validObjectName name"
    "\<not> conditions_hold (po_Conditions opts) (map_option fst (live L b name))"
    "checksums L w = (sha, m, crc)" "map_of (db_blobs x) sha = None"
  shows "case commit_b L e w name opts b of (r, w', b') \<Rightarrow>
      r = Inl ErrPreconditionFailed \<and> b_db b' = Some x \<and> map_of (dir_objects b') (blobPath sha) \<noteq> None \<and>
      filter (\<lambda>(n, row). or_sha256 row = sha) (db_objects x) = []"
proof -
  have c: "check (po_Conditions opts) (map_option fst (live L b name)) = Inl ErrPreconditionFailed"
    using assms(8) by (simp add: check_error_iff)
  obtain b1 where b1: "installBlob e sha (bw_tmp w) b = (Inr (), b1)"
    using installBlob_total [OF assms(4,6)] by blast
  note f = installBlob_frame [OF b1]
  have inst: "map_of (dir_objects b1) (blobPath sha) \<noteq> None"
    using b1 bucket_inv_sorted [OF assms(1)] by (cases rule: installBlob_cases) (auto simp: tbl_simps)
  have "commit_b L e w name opts b =
      (Inl ErrPreconditionFailed, w\<lparr>bw_done := True\<rparr>, removeTmp e (bw_tmp w) b1)"
    using assms b1 f c selectObject_total [OF assms(1,2,4), of name]
    by (simp add: commit_b_def commit_body_def beginTx_def openDb_def commit_tx_def)
  moreover have "refs sha (db_objects x) = 0"
    using assms(1,2,10) by (simp add: bucket_inv_def db_inv_def blobs_match_iff)
  ultimately show ?thesis
    using f inst assms(2) by (auto simp: bk refs_def count_rows_def comp_def case_prod_beta')
qed

definition demo_leak :: "blob_writer \<times> bucket" where
  "demo_leak =
     (case newBlobWriter_b (demo_env 300 [] [''t2'']) 0 demo_bucket1 of
        (Inr w, b) \<Rightarrow> (case copy_b (demo_env 300 [] []) 0 w [''leak''] EOF b of (r, w', b') \<Rightarrow> (w', b')) | (_, b) \<Rightarrow> undefined)"

lemma demo_leak_inv: "bucket_inv demo_lib (snd demo_leak)"
proof -
  obtain w b where n: "newBlobWriter_b (demo_env 300 [] [''t2'']) 0 demo_bucket1 = (Inr w, b)"
  proof -
    have "(case fst (newBlobWriter_b (demo_env 300 [] [''t2'']) 0 demo_bucket1) of Inl _ \<Rightarrow> False | Inr _ \<Rightarrow> True)" by code_simp
    then show thesis using that
      by (cases "newBlobWriter_b (demo_env 300 [] [''t2'']) 0 demo_bucket1") (auto split: sum.splits)
  qed
  obtain r w' b' where c: "copy_b (demo_env 300 [] []) 0 w [''leak''] EOF b = (r, w', b')" by (metis prod_cases3)
  note i = newBlobWriter_b_inv [OF demo_bucket1_inv n]
  from copy_b_inv [OF i(1) i(2) [OF refl] c] n c show ?thesis by (simp add: demo_leak_def)
qed

theorem refused_commit_leaks_witness:
  "case commit_b demo_lib (demo_env 300 [] []) (fst demo_leak) ''x'' create_only (snd demo_leak) of (r, w', b') \<Rightarrow>
     r = Inl ErrPreconditionFailed \<and> map_of (dir_objects b') (blobPath (hexEncode ''leak'')) \<noteq> None"
proof -
  let ?b = "snd demo_leak" and ?w = "fst demo_leak"
  have b: "b_db ?b = Some (the (b_db ?b))" "\<not> b_closed ?b" "\<not> bw_done ?w" "map_of (dir_tmp ?b) (bw_tmp ?w) \<noteq> None"
    "validObjectName ''x''" "checksums demo_lib ?w = (hexEncode ''leak'', ''leak'', 4)"
    "map_of (db_blobs (the (b_db ?b))) (hexEncode ''leak'') = None" by code_simp+
  have "check (po_Conditions create_only) (map_option fst (live demo_lib ?b ''x'')) \<noteq> Inr ()" by code_simp
  then have c: "\<not> conditions_hold (po_Conditions create_only) (map_option fst (live demo_lib ?b ''x''))"
    by (simp add: check_ok_iff)
  from refused_commit_leaks [OF demo_leak_inv b(1,2) demo_env_simps(1) [of 300 "[]"] b(3-5) c b(6,7)] show ?thesis
    by (auto split: prod.splits)
qed

text \<open>C40. A commit into a bucket that was deleted meanwhile makes the name unusable: when no call fails,
  it fails, but \<^verbatim>\<open>MkdirAll\<close> has created the bucket's directory again without a database, so that the
  bucket can neither be found nor created from then on.\<close>

theorem stale_commit_wedges_bucket:
  assumes "store_inv L st" "fault_free e" "validBucketName bn" "map_of (st_root st) bn = None"
    "h_name (st_handles st ! bw_b w) = bn" "\<not> bw_done w" "validObjectName name"
    "Commit L e w name opts st = (r, w', st')"
  shows "r = Inl (ErrCall Sys_Rename) \<and> CreateBucket e' bn st' = (Inl ErrBucketExists, st') \<and>
    GetBucket e' bn st' = (Inl ErrBucketNotFound, st')"
proof -
  let ?v = "view st (bw_b w)"
  have st: "tsorted (st_root st)" "handles_ok st" using assms(1) by (auto simp: store_inv_def)
  have v: "b_dir ?v = None" "dir_objects ?v = []" "dir_tmp ?v = []"
    using assms(4,5) by (simp_all add: view_def dir_objects_def dir_tmp_def)
  obtain sha m crc where s: "checksums L w = (sha, m, crc)" by (metis prod_cases3)
  have "commit_b L e w name opts ?v = (Inl (ErrCall Sys_Rename), w\<lparr>bw_done := True\<rparr>, removeTmp e (bw_tmp w) (?v\<lparr>b_dir := Some empty_dir\<rparr>))"
    using assms(2,6,7) v s by (simp add: commit_b_def commit_body_def installBlob_def Let_def)
  then have r: "r = Inl (ErrCall Sys_Rename)" and st': "st' = set_dir bn (Some empty_dir) st"
    using assms(2,5,8) by (auto simp: Commit_def put_view_def removeTmp_def map_dir_def empty_dir_def)
  have root: "map_of (st_root st') bn = Some empty_dir" using st by (simp add: st' bk)
  have nb: "map_of (st_buckets st) bn = None"
    using st(2) assms(4) unfolding handles_ok_def by (cases "map_of (st_buckets st) bn") fastforce+
  have "bucket e' bn st' = (Inl ErrBucketNotFound, st')"
    using root nb assms(3) by (simp add: bucket_def st' bk empty_dir_def)
  with r root assms(3) show ?thesis by (simp add: CreateBucket_def GetBucket_def on_bucket_def)
qed

definition demo_stale :: "blob_writer \<times> store" where
  "demo_stale =
     (case NewBlobWriter (demo_env 300 [] [''t2'']) ''abc'' demo_store of
        (Inr w, st) \<Rightarrow> (w, snd (DeleteBucket (demo_env 301 [] []) ''abc'' st)) | _ \<Rightarrow> undefined)"

lemma demo_stale_inv: "store_inv demo_lib (snd demo_stale)"
proof -
  obtain r st where n: "NewBlobWriter (demo_env 300 [] [''t2'']) ''abc'' demo_store = (r, st)" by force
  have "(case fst (NewBlobWriter (demo_env 300 [] [''t2'']) ''abc'' demo_store) of Inl _ \<Rightarrow> False | Inr _ \<Rightarrow> True)" by code_simp
  with n obtain w where "r = Inr w" by (auto split: sum.splits)
  with n NewBlobWriter_inv(1) [OF demo_store_inv n] DeleteBucket_inv [of demo_lib st "demo_env 301 [] []" "''abc''"] show ?thesis
    by (cases "DeleteBucket (demo_env 301 [] []) ''abc'' st") (simp add: demo_stale_def)
qed

theorem stale_commit_wedges_bucket_witness:
  "case Commit demo_lib (demo_env 302 [] []) (fst demo_stale) ''x'' (demo_opts []) (snd demo_stale) of (r, w', st') \<Rightarrow>
     fst (CreateBucket (demo_env 303 [] []) ''abc'' st') = Inl ErrBucketExists \<and>
     fst (GetBucket (demo_env 304 [] []) ''abc'' st') = Inl ErrBucketNotFound"
proof -
  have h: "validBucketName ''abc''" "map_of (st_root (snd demo_stale)) ''abc'' = None"
    "h_name (st_handles (snd demo_stale) ! bw_b (fst demo_stale)) = ''abc''" "\<not> bw_done (fst demo_stale)" "validObjectName ''x''"
    by code_simp+
  obtain r w' st' where c: "Commit demo_lib (demo_env 302 [] []) (fst demo_stale) ''x'' (demo_opts []) (snd demo_stale) = (r, w', st')"
    by (metis prod_cases3)
  from stale_commit_wedges_bucket [OF demo_stale_inv demo_env_simps(1) [of 302 "[]"] h c] c show ?thesis by simp
qed

end
