(* ===== verification/Server_Facts.thy ===== *)
theory Server_Facts
  imports Program_Demo Store_List_Props
begin

text \<open>
  What the servers' proofs use of the store beyond its interface: a read leaves every bucket ready for
  a write, and a delete leaves its bucket in place.
\<close>

text \<open>Looking a bucket up changes no file of any bucket and loses no database.\<close>

lemma bucket_root:
  assumes s: "tsorted (st_root st)" and b: "bucket e name st = (r, st1)"
  shows "case map_of (st_root st) bn of
      None \<Rightarrow> map_of (st_root st1) bn = None
    | Some d \<Rightarrow> \<exists>d1. map_of (st_root st1) bn = Some d1 \<and> bd_tmp d1 = bd_tmp d \<and> bd_objects d1 = bd_objects d \<and>
        (bd_db d \<noteq> None \<longrightarrow> bd_db d1 \<noteq> None)"
  using b s by (auto simp: bucket_def openBucket_def openBucket_dir_def set_dir_simps Let_def
      split: if_splits option.splits prod.splits sum.splits)

lemma read_ready:
  assumes s: "tsorted (st_root st)" and b: "bucket e0 name st = (r, st1)"
  shows "bucket_exists st bn \<Longrightarrow> bucket_exists st1 bn" "tmp_ready e st bn \<Longrightarrow> tmp_ready e st1 bn"
  using bucket_root [OF s b, of bn] by (auto simp: bucket_exists_def tmp_ready_def split: option.splits)

lemma OpenObject_state: "snd (OpenObject L e bn n st) = snd (bucket e bn st)"
  by (auto simp: OpenObject_def on_bucket_def split: prod.splits sum.splits)

lemma OpenObject_ready:
  assumes "store_inv L st" "OpenObject L e0 bn0 n st = (r, st1)"
  shows "bucket_exists st bn \<Longrightarrow> bucket_exists st1 bn" "tmp_ready e st bn \<Longrightarrow> tmp_ready e st1 bn"
    "files_at st1 bn = files_at st bn"
proof -
  have s: "tsorted (st_root st)" using assms(1) by (simp add: store_inv_def)
  obtain rb where b: "bucket e0 bn0 st = (rb, st1)"
    using OpenObject_state [of L e0 bn0 n st] assms(2) by (metis prod.collapse snd_conv)
  from read_ready [OF s b] files_at_bucket [OF s b] show
    "bucket_exists st bn \<Longrightarrow> bucket_exists st1 bn" "tmp_ready e st bn \<Longrightarrow> tmp_ready e st1 bn" "files_at st1 bn = files_at st bn" by auto
qed

lemma DeleteObject_exists:
  assumes inv: "store_inv L st" and b: "bucket_exists st bn" and e: "fault_free e"
    and run: "DeleteObject L e bn name conds st = (r, st')"
  shows "bucket_exists st' bn"
  using inv e b
proof (rule on_bucket_found)
  fix h st1 x
  assume a: "on_bucket e bn (deleteObject_h L e name conds) st = deleteObject_h L e name conds h st1" "handle_for bn h st1"
  then have "st_buckets st' = st_buckets st1"
    using run by (auto simp: DeleteObject_def deleteObject_h_def bk split: prod.splits)
  with a(2) have "handle_for bn h st'" by (simp add: handle_for_def)
  with bucket_exists_handle [OF DeleteObject_inv(1) [OF inv run] this] b show ?thesis by (simp add: bucket_exists_def)
qed

section \<open>Writers without faults\<close>

lemma Copy_others:
  assumes inv: "store_inv L st" and run: "Copy e w ps en st = (r, w', st')" and n: "n \<noteq> bw_tmp w"
  shows "tmp_at st' bn n = tmp_at st bn n"
proof -
  obtain b' where c: "copy_b e 0 w ps en (view st (bw_b w)) = (r, w', b')" "st' = put_view (bw_b w) b' st"
    using run by (auto simp: Copy_def split: prod.splits)
  have st: "tsorted (st_root st)" using inv by (simp add: store_inv_def)
  have k: "map_of (dir_tmp b') n = map_of (dir_tmp (view st (bw_b w))) n"
    using copy_b_keeps [OF view_inv [OF inv] c(1), of n] n by simp
  have "tmp_at st' bn n = (if bn = h_name (st_handles st ! bw_b w) then map_of (dir_tmp b') n else tmp_at st bn n)"
    using st c(2) by (auto simp: put_view_def tmp_at_set_dir dir_tmp_def split: option.splits)
  with k show ?thesis by (simp add: tmp_at_view)
qed

lemma Copy_total:
  assumes inv: "store_inv L st" and w: "writer_st w st" "\<not> bw_done w" "tmp_at st (h_name (st_handles st ! bw_b w)) (bw_tmp w) \<noteq> None"
    and e: "fault_free e"
  shows "\<exists>w' st'. Copy e w ps EOF st = ((length (concat ps), None), w', st') \<and> store_inv L st' \<and> live_st L st' = live_st L st \<and>
    writer_st w' st' \<and> \<not> bw_done w' \<and> bw_b w' = bw_b w \<and> bw_tmp w' = bw_tmp w \<and> bw_sha w' = bw_sha w @ concat ps \<and>
    st_buckets st' = st_buckets st \<and> st_handles st' = st_handles st \<and>
    tmp_at st' (h_name (st_handles st ! bw_b w)) (bw_tmp w) \<noteq> None"
proof -
  let ?v = "view st (bw_b w)"
  have st: "tsorted (st_root st)" using inv by (simp add: store_inv_def)
  obtain w' b' where cb: "copy_b e 0 w ps EOF ?v = ((length (concat ps), None), w', b')"
    using copy_b_total [of e w 0 ps] e w(2) by fastforce
  let ?st = "put_view (bw_b w) b' st"
  have run: "Copy e w ps EOF st = ((length (concat ps), None), w', ?st)" by (simp add: Copy_def cb)
  have t: "map_of (dir_tmp b') (bw_tmp w) \<noteq> None"
    using copy_b_tmp_kept [OF view_inv [OF inv] _ cb, of "bw_tmp w"] w(3) by (simp add: tmp_at_view)
  have "tmp_at ?st (h_name (st_handles st ! bw_b w)) (bw_tmp w) = map_of (dir_tmp b') (bw_tmp w)"
    using st by (auto simp: put_view_def tmp_at_set_dir dir_tmp_def split: option.splits)
  with t run Copy_inv(1) [OF inv w(1) run] Copy_inv(2) [OF inv w(1) run refl] keeps_Copy(2) [OF inv run] w(2)
  show ?thesis by (auto simp: put_view_simps)
qed

lemma Commit_total:
  assumes inv: "store_inv L st" and e: "fault_free e" and w: "handle_for bn (bw_b w) st" "\<not> bw_done w" "tmp_at st bn (bw_tmp w) \<noteq> None"
    and name: "validObjectName name" and conds: "conditions_hold (po_Conditions opts) (map_option fst (live_st L st bn name))"
  shows "\<exists>i w' st'. Commit L e w name opts st = (Inr i, w', st')"
proof -
  note h = handle_forD [OF inv w(1)]
  obtain x where x: "b_db (view st (bw_b w)) = Some x" using h(4) by blast
  have "\<exists>i. fst (commit_b L e w name opts (view st (bw_b w))) = Inr i"
    using w(3) h conds name
    by (intro commit_b_total [OF view_inv [OF inv] x h(3) e w(2)]) (simp_all add: tmp_at_view live_view check_ok_iff)
  then show ?thesis by (cases "commit_b L e w name opts (view st (bw_b w))") (auto simp: Commit_def)
qed

text \<open>A commit that succeeds, in the terms of the bucket's name.\<close>

lemma Commit_result:
  assumes inv: "store_inv L st" "json_decodes L" and w: "writer_st w st" "h_name (st_handles st ! bw_b w) = bn"
    and lib: "json_roundtrip L (po_Metadata opts)" "collision_free L (files_at st bn) (bw_sha w)"
    and run: "Commit L e w name opts st = (Inr i, w', st')"
  shows "put_result L e bn name opts (bw_sha w) st i st'"
  using Commit_inv(3) [OF inv(1) w(1) inv(2) run refl] lib w(2) by (simp add: files_at_view)

lemma NewBlobWriter_others:
  assumes inv: "store_inv L st" and run: "NewBlobWriter e bn st = (Inr w, st')" and n: "n \<notin> set (env_tmp_names e)"
  shows "tmp_at st' b n = tmp_at st b n"
  using inv run unfolding NewBlobWriter_def
proof (cases rule: on_bucket_cases)
  case (found h st1)
  have s: "tsorted (st_root st)" "tsorted (st_root st1)" using inv found(1) by (auto simp: store_inv_def)
  obtain rt b' where c: "createTemp e (view st1 h) = (rt, b')" "st' = put_view h b' st1"
    using found(4) by (auto simp: newBlobWriter_b_def split: prod.splits sum.splits)
  have "map_of (dir_tmp b') n = map_of (dir_tmp (view st1 h)) n"
    by (rule createTemp_keeps [OF bucket_inv_sorted_tmp [OF view_inv [OF found(1)]] c(1) n])
  moreover have "tmp_at st' b n = (if b = h_name (st_handles st1 ! h) then map_of (dir_tmp b') n else tmp_at st1 b n)"
    using s(2) c(2) by (auto simp: put_view_def tmp_at_set_dir dir_tmp_def split: option.splits)
  ultimately have "tmp_at st' b n = tmp_at st1 b n" by (simp add: tmp_at_view)
  moreover have "tmp_at st1 b n = tmp_at st b n"
    using bucket_root [OF s(1) found(5), of b] by (auto simp: tmp_at_def split: option.splits)
  ultimately show ?thesis by simp
qed simp

end
