(* ===== verification/S3_Props.thy ===== *)
theory S3_Props
  imports Server_Facts
begin

text \<open>
  The properties of the S3 server: upload bodies, copies, deletes, multipart uploads, listings and
  paths.
\<close>

section \<open>Upload bodies\<close>

text \<open>C26. The decoded body does not depend on the network: however the buffered reader splits its reads
  and reports the end, \<^verbatim>\<open>io.Copy\<close> from the aws-chunked reader delivers the bytes and the end of the
  reference decoder applied to the whole body at once.\<close>

theorem chunked_schedule_independent:
  "(case aws_copy sched i new_aws_reader (bs, en) of (ps, e) \<Rightarrow> (concat ps, e)) = aws_decode (bs, en)"
  using aws_copy_decode [of sched i "(bs, en)"] by (cases "aws_copy sched i new_aws_reader (bs, en)") simp

definition streaming :: "request \<Rightarrow> bool" where
  "streaming r \<longleftrightarrow>
     HasPrefix (header_get r ''x-amz-content-sha256'') ''STREAMING-'' \<or>
     Contains (header_get r ''Content-Encoding'') ''aws-chunked''"


definition demo_chunked :: request where
  "demo_chunked = demo_request ''PUT'' ''/abc/y'' [] [(''X-Amz-Content-Sha256'', [''STREAMING-UNSIGNED-PAYLOAD-TRAILER''])]
     [encode_chunk ('';chunk-signature=ab'', ''hello'') @ ''0'', CRLF @ ''x-amz-checksum:1'']"


text \<open>C38. A truncated upload passes for a complete one: when the connection ends inside a chunk, the
  decoder reports the bytes so far and a regular end, not an error, so the cut content is committed.\<close>

theorem truncated_upload_accepted:
  assumes "list_all chunk_ok chunks" "chunk_ok (ext, c)" "k \<le> length c" "streaming r" "snd (rq_Body r) = EOF"
    "concat (fst (rq_Body r)) = concat (map encode_chunk chunks) @ FormatInt (int (length c)) 16 @ ext @ CRLF @ take k c"
  shows "\<exists>qs. requestBody sched r = (qs, EOF) \<and> concat qs = concat (map snd chunks) @ take k c"
proof -
  let ?bs = "concat (map encode_chunk chunks) @ FormatInt (int (length c)) 16 @ ext @ CRLF @ take k c"
  obtain qs e where q: "aws_copy sched 0 new_aws_reader (?bs, EOF) = (qs, e)" by force
  have "(concat qs, e) = (concat (map snd chunks) @ take k c, EOF)"
    using aws_copy_decode [OF q] aws_decode_append [OF assms(1), of _ EOF] aws_decode_cut [OF assms(2,3), of EOF] by simp
  with q assms(4-6) show ?thesis by (simp add: requestBody_def streaming_def)
qed

theorem truncated_upload_accepted_witness:
  "\<exists>qs. requestBody (\<lambda>i. (3, False)) (demo_request ''PUT'' ''/abc/y'' [] [(''Content-Encoding'', [''aws-chunked''])]
     [''5'' @ CRLF, ''he'']) = (qs, EOF) \<and> concat qs = ''he''"
proof -
  let ?r = "demo_request ''PUT'' ''/abc/y'' [] [(''Content-Encoding'', [''aws-chunked''])] [''5'' @ CRLF, ''he'']"
  have c: "chunk_ok ([], ''hello'')" "streaming ?r" by code_simp+
  have f: "FormatInt (int (length ''hello'')) 16 = ''5''" by code_simp
  from truncated_upload_accepted [of "[]" "[]" "''hello''" 2 ?r "\<lambda>i. (3, False)"] c f show ?thesis
    by (simp add: demo_request_def)
qed

text \<open>Each read of \<^verbatim>\<open>io.Copy\<close> but the last consumes a byte of the body.\<close>

lemma aws_copy_reads: "length (fst (aws_copy sched i c s)) \<le> Suc (length (fst s))"
proof (induction sched i c s rule: aws_copy.induct)
  case (1 sched i c s)
  obtain p err c' s' where r: "aws_Read (sched i) copy_buffer c s = ((p, err), c', s')" by (metis surj_pair)
  show ?case
  proof (cases err)
    case None
    have "length (fst s') < length (fst s)"
      using aws_Read_shorter [of "sched i" copy_buffer c s] r None by (auto simp: copy_buffer_def)
    moreover have "length (fst (aws_copy sched (Suc i) c' s')) \<le> Suc (length (fst s'))" using 1 r None by simp
    ultimately show ?thesis using r None
      by (subst aws_copy.simps) (cases "aws_copy sched (Suc i) c' s'", simp)
  next
    case (Some e)
    with r show ?thesis by (subst aws_copy.simps) simp
  qed
qed


section \<open>Copies and deletes\<close>

lemma PathUnescape_plain: "CHR ''%'' \<notin> set s \<Longrightarrow> PathUnescape (s @ t) = map_option (\<lambda>u. s @ u) (PathUnescape t)"
  by (cases "PathUnescape t"; induction s; auto)

lemma bucket_name_plain:
  assumes "validBucketName b"
  shows "CHR ''%'' \<notin> set b" "CHR ''/'' \<notin> set b" "b \<noteq> []"
  using valid_name_inner [OF assms] assms
  by (auto simp: list_all_iff name_inner_def name_edge_def byte_val_def validBucketName_def)

lemma prefix_slash: "validBucketName b \<Longrightarrow> \<not> prefix ''/'' (b @ t)"
  using bucket_name_plain [of b] by (cases b) auto

text \<open>The header of a copy request names what it was made from: for every bucket and every key that
  is not empty, \<^verbatim>\<open>parseCopySource\<close> of the bucket, a slash and the percent-encoded key returns the bucket
  and the key, with and without a slash in front.\<close>

theorem copy_source_roundtrip:
  assumes "validBucketName b" "k \<noteq> []"
  shows "parseCopySource (b @ ''/'' @ path_escape k) = Inr (b, k) \<and>
    parseCopySource (''/'' @ b @ ''/'' @ path_escape k) = Inr (b, k)"
proof -
  note p = bucket_name_plain [OF assms(1)]
  have "PathUnescape (b @ ''/'' @ path_escape k) = Some (b @ ''/'' @ k)"
    using PathUnescape_plain [OF p(1), of "''/'' @ path_escape k"] by (simp add: PathUnescape_path_escape)
  moreover have "Cut (b @ ''/'' @ k) ''/'' = (b, k, True)"
    using Index_not_in [OF p(2), of k] by (simp add: Cut_def)
  ultimately show ?thesis
    using assms(2) p(3) prefix_slash [OF assms(1)] by (simp add: parseCopySource_def TrimPrefix_def Let_def)
qed

theorem copy_source_roundtrip_witness: "parseCopySource ''/abc/a%20b%2Fc'' = Inr (''abc'', ''a b/c'')"
proof -
  have "validBucketName ''abc''" "path_escape ''a b/c'' = ''a%20b%2Fc''" by code_simp+
  with copy_source_roundtrip [of "''abc''" "''a b/c''"] show ?thesis by simp
qed

end
