(* ===== verification/S3_Props2.thy ===== *)
theory S3_Props2
  imports S3_Props
begin

text \<open>
  The properties of the S3 server's object handlers over what clients see of the store.
\<close>

section \<open>Copies\<close>

text \<open>C20. A server-side copy, when no call fails: the destination becomes an object with exactly the
  bytes of the source, under the source's content type and metadata, or those of the request when it
  asks to replace them; no other object changes, and the answer carries the tag of the new object.\<close>

theorem copy_object_refines:
  assumes inv: "store_inv L (s3_store s)" "json_decodes L" and e: "fault_free (es 0)" "fault_free (es 1)"
    and src: "parseCopySource (header_get r ''x-amz-copy-source'') = Inr (sb, sk)" "bucket_exists (s3_store s) sb"
      "live_st L (s3_store s) sb sk = Some (i, c)"
    and dst: "bucket_exists (s3_store s) bkt" "tmp_ready (es 1) (s3_store s) bkt" "validObjectName key"
    and lib: "json_roundtrip L (po_Metadata (copy_opts_s3 r i))" "collision_free L (files_at (s3_store s) bkt) c"
  shows "\<exists>j s'. s3_copyObject L es r bkt key s = (writeXML 200 (CopyObjectResult \<lparr>co_ETag = etagFor j, co_LastModified = iso8601 (oi_Updated j)\<rparr>), s') \<and>
    live_st L (s3_store s') = (live_st L (s3_store s))(bkt := (live_st L (s3_store s) bkt)(key \<mapsto> (j, c))) \<and>
    oi_MD5 j = lib_md5 L c \<and>
    (if EqualFold (header_get r ''x-amz-metadata-directive'') ''REPLACE''
     then oi_ContentType j = header_get r ''Content-Type'' \<and> oi_Metadata j = metadataFromHeaders (rq_Header r)
     else oi_ContentType j = oi_ContentType i \<and> oi_Metadata j = oi_Metadata i)"
proof -
  obtain ro st1 where o: "OpenObject L (es 0) sb sk (s3_store s) = (ro, st1)" by force
  have ro: "ro = Inr (i, c)"
    using OpenObject_spec [OF inv(1) e(1), of sb sk] o src by (simp add: spec_open_def)
  note k = OpenObject_inv [OF inv(1) o] and rd = OpenObject_ready [OF inv(1) o]
  let ?opts = "copy_opts_s3 r i"
  let ?j = "put_info L (env_now (es 1)) bkt key ?opts c (map_option fst (live_st L (s3_store s) bkt key))"
  have st1: "store_inv L st1" "live_st L st1 = live_st L (s3_store s)" using k by auto
  have sp: "spec_put L (env_now (es 1)) bkt key ?opts (concat (file_chunks c)) (live_st L st1) =
      (Inr ?j, (live_st L (s3_store s))(bkt := (live_st L (s3_store s) bkt)(key \<mapsto> (?j, c))))"
    using dst(3) st1(2) by (simp add: spec_put_def Let_def copy_opts_s3_def)
  have cf: "collision_free L (files_at st1 bkt) (concat (file_chunks c))" using lib(2) rd(3) by simp
  obtain st2 where p: "PutObject L (es 1) bkt key (file_chunks c) EOF ?opts st1 = (Inr ?j, st2)"
      "live_st L st2 = (live_st L (s3_store s))(bkt := (live_st L (s3_store s) bkt)(key \<mapsto> (?j, c)))"
    using PutObject_spec [OF st1(1) e(2) rd(1) [OF dst(1)] rd(2) [OF dst(2)] inv(2) lib(1) cf, of key] sp by auto
  have "s3_copyObject L es r bkt key s =
      (writeXML 200 (CopyObjectResult \<lparr>co_ETag = etagFor ?j, co_LastModified = iso8601 (oi_Updated ?j)\<rparr>), s\<lparr>s3_store := st2\<rparr>)"
    using src(1) o ro p by (simp add: s3_copyObject_def s3_call_def)
  with p(2) show ?thesis
    by (intro exI [of _ ?j] exI [of _ "s\<lparr>s3_store := st2\<rparr>"])
       (auto simp: put_info_def commit_info_def copy_opts_s3_def)
qed

definition demo_copy :: request where
  "demo_copy = demo_request ''PUT'' ''/abc/y'' [] [(''X-Amz-Copy-Source'', [''/abc/x''])] []"

theorem copy_object_refines_witness:
  "\<exists>j s'. s3_copyObject demo_lib (\<lambda>_. demo_env 300 [] [''t2'']) demo_copy ''abc'' ''y'' (NewServer_s3 demo_store1) =
     (writeXML 200 (CopyObjectResult \<lparr>co_ETag = etagFor j, co_LastModified = iso8601 (oi_Updated j)\<rparr>), s') \<and>
     live_st demo_lib (s3_store s') ''abc'' ''y'' = Some (j, ''hello'') \<and> oi_Metadata j = [(''k'', ''v'')]"
proof -
  let ?i = "commit_info ''abc'' ''x'' 200 (demo_opts [(''k'', ''v'')]) 200 (hexEncode ''hello'') ''hello'' 5 5"
  have h: "parseCopySource (header_get demo_copy ''x-amz-copy-source'') = Inr (''abc'', ''x'')" "validObjectName ''y''"
    "\<not> EqualFold (header_get demo_copy ''x-amz-metadata-directive'') ''REPLACE''" by code_simp+
  have m: "json_roundtrip demo_lib (po_Metadata (copy_opts_s3 demo_copy ?i))"
    using h(3) by (simp add: copy_opts_s3_def commit_info_def demo_opts_def)
  from copy_object_refines [of demo_lib "NewServer_s3 demo_store1" "\<lambda>_. demo_env 300 [] [''t2'']" demo_copy "''abc''" "''x''" ?i "''hello''" "''abc''" "''y''"]
    h m demo_store1_inv demo_bucket(2) demo_tmp(2) demo_live(1)
  show ?thesis by (fastforce simp: NewServer_s3_def commit_info_def demo_opts_def)
qed

section \<open>Deletes\<close>

lemma DeleteObject_plain:
  assumes "store_inv L st" "fault_free e" "bucket_exists st bn"
  shows "\<exists>st'. DeleteObject L e bn key no_conditions st =
      ((if live_st L st bn key = None then Inl ErrObjectNotFound else Inr ()), st') \<and> store_inv L st' \<and> bucket_exists st' bn \<and>
    live_st L st' = (live_st L st)(bn := (live_st L st bn)(key := None))"
proof -
  obtain st' where d: "DeleteObject L e bn key no_conditions st = (fst (spec_delete bn key no_conditions (live_st L st)), st')"
      "store_inv L st'" "live_st L st' = snd (spec_delete bn key no_conditions (live_st L st))"
    using DeleteObject_spec [OF assms, of key no_conditions] by blast
  note b = DeleteObject_exists [OF assms(1,3,2) d(1)]
  show ?thesis
  proof (cases "live_st L st bn key")
    case None
    then have "(live_st L st)(bn := (live_st L st bn)(key := None)) = live_st L st" by (auto simp: fun_eq_iff)
    with None d b show ?thesis by (simp add: spec_delete_def delete_result_def)
  next
    case (Some p)
    with d b show ?thesis by (simp add: spec_delete_def delete_result_def)
  qed
qed

lemma deleteObjects_loop_all:
  assumes "\<forall>i. fault_free (es i)" "store_inv L (s3_store s)" "bucket_exists (s3_store s) bkt"
  shows "\<exists>s'. deleteObjects_loop L es i silent bkt keys s = ((if silent then [] else keys, []), s') \<and>
    live_st L (s3_store s') = (live_st L (s3_store s))(bkt := (live_st L (s3_store s) bkt) |` (- set keys))"
  using assms(2,3)
proof (induction keys arbitrary: i s)
  case Nil
  then show ?case by (auto simp: fun_eq_iff restrict_map_def)
next
  case (Cons key keys)
  obtain st1 where d: "DeleteObject L (es i) bkt key no_conditions (s3_store s) =
        ((if live_st L (s3_store s) bkt key = None then Inl ErrObjectNotFound else Inr ()), st1)"
      "store_inv L st1" "bucket_exists st1 bkt"
      "live_st L st1 = (live_st L (s3_store s))(bkt := (live_st L (s3_store s) bkt)(key := None))"
    using DeleteObject_plain [OF Cons.prems(1) _ Cons.prems(2), of "es i" key] assms(1) by blast
  obtain s' where r: "deleteObjects_loop L es (Suc i) silent bkt keys (s\<lparr>s3_store := st1\<rparr>) = ((if silent then [] else keys, []), s')"
      "live_st L (s3_store s') = (live_st L st1)(bkt := (live_st L st1 bkt) |` (- set keys))"
    using Cons.IH [of "s\<lparr>s3_store := st1\<rparr>" "Suc i"] d(2,3) by (auto simp del: fun_upd_apply)
  have "live_st L (s3_store s') = (live_st L (s3_store s))(bkt := (live_st L (s3_store s) bkt) |` (- set (key # keys)))"
    unfolding r(2) d(4) by (auto simp: fun_eq_iff restrict_map_def)
  with d(1) r(1) show ?case by (auto simp: s3_call_def)
qed



end
