(* ===== verification/S3_Multipart_Props.thy ===== *)
theory S3_Multipart_Props
  imports S3_Props2
begin

text \<open>
  The properties of multipart uploads of the S3 server.
\<close>

text \<open>The checks of a complete request accept exactly the lists whose parts were all staged and whose
  tags, where given, are those of the parts.\<close>

definition part_listed :: "multipartUpload \<Rightarrow> completedPart \<Rightarrow> bool" where
  "part_listed up q \<longleftrightarrow>
     (case map_of (mu_parts up) (cp_PartNumber q) of None \<Rightarrow> False
      | Some p \<Rightarrow> Trim (cp_ETag q) [CHR 0x22] \<in> {[], hexEncode (sp_md5 p)})"

lemma checkParts_iff: "checkParts up bkt key qs = None \<longleftrightarrow> list_all (part_listed up) qs"
  by (induction qs) (auto simp: part_listed_def Let_def split: option.splits)

lemma checkParts_status: "checkParts up bkt key qs = Some resp \<Longrightarrow> rs_Status resp = 400"
  by (induction qs) (auto simp: Let_def writeS3Error_def writeXML_def respond_def split: option.splits if_splits)

lemma writeStoreError_status: "rs_Status (writeStoreError er res) \<noteq> 200"
  by (cases er) (simp_all add: writeStoreError_def writeS3Error_def writeXML_def respond_def)

lemma part_bytes_keeps:
  assumes "keeps N st st1"
    and "\<forall>q \<in> set qs. case map_of (mu_parts up) (cp_PartNumber q) of
        None \<Rightarrow> False | Some p \<Rightarrow> tmp_at st1 (sp_bucket p) (sp_tmp p) \<noteq> None \<and> sp_tmp p \<notin> N"
  shows "part_bytes up st1 qs = part_bytes up st qs"
proof -
  have "(case map_of (mu_parts up) (cp_PartNumber q) of
        None \<Rightarrow> [] | Some p \<Rightarrow> (case tmp_at st1 (sp_bucket p) (sp_tmp p) of None \<Rightarrow> [] | Some c \<Rightarrow> c)) =
      (case map_of (mu_parts up) (cp_PartNumber q) of
        None \<Rightarrow> [] | Some p \<Rightarrow> (case tmp_at st (sp_bucket p) (sp_tmp p) of None \<Rightarrow> [] | Some c \<Rightarrow> c))"
    if "q \<in> set qs" for q
    using assms(2) that keeps_tmp [OF assms(1)] by (fastforce split: option.splits)
  then show ?thesis unfolding part_bytes_def by (metis (mono_tags, lifting) map_eq_conv)
qed

definition complete_opts :: "multipartUpload \<Rightarrow> put_options" where
  "complete_opts up = \<lparr>po_ContentType = mu_contentType up, po_Metadata = mu_metadata up, po_Conditions = no_conditions\<rparr>"

text \<open>A fact about staged parts that the invariant gives: their names are not fresh ones.\<close>

lemma part_not_fresh:
  assumes "env_names es \<inter> ran (owns ups ses) = {}" "map_of ups uid = Some up" "map_of (mu_parts up) k = Some p"
  shows "sp_tmp p \<notin> env_names es"
proof -
  have "owns ups ses (Part uid k) = Some (sp_tmp p)" using assms(2,3) by simp
  with assms(1) show ?thesis by (metis disjoint_iff ranI)
qed

lemma assembleUpload_ok:
  assumes inv: "s3_inv L ses s" and fr: "env_names es \<inter> ran (owns (s3_uploads s) ses) = {}" and json: "json_decodes L"
    and up: "map_of (s3_uploads s) (query_get r ''uploadId'') = Some up"
    and run: "assembleUpload L es r bkt key up qs s = (resp, s')" "rs_Status resp = 200"
    and lib: "json_roundtrip L (mu_metadata up)" "collision_free L (files_at (s3_store s) bkt) (part_bytes up (s3_store s) qs)"
  shows "\<exists>i. live_st L (s3_store s') = (live_st L (s3_store s))(bkt := (live_st L (s3_store s) bkt)(key \<mapsto> (i, part_bytes up (s3_store s) qs))) \<and>
      i = put_info L (env_now (es (Suc (length qs)))) bkt key (complete_opts up) (part_bytes up (s3_store s) qs) (map_option fst (live_st L (s3_store s) bkt key)) \<and>
      resp = writeXML 200 (CompleteMultipartUploadResult \<lparr>cm_Location = resource bkt key, cm_Bucket = bkt, cm_Key = key, cm_ETag = etagFor i\<rparr>) \<and>
      s3_uploads s' = tdel (query_get r ''uploadId'') (s3_uploads s)"
proof -
  obtain rn st1 where n: "NewBlobWriter (es 0) bkt (s3_store s) = (rn, st1)" by force
  obtain w where w: "rn = Inr w"
    using run n writeStoreError_status by (cases rn) (auto simp: assembleUpload_def s3_call_def)
  obtain er w' st2 where c: "copyParts es 1 up w qs st1 = (er, w', st2)" by (metis prod_cases3)
  have er: "er = None"
    using run n w c by (cases er) (auto simp: assembleUpload_def s3_call_def writeS3Error_def writeXML_def respond_def)
  note f = fill_writer [OF inv fr json up n [unfolded w] c] and f4 = fill_writer(4) [OF inv fr json up n [unfolded w] c er]
  obtain rc w2 st3 where cm: "Commit L (es (Suc (length qs))) w' key (complete_opts up) st2 = (rc, w2, st3)" by (metis prod_cases3)
  obtain i where i: "rc = Inr i"
    using run n w c er cm writeStoreError_status by (cases rc) (auto simp: assembleUpload_def s3_call_def complete_opts_def)
  have pb: "part_bytes up st1 qs = part_bytes up (s3_store s) qs"
    by (rule part_bytes_keeps [of "env_names es"])
      (use f4 part_not_fresh [OF fr up] quiet_env_writes(2) [OF s3_inv_store [OF inv] json, of es 0 bkt] n in
        \<open>auto simp: quiet_to_def split: option.splits\<close>)
  have st2: "store_inv L st2" using f(1) by (simp add: quiet_to_def)
  have "put_result L (es (Suc (length qs))) bkt key (complete_opts up) (bw_sha w') st2 i st3"
    by (rule Commit_result [OF st2 json _ _ _ _ cm [unfolded i]]) (use f4 f(3) lib pb in \<open>auto simp: complete_opts_def\<close>)
  then have "spec_put L (env_now (es (Suc (length qs)))) bkt key (complete_opts up) (part_bytes up (s3_store s) qs) (live_st L (s3_store s)) =
      (Inr i, live_st L st3)"
    using put_result_live [OF f(2)] f4 pb by (simp add: put_result_spec)
  note sp = spec_put_view [OF this]
  have st3: "store_inv L st3" using Commit_inv(1) [OF st2 _ json cm] f4 by simp
  have "s3_store s' = removeParts (es (Suc (Suc (length qs)))) up st3" "s3_uploads s' = tdel (query_get r ''uploadId'') (s3_uploads s)"
    "resp = writeXML 200 (CompleteMultipartUploadResult \<lparr>cm_Location = resource bkt key, cm_Bucket = bkt, cm_Key = key, cm_ETag = etagFor i\<rparr>)"
    using run(1) n w c er cm i by (auto simp: assembleUpload_def s3_call_def complete_opts_def del_upload_def)
  with sp removeParts_store [OF st3] show ?thesis by (intro exI [of _ i]) simp
qed

text \<open>What a run of the handler did when it answers 200, and when it does not.\<close>

lemma complete_run:
  assumes "completeMultipartUpload L xml es r bkt key s = (resp, s')" "rs_Status resp = 200"
  obtains up qs where "map_of (s3_uploads s) (query_get r ''uploadId'') = Some up" "mu_bucket up = bkt" "mu_key up = key"
    "xml (rq_Body r) = Inr qs" "qs \<noteq> []" "sorted (map cp_PartNumber qs)" "list_all (part_listed up) qs"
    "assembleUpload L es r bkt key up qs s = (resp, s')"
proof -
  have e: "rs_Status (writeS3Error k m t u) = k" for k m t u by (simp add: writeS3Error_def writeXML_def respond_def)
  have l: "rs_Status resp' = 404" if "lookupUpload r bkt key s = Inl resp'" for resp'
    using that by (auto simp: lookupUpload_def noSuchUpload_def e split: option.splits if_splits)
  obtain up where up: "lookupUpload r bkt key s = Inr up"
    using assms l by (cases "lookupUpload r bkt key s") (auto simp: completeMultipartUpload_def)
  obtain qs where qs: "xml (rq_Body r) = Inr qs"
    using assms up by (cases "xml (rq_Body r)") (auto simp: completeMultipartUpload_def e)
  have k: "qs \<noteq> []" "sorted (map cp_PartNumber qs)" "\<not> mu_done up" "checkParts up bkt key qs = None"
    using assms up qs checkParts_status
    by (auto simp: completeMultipartUpload_def e noSuchUpload_def split: if_splits option.splits)
  then have "assembleUpload L es r bkt key up qs s = (resp, s')"
    using assms(1) up qs by (simp add: completeMultipartUpload_def)
  with up qs k show thesis by (intro that [of up qs]) (auto simp: lookupUpload_Inr checkParts_iff)
qed

text \<open>C9. Completing a multipart upload assembles the object: in every state the program reaches, when
  the server answers 200 the object is the concatenation of the staged files of the listed parts, in
  the order of the list, which is ascending, under the content type and metadata given at the start;
  every listed part has the MD5 that the request gives for it; no other object changes, and the upload
  is gone.\<close>

theorem multipart_complete_content:
  assumes inv: "prog_inv L p" "json_decodes L" "fresh_names es p"
    and s: "s = \<lparr>s3_store = pg_store p, s3_uploads = pg_uploads p\<rparr>"
    and run: "completeMultipartUpload L xml es r bkt key s = (resp, s')" "rs_Status resp = 200"
    and req: "xml (rq_Body r) = Inr qs" "map_of (pg_uploads p) (query_get r ''uploadId'') = Some up"
    and lib: "json_roundtrip L (mu_metadata up)" "collision_free L (files_at (pg_store p) bkt) (part_bytes up (pg_store p) qs)"
  shows "\<exists>i. live_st L (s3_store s') = (live_st L (pg_store p))(bkt := (live_st L (pg_store p) bkt)(key \<mapsto> (i, part_bytes up (pg_store p) qs))) \<and>
      oi_ContentType i = mu_contentType up \<and> oi_Metadata i = mu_metadata up \<and> oi_MD5 i = lib_md5 L (part_bytes up (pg_store p) qs) \<and>
      sorted (map cp_PartNumber qs) \<and> map_of (s3_uploads s') (query_get r ''uploadId'') = None \<and>
      (\<forall>q \<in> set qs. \<exists>part. map_of (mu_parts up) (cp_PartNumber q) = Some part \<and>
         Trim (cp_ETag q) [CHR 0x22] \<in> {[], hexEncode (sp_md5 part)} \<and>
         (\<forall>c. tmp_at (pg_store p) (sp_bucket part) (sp_tmp part) = Some c \<longrightarrow> sp_md5 part = lib_md5 L c))"
proof -
  have i: "s3_inv L (pg_sessions p) s" using inv(1) by (simp add: s s3_inv_def prog_inv_def)
  have fr: "env_names es \<inter> ran (owns (s3_uploads s) (pg_sessions p)) = {}" using inv(3) by (simp add: s fresh_names_def)
  obtain up' qs' where c: "map_of (s3_uploads s) (query_get r ''uploadId'') = Some up'" "xml (rq_Body r) = Inr qs'"
      "sorted (map cp_PartNumber qs')" "list_all (part_listed up') qs'" "assembleUpload L es r bkt key up' qs' s = (resp, s')"
    by (rule complete_run [OF run])
  have eq: "up' = up" "qs' = qs" using c(1,2) req s by auto
  note a = assembleUpload_ok [OF i fr inv(2) c(1,5) run(2)]
  have ts: "tsorted (s3_uploads s)" using i by (simp add: s3_inv_def srv_inv_def)
  have ok: "upload_ok L (pg_store p) up" using inv(1) req(2) by (auto simp: prog_inv_def srv_inv_def)
  have "\<exists>part. map_of (mu_parts up) (cp_PartNumber q) = Some part \<and>
         Trim (cp_ETag q) [CHR 0x22] \<in> {[], hexEncode (sp_md5 part)} \<and>
         (\<forall>c. tmp_at (pg_store p) (sp_bucket part) (sp_tmp part) = Some c \<longrightarrow> sp_md5 part = lib_md5 L c)" if "q \<in> set qs" for q
    using c(4) that ok unfolding eq by (auto simp: list_all_iff part_listed_def upload_ok_def part_ok_def split: option.splits)
  moreover obtain j where "live_st L (s3_store s') = (live_st L (pg_store p))(bkt := (live_st L (pg_store p) bkt)(key \<mapsto> (j, part_bytes up (pg_store p) qs)))"
      "j = put_info L (env_now (es (Suc (length qs)))) bkt key (complete_opts up) (part_bytes up (pg_store p) qs) (map_option fst (live_st L (pg_store p) bkt key))"
      "s3_uploads s' = tdel (query_get r ''uploadId'') (s3_uploads s)"
    using a lib unfolding eq by (auto simp: s)
  ultimately show ?thesis
    using c(3) ts unfolding eq
    by (intro exI [of _ j]) (auto simp: put_info_def commit_info_def complete_opts_def tbl_simps)
qed

definition demo_complete :: request where
  "demo_complete = demo_request ''POST'' ''/abc/big'' [(''uploadId'', ''41'')] [] [''12'']"

definition demo_upload :: multipartUpload where
  "demo_upload = the (map_of (pg_uploads demo_prog5) ''41'')"

lemma demo_upload_facts:
  "map_of (pg_uploads demo_prog5) ''41'' = Some demo_upload" "query_get demo_complete ''uploadId'' = ''41''"
  "mu_metadata demo_upload = []"
  "part_bytes demo_upload (pg_store demo_prog5) [\<lparr>cp_PartNumber = 1, cp_ETag = []\<rparr>, \<lparr>cp_PartNumber = 2, cp_ETag = []\<rparr>] = ''hello''"
  by code_simp+

lemma demo_complete_body:
  "demo_parts (rq_Body demo_complete) = Inr [\<lparr>cp_PartNumber = 1, cp_ETag = []\<rparr>, \<lparr>cp_PartNumber = 2, cp_ETag = []\<rparr>]"
  by code_simp

lemma demo_prog5_inv: "prog_inv demo_lib demo_prog5"
  by (rule served_inv [OF demo_lib_ok(1) root_ok_empty demo_served(5)])

lemma demo_fresh5: "fresh_names (\<lambda>_. demo_env t [] [''w1'']) demo_prog5"
proof -
  have "list_all (\<lambda>n. n \<notin> set (names_in_use demo_prog5)) [''w1'']" by code_simp
  from fresh_demo(1) [OF this, of t] show ?thesis by (simp add: demo_s3_def)
qed

definition demo_server5 :: s3_server where
  "demo_server5 = \<lparr>s3_store = pg_store demo_prog5, s3_uploads = pg_uploads demo_prog5\<rparr>"

theorem multipart_complete_content_witness:
  "\<exists>i. live_st demo_lib (s3_store (snd (completeMultipartUpload demo_lib demo_parts (\<lambda>_. demo_env 105 [] [''w1'']) demo_complete ''abc'' ''big'' demo_server5)))
     ''abc'' ''big'' = Some (i, ''hello'') \<and> oi_MD5 i = ''hello''"
proof -
  let ?c = "completeMultipartUpload demo_lib demo_parts (\<lambda>_. demo_env 105 [] [''w1'']) demo_complete ''abc'' ''big'' demo_server5"
  have "rs_Status (fst ?c) = 200" by code_simp
  note st = this
  have c: "?c = (fst ?c, snd ?c)" by simp
  have up: "map_of (pg_uploads demo_prog5) (query_get demo_complete ''uploadId'') = Some demo_upload"
    by (simp only: demo_upload_facts)
  have l: "json_roundtrip demo_lib (mu_metadata demo_upload)"
      "collision_free demo_lib (files_at (pg_store demo_prog5) ''abc'') (part_bytes demo_upload (pg_store demo_prog5)
         [\<lparr>cp_PartNumber = 1, cp_ETag = []\<rparr>, \<lparr>cp_PartNumber = 2, cp_ETag = []\<rparr>])"
    by (simp_all add: demo_upload_facts)
  obtain i where "live_st demo_lib (s3_store (snd ?c)) =
      (live_st demo_lib (pg_store demo_prog5))(''abc'' := (live_st demo_lib (pg_store demo_prog5) ''abc'')(''big'' \<mapsto> (i, ''hello'')))"
      "oi_MD5 i = lib_md5 demo_lib ''hello''"
    using multipart_complete_content [OF demo_prog5_inv demo_lib_ok(1) demo_fresh5 demo_server5_def c st demo_complete_body up l]
    unfolding demo_upload_facts(4) by blast
  then show ?thesis by (intro exI [of _ i]) (simp add: demo_lib_def)
qed



lemma copyParts_total:
  assumes "\<forall>i. fault_free (es i)" "store_inv L st" "writer_st w st" "\<not> bw_done w"
    "tmp_at st (h_name (st_handles st ! bw_b w)) (bw_tmp w) \<noteq> None"
    "\<forall>q \<in> set qs. case map_of (mu_parts up) (cp_PartNumber q) of
        None \<Rightarrow> False | Some p \<Rightarrow> tmp_at st (sp_bucket p) (sp_tmp p) \<noteq> None \<and> sp_tmp p \<noteq> bw_tmp w"
  shows "\<exists>w' st'. copyParts es i up w qs st = (None, w', st') \<and> store_inv L st' \<and> live_st L st' = live_st L st \<and> \<not> bw_done w' \<and>
    bw_b w' = bw_b w \<and> bw_tmp w' = bw_tmp w \<and> st_buckets st' = st_buckets st \<and>
    tmp_at st' (h_name (st_handles st ! bw_b w)) (bw_tmp w) \<noteq> None"
  using assms(2-6)
proof (induction qs arbitrary: i w st)
  case (Cons q qs)
  obtain part c where p: "map_of (mu_parts up) (cp_PartNumber q) = Some part" "tmp_at st (sp_bucket part) (sp_tmp part) = Some c"
    using Cons.prems(5) by (auto split: option.splits)
  obtain w1 st1 where cp: "Copy (es i) w (file_chunks c) EOF st = ((length (concat (file_chunks c)), None), w1, st1)"
      "store_inv L st1" "live_st L st1 = live_st L st" "writer_st w1 st1" "\<not> bw_done w1" "bw_b w1 = bw_b w" "bw_tmp w1 = bw_tmp w"
      "st_buckets st1 = st_buckets st" "st_handles st1 = st_handles st" "tmp_at st1 (h_name (st_handles st ! bw_b w)) (bw_tmp w) \<noteq> None"
    using Copy_total [OF Cons.prems(1-4), of "es i" "file_chunks c"] assms(1) by blast
  have "\<forall>q \<in> set qs. case map_of (mu_parts up) (cp_PartNumber q) of
        None \<Rightarrow> False | Some p \<Rightarrow> tmp_at st1 (sp_bucket p) (sp_tmp p) \<noteq> None \<and> sp_tmp p \<noteq> bw_tmp w1"
    using Cons.prems(5) Copy_others [OF Cons.prems(1) cp(1)] cp(7) by (fastforce split: option.splits)
  with Cons.IH [of st1 w1 "Suc i"] cp obtain w' st' where
    "copyParts es (Suc i) up w1 qs st1 = (None, w', st')" "store_inv L st'" "live_st L st' = live_st L st" "\<not> bw_done w'"
    "bw_b w' = bw_b w" "bw_tmp w' = bw_tmp w" "st_buckets st' = st_buckets st"
    "tmp_at st' (h_name (st_handles st ! bw_b w)) (bw_tmp w) \<noteq> None" by auto
  with p cp(1) assms(1) show ?case by simp
qed simp

text \<open>C18. A well-formed complete request succeeds: when no call fails, the bucket is there, the key is
  valid, and the listed parts are staged, in ascending order and tagged correctly, the server answers
  200.\<close>

theorem multipart_complete_succeeds:
  assumes inv: "prog_inv L p" "json_decodes L" "fresh_names es p" and e: "\<forall>i. fault_free (es i)"
    and s: "s = \<lparr>s3_store = pg_store p, s3_uploads = pg_uploads p\<rparr>"
    and up: "map_of (pg_uploads p) (query_get r ''uploadId'') = Some up" "mu_bucket up = bkt" "mu_key up = key"
    and req: "xml (rq_Body r) = Inr qs" "qs \<noteq> []" "sorted (map cp_PartNumber qs)" "list_all (part_listed up) qs"
    and staged: "\<forall>k part. map_of (mu_parts up) k = Some part \<longrightarrow> tmp_at (pg_store p) (sp_bucket part) (sp_tmp part) \<noteq> None"
    and ready: "bucket_exists (pg_store p) bkt" "tmp_ready (es 0) (pg_store p) bkt" "validObjectName key"
  shows "rs_Status (fst (completeMultipartUpload L xml es r bkt key s)) = 200"
proof -
  have i: "store_inv L (pg_store p)" "\<not> mu_done up" using inv(1) up(1) by (auto simp: prog_inv_def srv_inv_def upload_ok_def)
  obtain w st1 where n: "NewBlobWriter (es 0) bkt (pg_store p) = (Inr w, st1)"
      and wt: "map_of (dir_tmp (view st1 (bw_b w))) (bw_tmp w) \<noteq> None"
    using NewBlobWriter_total [OF i(1) _ ready(1,2)] e by blast
  note nb = NewBlobWriter_inv [OF i(1) n]
  have w: "store_inv L st1" "writer_st w st1" "handle_for bkt (bw_b w) st1" "\<not> bw_done w" using nb(1) nb(2) [OF refl] by auto
  have hn: "h_name (st_handles st1 ! bw_b w) = bkt" by (rule handle_forD(2) [OF w(1,3)])
  have wn: "bw_tmp w \<in> env_names es" using keeps_NewBlobWriter(2) [OF i(1) n refl] by (auto simp: env_names_def)
  have fr: "env_names es \<inter> ran (owns (pg_uploads p) (pg_sessions p)) = {}" using inv(3) by (simp add: fresh_names_def)
  have same: "tmp_at st1 b m = tmp_at (pg_store p) b m" if "m \<notin> env_names es" for b m
    using NewBlobWriter_others [OF i(1) n] that by (auto simp: env_names_def)
  have parts: "\<forall>q \<in> set qs. case map_of (mu_parts up) (cp_PartNumber q) of
        None \<Rightarrow> False | Some p \<Rightarrow> tmp_at st1 (sp_bucket p) (sp_tmp p) \<noteq> None \<and> sp_tmp p \<noteq> bw_tmp w"
  proof
    fix q assume "q \<in> set qs"
    then obtain part where q: "map_of (mu_parts up) (cp_PartNumber q) = Some part"
      using req(4) by (auto simp: list_all_iff part_listed_def split: option.splits)
    with part_not_fresh [OF fr up(1) q] wn same staged show "case map_of (mu_parts up) (cp_PartNumber q) of
        None \<Rightarrow> False | Some p \<Rightarrow> tmp_at st1 (sp_bucket p) (sp_tmp p) \<noteq> None \<and> sp_tmp p \<noteq> bw_tmp w" by auto
  qed
  have t1: "tmp_at st1 (h_name (st_handles st1 ! bw_b w)) (bw_tmp w) \<noteq> None" using wt by (simp add: tmp_at_view)
  obtain w' st2 where c: "copyParts es 1 up w qs st1 = (None, w', st2)" "store_inv L st2" "\<not> bw_done w'" "bw_b w' = bw_b w"
      "bw_tmp w' = bw_tmp w" "st_buckets st2 = st_buckets st1" "tmp_at st2 bkt (bw_tmp w) \<noteq> None"
    using copyParts_total [OF e w(1,2,4) t1 parts, of 1] hn by auto
  have h2: "handle_for bkt (bw_b w') st2" using w(3) c(4,6) by (simp add: handle_for_def)
  obtain j w2 st3 where cm: "Commit L (es (Suc (length qs))) w' key (complete_opts up) st2 = (Inr j, w2, st3)"
    using Commit_total [OF c(2) _ h2 c(3) _ ready(3), of "es (Suc (length qs))" "complete_opts up"] e c(5,7)
    by (auto simp: complete_opts_def)
  have "lookupUpload r bkt key s = Inr up" using up by (simp add: lookupUpload_Inr s)
  moreover have "checkParts up bkt key qs = None" using req(4) by (simp add: checkParts_iff)
  moreover have "rs_Status (fst (assembleUpload L es r bkt key up qs s)) = 200"
    using n c(1) cm by (simp add: assembleUpload_def s3_call_def complete_opts_def s writeXML_def respond_def)
  ultimately show ?thesis using req i(2) by (simp add: completeMultipartUpload_def)
qed

theorem multipart_complete_succeeds_witness:
  "rs_Status (fst (completeMultipartUpload demo_lib demo_parts (\<lambda>_. demo_env 105 [] [''w1'']) demo_complete ''abc'' ''big'' demo_server5)) = 200"
proof -
  let ?qs = "[\<lparr>cp_PartNumber = 1, cp_ETag = []\<rparr>, \<lparr>cp_PartNumber = 2, cp_ETag = []\<rparr>]"
  have up: "map_of (pg_uploads demo_prog5) (query_get demo_complete ''uploadId'') = Some demo_upload"
    by (simp only: demo_upload_facts)
  have b: "mu_bucket demo_upload = ''abc''" "mu_key demo_upload = ''big''" "list_all (part_listed demo_upload) ?qs"
    "bucket_exists (pg_store demo_prog5) ''abc''" "tmp_ready (demo_env 105 [] [''w1'']) (pg_store demo_prog5) ''abc''" "validObjectName ''big''"
    by code_simp+
  have "list_all (\<lambda>(k, part). tmp_at (pg_store demo_prog5) (sp_bucket part) (sp_tmp part) \<noteq> None) (mu_parts demo_upload)" by code_simp
  then have st: "\<forall>k part. map_of (mu_parts demo_upload) k = Some part \<longrightarrow> tmp_at (pg_store demo_prog5) (sp_bucket part) (sp_tmp part) \<noteq> None"
    by (auto simp: list_all_iff dest!: map_of_SomeD)
  have e: "\<forall>i::nat. fault_free ((\<lambda>_. demo_env 105 [] [''w1'']) i)" by simp
  have q: "?qs \<noteq> []" "sorted (map cp_PartNumber ?qs)" by simp_all
  show ?thesis
    by (rule multipart_complete_succeeds [where es = "\<lambda>_. demo_env 105 [] [''w1'']" and xml = demo_parts,
        OF demo_prog5_inv demo_lib_ok(1) demo_fresh5 e demo_server5_def up b(1,2) demo_complete_body q b(3) st b(4-6)])
qed

end
