(* ===== verification/S3_List_Props.thy ===== *)
theory S3_List_Props
  imports Server_Facts
begin

text \<open>
  The properties of listings as requests reach them: the marker of the first version of the S3 listing,
  and prefixes that make the scan fail.
\<close>

section \<open>Markers\<close>

text \<open>C36. A marker that ends in the delimiter stands for a group: when a listing of the first version
  has a marker that ends in the delimiter, as the last entry of a page has when it is a common prefix,
  the next page starts after every name with that prefix. So when the marker is the prefix of the
  listing itself, which is what the server returns after a page that ends with the object of that name,
  the next page is empty, whatever other objects have the prefix.\<close>

theorem v1_marker_skips_folder:
  assumes inv: "store_inv L (s3_store s)" "fault_free (es 0)" "bucket_exists (s3_store s) bkt"
    and r: "query_get r ''list-type'' \<noteq> ''2''" "query_get r ''marker'' = m" "query_get r ''delimiter'' = d" "query_get r ''prefix'' = m"
      "s3_maxKeys r = Some k"
    and m: "d \<noteq> []" "HasSuffix m d" "byte_val (last d) < 127"
  shows "(\<forall>n. prefix m n \<longrightarrow> n < s3_pageToken r) \<and>
    (\<exists>v. rs_Body (fst (s3_listObjects L es r bkt s)) = ListBucketResultV1 v \<and>
       v1_Contents v = [] \<and> v1_CommonPrefixes v = [] \<and> \<not> v1_IsTruncated v)"
proof -
  obtain x where x: "m = x @ d" using m(2) by (auto simp: HasSuffix_def suffix_def)
  have a: "ascii_tail m" unfolding x by (rule ascii_tail_append [OF m(1,3)])
  have ne: "m \<noteq> []" "prefixSuccessor m \<noteq> []"
    using m(1,3) x by (cases d rule: rev_cases; simp add: prefixSuccessor_snoc rune_string_def flip: append_assoc)+
  have t: "s3_pageToken r = prefixSuccessor m" using r m ne(1) by (simp add: s3_pageToken_def Let_def)
  have lt: "n < prefixSuccessor m" if "prefix m n" for n using prefixSuccessor_exact [OF a, of n] that ne(2) by simp
  let ?req = "\<lparr>lq_Prefix = m, lq_Delimiter = d, lq_PageToken = prefixSuccessor m, lq_MaxResults = k\<rparr>"
  have "filter (\<lambda>i. prefix m (oi_Name i) \<and> prefixSuccessor m \<le> oi_Name i) (objects_in L (s3_store s) bkt) = []"
    using lt by (auto simp: filter_empty_conv not_le)
  moreover have "ascii_tail (lq_Prefix ?req)" "plain_delim (lq_Delimiter ?req)" using a m by (simp_all add: plain_delim_def)
  ultimately have "fst (ListObjects L (es 0) bkt ?req (s3_store s)) = Inr \<lparr>lr_Objects = [], lr_Prefixes = [], lr_NextPageToken = []\<rparr>"
    using ListObjects_page [OF inv, of ?req] by (simp add: page_def)
  with r t have "\<exists>v. rs_Body (fst (s3_listObjects L es r bkt s)) = ListBucketResultV1 v \<and>
       v1_Contents v = [] \<and> v1_CommonPrefixes v = [] \<and> \<not> v1_IsTruncated v"
    by (auto simp: s3_listObjects_def s3_call_def Let_def writeXML_def respond_def split: prod.splits)
  with lt t show ?thesis by simp
qed

text \<open>The bucket with a folder object and an object in the folder, and the requests for its pages.\<close>

definition folder_store :: store where
  "folder_store = snd (PutObject demo_lib (demo_env 300 [] [''t3'']) ''abc'' ''a/x'' [''2''] EOF (demo_opts [])
     (snd (PutObject demo_lib (demo_env 200 [] [''t2'']) ''abc'' ''a/'' [''1''] EOF (demo_opts []) demo_store)))"

definition folder_page :: "string \<Rightarrow> request" where
  "folder_page mk = demo_request ''GET'' ''/abc'' [(''prefix'', ''a/''), (''delimiter'', ''/''), (''max-keys'', ''1''), (''marker'', mk)] [] []"

lemma folder_store_inv: "store_inv demo_lib folder_store"
  using PutObject_inv(1) [OF demo_store_inv demo_lib_ok(1)] PutObject_inv(1) [OF _ demo_lib_ok(1)]
  unfolding folder_store_def by (metis surj_pair snd_conv)

text \<open>The first page ends with the folder object and is truncated; the next one, at its marker, is empty.\<close>

theorem v1_marker_skips_folder_witness:
  "(case rs_Body (fst (s3_listObjects demo_lib (\<lambda>_. demo_env 400 [] []) (folder_page []) ''abc'' (NewServer_s3 folder_store))) of
      ListBucketResultV1 v \<Rightarrow> map ct_Key (v1_Contents v) = [''a/''] \<and> v1_IsTruncated v \<and> v1_NextMarker v = ''a/'' | _ \<Rightarrow> False) \<and>
   (case rs_Body (fst (s3_listObjects demo_lib (\<lambda>_. demo_env 400 [] []) (folder_page ''a/'') ''abc'' (NewServer_s3 folder_store))) of
      ListBucketResultV1 v \<Rightarrow> v1_Contents v = [] \<and> \<not> v1_IsTruncated v | _ \<Rightarrow> False)"
proof -
  have s: "s3_store (NewServer_s3 folder_store) = folder_store" by (simp add: NewServer_s3_def)
  have b: "bucket_exists folder_store ''abc''" by code_simp
  have q: "query_get (folder_page ''a/'') ''list-type'' \<noteq> ''2''" "query_get (folder_page ''a/'') ''marker'' = ''a/''"
    "query_get (folder_page ''a/'') ''delimiter'' = ''/''" "query_get (folder_page ''a/'') ''prefix'' = ''a/''" "s3_maxKeys (folder_page ''a/'') = Some 1"
    "HasSuffix ''a/'' ''/''" "byte_val (last ''/'') < 127" by code_simp+
  have d: "''/'' \<noteq> []" by simp
  have "case rs_Body (fst (s3_listObjects demo_lib (\<lambda>_. demo_env 400 [] []) (folder_page []) ''abc'' (NewServer_s3 folder_store))) of
      ListBucketResultV1 v \<Rightarrow> map ct_Key (v1_Contents v) = [''a/''] \<and> v1_IsTruncated v \<and> v1_NextMarker v = ''a/'' | _ \<Rightarrow> False" by code_simp
  moreover obtain v where "rs_Body (fst (s3_listObjects demo_lib (\<lambda>_. demo_env 400 [] []) (folder_page ''a/'') ''abc'' (NewServer_s3 folder_store))) =
      ListBucketResultV1 v" "v1_Contents v = []" "\<not> v1_IsTruncated v"
    using v1_marker_skips_folder [where es = "\<lambda>_. demo_env 400 [] []" and s = "NewServer_s3 folder_store" and r = "folder_page ''a/''", unfolded s,
        OF folder_store_inv demo_env_simps(1) b q(1-5) d q(6,7)] by blast
  ultimately show ?thesis by simp
qed

section \<open>Prefixes that make the scan fail\<close>

lemma first_of_sorted:
  fixes f :: "'x \<Rightarrow> string"
  assumes "sorted_wrt (<) (map f xs)" "x \<in> set xs" "\<forall>y \<in> set xs. f x \<le> f y"
  obtains ys where "xs = x # ys"
proof (cases xs)
  case (Cons a ys)
  have "x = a" using assms Cons by (auto simp: not_less [symmetric])
  with Cons show thesis by (intro that) simp
qed (use assms in simp)

text \<open>C35. A prefix can crash a listing: the upper end of a scan for a prefix that ends in a byte from 0x80
  to 0xc0 and the byte 0xff lets names through that are shorter than the prefix, and slicing such a name
  at the length of the prefix panics. So a listing of that prefix fails, without an answer to the client,
  as soon as an object whose name ends in the next byte is the first in the range.\<close>

theorem list_prefix_panics:
  assumes inv: "store_inv L st" "fault_free e" "bucket_exists st bn"
    and p: "128 \<le> byte_val c" "byte_val c \<le> 192" "p = q @ [c, CHR 0xFF]" "name = q @ [char_of (byte_val c + 1)]"
    and ob: "i \<in> set (objects_in L st bn)" "oi_Name i = name" "\<forall>j \<in> set (objects_in L st bn). p \<le> oi_Name j \<longrightarrow> name \<le> oi_Name j"
  shows "fst (ListObjects L e bn \<lparr>lq_Prefix = p, lq_Delimiter = d, lq_PageToken = [], lq_MaxResults = m\<rparr> st) =
    Inl (Panicked ''slice bounds out of range'')"
  using inv
proof (rule on_bucket_found)
  let ?req = "\<lparr>lq_Prefix = p, lq_Delimiter = d, lq_PageToken = [], lq_MaxResults = m\<rparr>"
  fix h st1 x
  assume a: "on_bucket e bn (\<lambda>h st'. (listObjects_b L e (view st' h) ?req, st')) st = (listObjects_b L e (view st1 h) ?req, st1)"
    "store_inv L st1" "b_db (view st1 h) = Some x" "\<not> b_closed (view st1 h)" "bucket e bn st = (Inr h, st1)" "b_name (view st1 h) = bn"
  have os: "objects_of L (view st1 h) = objects_in L st bn"
    using objects_in_bucket [OF inv(3) _ a(5)] inv(1) a(6) by (simp add: store_inv_def view_simps)
  note ob1 = objects_of [OF view_inv [OF a(2)] a(3), unfolded os a(6)]
  let ?hi = "prefixSuccessor p"
  let ?F = "filter (\<lambda>i. in_range p ?hi (oi_Name i)) (objects_in L st bn)"
  have v: "byte_val (char_of (byte_val c + 1)) = byte_val c + 1" using p by (simp add: byte_val_def)
  have hi: "?hi = q @ rune_string (byte_val c + 1)" using p prefixSuccessor_snoc [of "q @ [c]" "CHR 0xFF"] prefixSuccessor_snoc [of q c]
    by (simp add: byte_val_def)
  have "[char_of (byte_val c + 1)] < rune_string (byte_val c + 1)" using p v by (auto simp: rune_string_def byte_less_iff byte_val_def)
  then have r: "in_range p ?hi name" using p v unfolding in_range_def hi by (auto simp: byte_less_iff)
  have "sorted_wrt (<) (map oi_Name ?F)" using names_sorted_filter [OF ob1(2)] by (simp add: names_sorted_def)
  then obtain ys where ys: "?F = i # ys"
    by (rule first_of_sorted [where x = i]) (use ob r in \<open>auto simp: in_range_def\<close>)
  have "scan_rows L bn (query_batch p ?hi (db_objects x)) = Inr (take batchSize ?F)"
    unfolding query_batch_def by (intro scan_rows_take scan_rows_filter ob1(1))
  then have "scan_rows L bn (query_batch p ?hi (db_objects x)) = Inr (i # take (batchSize - 1) ys)"
    by (simp add: ys take_Cons' batchSize_def)
  moreover have "0 < page_limit m" by (simp add: page_limit_def defaultMaxResults_def)
  ultimately have "list_loop L e bn (db_objects x) p d (page_limit m) ?hi p empty_result 0 = Inl (Panicked ''slice bounds out of range'')"
    using inv(2) ob(2) p(3,4) by (subst list_loop.simps) simp
  moreover have "\<not> p < []" by simp
  ultimately show ?thesis using a by (simp add: ListObjects_def listObjects_b_def openDb_def)
qed

definition byte_store :: store where
  "byte_store = snd (PutObject demo_lib (demo_env 200 [] [''t2'']) ''abc'' [CHR 0x81] [''1''] EOF (demo_opts []) demo_store)"

lemma byte_store_inv: "store_inv demo_lib byte_store"
  using PutObject_inv(1) [OF demo_store_inv demo_lib_ok(1)] unfolding byte_store_def by (metis surj_pair snd_conv)

text \<open>The object named by the byte 0x81 and the prefix of the bytes 0x80 and 0xff.\<close>

theorem list_prefix_panics_witness:
  "fst (ListObjects demo_lib (demo_env 400 [] []) ''abc'' \<lparr>lq_Prefix = [CHR 0x80, CHR 0xFF], lq_Delimiter = ''/'', lq_PageToken = [], lq_MaxResults = 10\<rparr> byte_store) =
     Inl (Panicked ''slice bounds out of range'')"
proof -
  have b: "bucket_exists byte_store ''abc''" by code_simp
  have c: "128 \<le> byte_val (CHR 0x80)" "byte_val (CHR 0x80) \<le> 192" "char_of (byte_val (CHR 0x80) + 1) = CHR 0x81" by code_simp+
  have "map oi_Name (objects_in demo_lib byte_store ''abc'') = [[CHR 0x81]]" by code_simp
  then obtain i where i: "objects_in demo_lib byte_store ''abc'' = [i]" "oi_Name i = [CHR 0x81]" by auto
  have n: "[CHR 0x81] = [] @ [char_of (byte_val (CHR 0x80) + 1)]" by (simp only: c(3) append_Nil)
  show ?thesis
    by (rule list_prefix_panics [OF byte_store_inv demo_env_simps(1) b c(1,2) _ n, where i = i]) (simp_all add: i)
qed

end
