(* ===== verification/Gcs_Props.thy ===== *)
theory Gcs_Props
  imports Server_Facts
begin

text \<open>
  The properties of the GCS server that concern one request: content ranges, checksums, uploads in one
  request and paths.
\<close>

section \<open>Content ranges\<close>

text \<open>The range header as clients write it; the total is not known while a client streams.\<close>

definition total_text :: "int option \<Rightarrow> string" where
  "total_text t = (case t of None \<Rightarrow> ''*'' | Some n \<Rightarrow> FormatInt n 10)"

definition content_range :: "int \<Rightarrow> int \<Rightarrow> int option \<Rightarrow> string" where
  "content_range a b t = ''bytes '' @ FormatInt a 10 @ ''-'' @ FormatInt b 10 @ ''/'' @ total_text t"

lemma hex_digit_digit: "n < 10 \<Longrightarrow> is_digit (hex_digit n)"
proof -
  have "list_all is_digit (map hex_digit [0, 1, 2, 3, 4, 5, 6, 7, 8, 9])" by (simp add: hex_digit_def is_digit_def byte_val_def)
  moreover assume "n < 10"
  then have "n \<in> set [0, 1, 2, 3, 4, 5, 6, 7, 8, 9]" by auto
  ultimately show ?thesis by (simp only: list_all_iff set_map) blast
qed

lemma nat_digits_digits: "list_all is_digit (nat_digits 10 n) \<and> nat_digits 10 n \<noteq> []"
proof (induction n rule: less_induct)
  case (less n)
  then show ?case by (subst (1 2) nat_digits.simps) (auto simp: hex_digit_digit)
qed

lemma FormatInt_digits: "0 \<le> i \<Longrightarrow> list_all is_digit (FormatInt i 10)" "0 \<le> i \<Longrightarrow> FormatInt i 10 \<noteq> []"
  using nat_digits_digits by (auto simp: FormatInt_def)

lemma no_digit: "\<not> is_digit (CHR ''-'')" "\<not> is_digit (CHR ''/'')" "\<not> is_digit (CHR ''*'')"
  by (simp_all add: is_digit_def byte_val_def)

lemma while_digits:
  assumes "list_all is_digit ds" "\<not> is_digit c"
  shows "takeWhile is_digit (ds @ c # t) = ds" "dropWhile is_digit (ds @ c # t) = c # t"
  using assms by (induction ds) auto

definition nonneg64 :: "int \<Rightarrow> bool" where
  "nonneg64 n \<longleftrightarrow> 0 \<le> n \<and> n \<le> max_int64"

definition total_ok :: "int option \<Rightarrow> bool" where
  "total_ok t \<longleftrightarrow> (case t of None \<Rightarrow> True | Some n \<Rightarrow> nonneg64 n)"

lemma range_int_FormatInt: "nonneg64 n \<Longrightarrow> range_int (FormatInt n 10) = n"
  using ParseInt_FormatInt [of 10 n] by (simp add: range_int_def nonneg64_def int64_defs)

lemma total_text:
  assumes "total_ok t"
  shows "match_total (total_text t)" "range_total (total_text t) = (case t of None \<Rightarrow> -1 | Some n \<Rightarrow> n)"
proof -
  have d: "FormatInt n 10 \<noteq> ''*''" if "0 \<le> n" for n
    using FormatInt_digits(1) [OF that] no_digit(3) by force
  show "match_total (total_text t)" "range_total (total_text t) = (case t of None \<Rightarrow> -1 | Some n \<Rightarrow> n)"
    using assms FormatInt_digits d
    by (auto simp: total_text_def match_total_def range_total_def range_int_FormatInt nonneg64_def total_ok_def split: option.splits)
qed

lemma content_range_parse:
  assumes "nonneg64 a" "nonneg64 b" "total_ok t"
  shows "reContentRangeProbe (content_range a b t) = None"
    "reContentRangeChunk (content_range a b t) = Some (FormatInt a 10, FormatInt b 10, total_text t)"
proof -
  have a: "list_all is_digit (FormatInt a 10)" "FormatInt a 10 \<noteq> []" and b: "list_all is_digit (FormatInt b 10)" "FormatInt b 10 \<noteq> []"
    using assms FormatInt_digits by (auto simp: nonneg64_def)
  obtain d ds where "FormatInt a 10 = d # ds" "d \<noteq> CHR ''*''" using a no_digit(3) by (cases "FormatInt a 10") auto
  then have "\<not> prefix ''bytes */'' (content_range a b t)" by (simp add: content_range_def)
  then show "reContentRangeProbe (content_range a b t) = None" by (simp add: reContentRangeProbe_def)
  show "reContentRangeChunk (content_range a b t) = Some (FormatInt a 10, FormatInt b 10, total_text t)"
    using a b while_digits [OF a(1) no_digit(1)] while_digits [OF b(1) no_digit(2)] total_text(1) [OF assms(3)]
    by (simp add: reContentRangeChunk_def content_range_def Let_def)
qed

text \<open>C29. The server reads the ranges that clients write: a chunk header with the positions of the first
  and last byte and the total, known or not, is recognised as a chunk and never as a probe, its numbers
  are those that were written, and a probe is recognised with its total.\<close>

theorem content_range_roundtrip:
  assumes "nonneg64 a" "nonneg64 b" "total_ok t"
  shows "reContentRangeProbe (content_range a b t) = None \<and>
    (\<exists>m1 m2 m3. reContentRangeChunk (content_range a b t) = Some (m1, m2, m3) \<and> range_int m1 = a \<and> range_int m2 = b \<and>
       range_total m3 = (case t of None \<Rightarrow> -1 | Some n \<Rightarrow> n)) \<and>
    (\<exists>m. reContentRangeProbe (''bytes */'' @ total_text t) = Some m \<and> range_total m = (case t of None \<Rightarrow> -1 | Some n \<Rightarrow> n))"
proof -
  have "reContentRangeProbe (''bytes */'' @ total_text t) = Some (total_text t)"
    using total_text(1) [OF assms(3)] by (simp add: reContentRangeProbe_def)
  then show ?thesis using assms total_text(2) content_range_parse [OF assms] by (simp add: range_int_FormatInt)
qed

theorem content_range_roundtrip_witness:
  "\<exists>m1 m2 m3. reContentRangeChunk ''bytes 3-7/*'' = Some (m1, m2, m3) \<and> range_int m1 = 3 \<and> range_int m2 = 7 \<and> range_total m3 = -1"
proof -
  have "content_range 3 7 None = ''bytes 3-7/*''" by code_simp
  with content_range_roundtrip [of 3 7 None] show ?thesis by (simp add: nonneg64_def max_int64_def total_ok_def)
qed

section \<open>Checksums\<close>

lemma b64_encode_Nil [simp]: "b64_encode s = [] \<longleftrightarrow> s = []"
  by (cases s rule: b64_encode.cases) (auto simp: Let_def)

text \<open>C28. The checksums the server reports are the ones it accepts: an upload that gives the \<^verbatim>\<open>md5Hash\<close>
  and \<^verbatim>\<open>crc32c\<close> of an object resource passes the comparison exactly when the uploaded content has the
  MD5 and the CRC32C of that object.\<close>

theorem resource_checksums_accepted:
  "checksum_refused (meta\<lparr>om_MD5Hash := ors_MD5Hash (toObjectResource i), om_CRC32C := ors_CRC32C (toObjectResource i)\<rparr>) md5 crc = None
   \<longleftrightarrow> oi_MD5 i \<in> {[], md5} \<and> oi_CRC32C i = crc"
proof -
  have "encodeCRC32C v \<noteq> []" for v
    by (metis b64_encode_Nil encodeCRC32C_def length_be32_put list.size(3) zero_neq_numeral)
  moreover have "b64_decode (encodeCRC32C v) = Some (be32_put v)" for v by (simp add: encodeCRC32C_def b64_decode_encode)
  ultimately show ?thesis
    by (auto simp: checksum_refused_def toObjectResource_def b64_decode_encode be32_get_put)
qed

section \<open>Uploads\<close>

lemma gcs_writeStoreError_status: "rs_Status (gcs_writeStoreError er) \<noteq> 200"
  by (cases er) (simp_all add: gcs_writeStoreError_def writeError_def writeJSON_def respond_def)

lemma writeError_status [simp]: "rs_Status (writeError k reason m) = k"
  by (simp add: writeError_def writeJSON_def respond_def)

lemma checksum_refused_status: "checksum_refused meta md5 crc = Some resp \<Longrightarrow> rs_Status resp = 400"
  by (auto simp: checksum_refused_def split: if_splits)

text \<open>The checksums a client may give, as a predicate of the content.\<close>

definition checksums_match :: "lib \<Rightarrow> objectMetadata \<Rightarrow> bytes \<Rightarrow> bool" where
  "checksums_match L meta c \<longleftrightarrow>
     (om_MD5Hash meta \<noteq> [] \<longrightarrow> b64_decode (om_MD5Hash meta) = Some (lib_md5 L c)) \<and>
     (om_CRC32C meta \<noteq> [] \<longrightarrow>
        (case b64_decode (om_CRC32C meta) of None \<Rightarrow> False | Some v \<Rightarrow> length v = 4 \<and> be32_get v = lib_crc32c L c))"

lemma checksum_refused_iff: "checksum_refused meta (lib_md5 L c) (lib_crc32c L c) = None \<longleftrightarrow> checksums_match L meta c"
  by (auto simp: checksum_refused_def checksums_match_def split: option.splits)

lemma writer_checksums:
  "writer_st w st \<Longrightarrow> \<not> bw_done w \<Longrightarrow> checksums L w = (hexEncode (lib_sha256 L (bw_sha w)), lib_md5 L (bw_sha w), lib_crc32c L (bw_sha w))"
  by (simp add: writer_st_def writer_ok_def checksums_def)

lemma commitUpload_result:
  assumes inv: "store_inv L (gs_store s)" "json_decodes L"
    and w: "writer_st bw (gs_store s)" "\<not> bw_done bw" "h_name (st_handles (gs_store s) ! bw_b bw) = bkt"
    and run: "commitUpload L e bw meta conds s = (resp, bw', s')"
    and lib: "json_roundtrip L (om_Metadata meta)" "collision_free L (files_at (gs_store s) bkt) (bw_sha bw)"
  shows "rs_Status resp = 200 \<Longrightarrow> om_Name meta \<noteq> [] \<and> checksums_match L meta (bw_sha bw) \<and>
      (\<exists>i. resp = writeJSON 200 (ObjectJSON (toObjectResource i)) \<and>
        spec_put L (env_now e) bkt (om_Name meta) (upload_opts meta conds) (bw_sha bw) (live_st L (gs_store s)) = (Inr i, live_st L (gs_store s')))"
    "rs_Status resp \<noteq> 200 \<Longrightarrow> live_st L (gs_store s') = live_st L (gs_store s)"
    "gs_sessions s' = gs_sessions s"
proof -
  note ck = writer_checksums [OF w(1,2), of L]
  obtain wa sta where a: "Abort e bw (gs_store s) = (wa, sta)" by force
  note ab = Abort_inv [OF inv(1) a]
  obtain rc wc stc where c: "Commit L e bw (om_Name meta) (upload_opts meta conds) (gs_store s) = (rc, wc, stc)" by (metis prod_cases3)
  have pr: "put_result L e bkt (om_Name meta) (upload_opts meta conds) (bw_sha bw) (gs_store s) i stc" if "rc = Inr i" for i
    by (rule Commit_result [OF inv w(1,3) _ _ c [unfolded that]]) (use lib in \<open>simp_all add: upload_opts_def\<close>)
  have er: "live_st L stc = live_st L (gs_store s)" if "rc = Inl er" for er using Commit_inv(2) [OF inv(1) w(1) inv(2) c] that by blast
  show "om_Name meta \<noteq> [] \<and> checksums_match L meta (bw_sha bw) \<and>
      (\<exists>i. resp = writeJSON 200 (ObjectJSON (toObjectResource i)) \<and>
        spec_put L (env_now e) bkt (om_Name meta) (upload_opts meta conds) (bw_sha bw) (live_st L (gs_store s)) = (Inr i, live_st L (gs_store s')))"
    if "rs_Status resp = 200"
    using run a c ck pr that checksum_refused_status gcs_writeStoreError_status
    by (fastforce simp: commitUpload_def Let_def put_result_spec checksum_refused_iff split: if_splits option.splits sum.splits)
  show "live_st L (gs_store s') = live_st L (gs_store s)" if "rs_Status resp \<noteq> 200"
    using run a c ck ab er that
    by (auto simp: commitUpload_def Let_def writeJSON_def respond_def split: if_splits option.splits sum.splits)
  show "gs_sessions s' = gs_sessions s"
    using run a c ck by (auto simp: commitUpload_def Let_def split: if_splits option.splits sum.splits)
qed

text \<open>C11. An upload in one request is checked before it becomes visible, whatever calls fail: when the
  server answers 200 the body was read to its end, its MD5 and CRC32C are the ones the client gave, and
  the object is exactly those bytes as the specification of a put says, with the resource in the answer;
  when it answers anything else, no object has changed.\<close>

theorem gcs_upload_enforced:
  assumes inv: "store_inv L (gs_store s)" "json_decodes L"
    and run: "gcs_putObject L es (ps, en) bkt meta conds s = (resp, s')"
    and lib: "json_roundtrip L (om_Metadata meta)" "collision_free L (files_at (gs_store s) bkt) (concat ps)"
  shows "if rs_Status resp = 200
    then en = EOF \<and> checksums_match L meta (concat ps) \<and>
      (\<exists>i. resp = writeJSON 200 (ObjectJSON (toObjectResource i)) \<and>
        spec_put L (env_now (es 2)) bkt (om_Name meta) (upload_opts meta conds) (concat ps) (live_st L (gs_store s)) =
          (Inr i, live_st L (gs_store s')))
    else live_st L (gs_store s') = live_st L (gs_store s)"
proof -
  obtain rn st1 where n: "NewBlobWriter (es 0) bkt (gs_store s) = (rn, st1)" by force
  note nb = NewBlobWriter_inv [OF inv(1) n]
  show ?thesis
  proof (cases rn)
    case (Inl er)
    with run n nb(1) gcs_writeStoreError_status show ?thesis by (auto simp: gcs_putObject_def gs_call_def)
  next
    case (Inr w)
    have w: "store_inv L st1" "live_st L st1 = live_st L (gs_store s)" "writer_st w st1" "handle_for bkt (bw_b w) st1" "bw_sha w = []" "\<not> bw_done w"
      using nb(1) nb(2) [OF Inr] by auto
    obtain m er w' st2 where c: "Copy (es 1) w ps en st1 = ((m, er), w', st2)" by (metis surj_pair)
    note cp = Copy_inv [OF w(1,3) c]
    show ?thesis
    proof (cases er)
      case (Some er')
      obtain wa sta where a: "Abort (es 2) w' st2 = (wa, sta)" by force
      with run n Inr c Some cp(1) w Abort_inv [OF _ a] show ?thesis by (auto simp: gcs_putObject_def gs_call_def)
    next
      case None
      let ?s2 = "s\<lparr>gs_store := st2\<rparr>"
      have w': "writer_st w' st2" "bw_b w' = bw_b w" "bw_sha w' = concat ps" "en = EOF" "\<not> bw_done w'" and b: "st_buckets st2 = st_buckets st1"
        using cp(2) [OF None] w by auto
      have st2: "store_inv L st2" "live_st L st2 = live_st L (gs_store s)" using cp(1) w by auto
      have h: "h_name (st_handles st2 ! bw_b w') = bkt"
        by (rule handle_forD(2) [OF st2(1)]) (use w(4) w'(2) b in \<open>simp add: handle_for_def\<close>)
      have f: "files_at st2 bkt = files_at (gs_store s) bkt"
        using NewBlobWriter_files [OF inv(1) n [unfolded Inr]] Copy_files [OF w(1,3) c] by simp
      obtain bw' where cu: "commitUpload L (es 2) w' meta conds ?s2 = (resp, bw', s')"
        using run n Inr c None by (auto simp: gcs_putObject_def gs_call_def split: prod.splits)
      have l: "store_inv L (gs_store ?s2)" "writer_st w' (gs_store ?s2)" "h_name (st_handles (gs_store ?s2) ! bw_b w') = bkt"
        "collision_free L (files_at (gs_store ?s2) bkt) (bw_sha w')" using st2 w' h f lib by simp_all
      note r = commitUpload_result [OF l(1) inv(2) l(2) w'(5) l(3) cu lib(1) l(4)]
      show ?thesis using r(1,2) st2 w' by auto
    qed
  qed
qed

definition demo_meta :: objectMetadata where
  "demo_meta = no_meta\<lparr>om_Name := ''g'', om_MD5Hash := b64_encode ''hello''\<rparr>"

text \<open>With the right MD5 the object appears, with another content it is refused.\<close>

theorem gcs_upload_enforced_witness:
  "(let s' = snd (gcs_putObject demo_lib (\<lambda>_. demo_env 300 [] [''t2'']) ([''hel'', ''lo''], EOF) ''abc'' demo_meta no_conditions (NewServer_gcs demo_store1))
    in \<exists>i. live_st demo_lib (gs_store s') ''abc'' ''g'' = Some (i, ''hello'')) \<and>
   (let s' = snd (gcs_putObject demo_lib (\<lambda>_. demo_env 300 [] [''t2'']) ([''bye''], EOF) ''abc'' demo_meta no_conditions (NewServer_gcs demo_store1))
    in live_st demo_lib (gs_store s') = live_st demo_lib demo_store1)"
proof -
  let ?put = "\<lambda>ps. gcs_putObject demo_lib (\<lambda>_. demo_env 300 [] [''t2'']) (ps, EOF) ''abc'' demo_meta no_conditions (NewServer_gcs demo_store1)"
  have m: "json_roundtrip demo_lib (om_Metadata demo_meta)" "om_Name demo_meta = ''g''" by (simp_all add: demo_meta_def no_meta_def)
  have g: "gs_store (NewServer_gcs demo_store1) = demo_store1" by (simp add: NewServer_gcs_def)
  have st: "rs_Status (fst (?put [''hel'', ''lo''])) = 200" "rs_Status (fst (?put [''bye''])) = 400" by code_simp+
  note u = gcs_upload_enforced [of demo_lib "NewServer_gcs demo_store1", unfolded g, OF demo_store1_inv demo_lib_ok(1) _ m(1) demo_collision_free]
  obtain i where "spec_put demo_lib 300 ''abc'' ''g'' (upload_opts demo_meta no_conditions) ''hello'' (live_st demo_lib demo_store1) =
      (Inr i, live_st demo_lib (gs_store (snd (?put [''hel'', ''lo'']))))"
    using u [OF prod.collapse [symmetric], of "\<lambda>_. demo_env 300 [] [''t2'']" "[''hel'', ''lo'']" EOF "''abc''" no_conditions] st(1) m(2) by auto
  from spec_put_view [OF this] have "\<exists>i. live_st demo_lib (gs_store (snd (?put [''hel'', ''lo'']))) ''abc'' ''g'' = Some (i, ''hello'')" by simp
  moreover have "live_st demo_lib (gs_store (snd (?put [''bye'']))) = live_st demo_lib demo_store1"
    using u [OF prod.collapse [symmetric], of "\<lambda>_. demo_env 300 [] [''t2'']" "[''bye'']" EOF "''abc''" no_conditions] st(2) by simp
  ultimately show ?thesis by (simp add: Let_def)
qed

section \<open>Reads\<close>

text \<open>The conditions of a read are those of a write on an object that exists.\<close>

lemma checkReadConditions_iff: "checkReadConditions conds i = None \<longleftrightarrow> conditions_hold conds (Some i)"
  by (auto simp: checkReadConditions_def conditions_hold_def)

lemma checkReadConditions_error: "checkReadConditions conds i \<in> {None, Some ErrPreconditionFailed}"
  by (simp add: checkReadConditions_def)

end
