(* ===== verification/Gcs_Resumable_Props.thy ===== *)
theory Gcs_Resumable_Props
  imports Gcs_Props
begin

text \<open>
  The properties of resumable uploads of the GCS server over the requests a client sends.
\<close>

section \<open>A session and its file\<close>

definition session_at :: "lib \<Rightarrow> string \<Rightarrow> gcs_server \<Rightarrow> uploadSession \<Rightarrow> bytes \<Rightarrow> bool" where
  "session_at L uid s sess c \<longleftrightarrow>
     store_inv L (gs_store s) \<and> tsorted (gs_sessions s) \<and> map_of (gs_sessions s) uid = Some sess \<and>
     session_ok (gs_store s) sess \<and> handle_for (us_bucket sess) (bw_b (us_bw sess)) (gs_store s) \<and>
     tmp_at (gs_store s) (us_bucket sess) (bw_tmp (us_bw sess)) \<noteq> None \<and> bw_sha (us_bw sess) = c"

text \<open>What stays the same while a session receives bytes.\<close>

definition same_upload :: "lib \<Rightarrow> gcs_server \<Rightarrow> uploadSession \<Rightarrow> gcs_server \<Rightarrow> uploadSession \<Rightarrow> bool" where
  "same_upload L s sess s' sess' \<longleftrightarrow>
     live_st L (gs_store s') = live_st L (gs_store s) \<and> files_at (gs_store s') = files_at (gs_store s) \<and>
     us_bucket sess' = us_bucket sess \<and> us_meta sess' = us_meta sess \<and> us_conds sess' = us_conds sess"

definition body_len :: "request \<Rightarrow> int" where
  "body_len r = int (length (concat (fst (rq_Body r))))"

lemma session_copy_at:
  assumes at: "session_at L uid s sess c" and e: "fault_free e" and r: "snd (rq_Body r) = EOF"
  shows "\<exists>w' st'. session_copy e r sess (gs_store s) = ((length (concat (fst (rq_Body r))), None), sess\<lparr>us_bw := w'\<rparr>, st') \<and>
    (\<forall>off. session_at L uid (set_session uid (sess\<lparr>us_bw := w', us_offset := off\<rparr>) (s\<lparr>gs_store := st'\<rparr>))
       (sess\<lparr>us_bw := w', us_offset := off\<rparr>) (c @ concat (fst (rq_Body r)))) \<and>
    live_st L st' = live_st L (gs_store s) \<and> files_at st' = files_at (gs_store s)"
proof -
  let ?ps = "fst (rq_Body r)" and ?w = "us_bw sess"
  have i: "store_inv L (gs_store s)" "writer_st ?w (gs_store s)" "\<not> bw_done ?w" "h_name (st_handles (gs_store s) ! bw_b ?w) = us_bucket sess"
    "tmp_at (gs_store s) (h_name (st_handles (gs_store s) ! bw_b ?w)) (bw_tmp ?w) \<noteq> None"
    using at by (simp_all add: session_at_def session_ok_def)
  obtain w' st' where c: "Copy e ?w ?ps EOF (gs_store s) = ((length (concat ?ps), None), w', st')" "store_inv L st'"
      "live_st L st' = live_st L (gs_store s)" "writer_st w' st'" "\<not> bw_done w'" "bw_b w' = bw_b ?w" "bw_tmp w' = bw_tmp ?w"
      "bw_sha w' = bw_sha ?w @ concat ?ps" "st_buckets st' = st_buckets (gs_store s)" "st_handles st' = st_handles (gs_store s)"
      "tmp_at st' (us_bucket sess) (bw_tmp ?w) \<noteq> None"
    using Copy_total [OF i(1-3,5) e, of ?ps] i(4) by auto
  have "files_at st' = files_at (gs_store s)" using Copy_files [OF i(1,2) c(1)] by blast
  with c at i(4) r show ?thesis
    by (intro exI [of _ w'] exI [of _ st'])
       (auto simp: session_copy_def session_at_def session_ok_def set_session_def tbl_inv tbl_simps handle_for_def)
qed

lemma tdel_tput: "tdel k (tput k v t) = tdel k t"
  by (induction t) (auto simp: tdel_def)

section \<open>Chunks\<close>

text \<open>A request that announces the bytes from \<open>off\<close> on.\<close>

definition announces :: "request \<Rightarrow> int \<Rightarrow> int \<Rightarrow> int option \<Rightarrow> bool" where
  "announces r off n tot \<longleftrightarrow>
     rq_Method r \<in> {''PUT'', ''POST''} \<and> snd (rq_Body r) = EOF \<and>
     header_get r ''Content-Range'' = content_range off (off + n - 1) tot \<and>
     0 \<le> off \<and> 0 < n \<and> off + n \<le> max_int64 \<and> total_ok tot"

lemma receiveChunk_announced:
  assumes a: "announces r off n tot" and off: "us_offset sess = off"
    and c: "session_copy e r sess st = ((m, None), sess', st')"
  shows "receiveChunk e r sess st =
    (if int m \<noteq> n
     then (Inl (writeError 400 ''invalid'' (Text_int2 ''chunk body length '' (int m) '' does not match Content-Range '' (header_get r ''Content-Range''))), sess', st')
     else (Inr (case tot of None \<Rightarrow> -1 | Some t \<Rightarrow> t), sess'\<lparr>us_offset := wrap64 (us_offset sess' + int m)\<rparr>, st'))"
proof -
  have nn: "nonneg64 off" "nonneg64 (off + n - 1)" "total_ok tot" using a by (auto simp: announces_def nonneg64_def)
  have h: "header_get r ''Content-Range'' = content_range off (off + n - 1) tot" using a by (simp add: announces_def)
  have "int64 (n - 1)" "int64 n" using a by (auto simp: announces_def int64_defs)
  then have "wrap64 (wrap64 (off + n - 1 - off) + 1) = n" by simp
  with c off show ?thesis
    unfolding receiveChunk_def Let_def h
    by (simp add: content_range_parse [OF nn] range_int_FormatInt nn(1,2) total_text(2) [OF nn(3)])
qed

definition is_chunk :: "request \<Rightarrow> int \<Rightarrow> int option \<Rightarrow> bool" where
  "is_chunk r off tot \<longleftrightarrow> announces r off (body_len r) tot"

text \<open>A chunk that continues the session, and is not the last one.\<close>

lemma chunk_continues:
  assumes at: "session_at L uid s sess c" "us_offset sess = int (length c)" and e: "fault_free (es 0)"
    and r: "is_chunk r (int (length c)) tot" "tot \<noteq> Some (int (length c) + body_len r)"
  shows "\<exists>sess' s'. handleResumableChunk L es r uid s = (writeResumeIncomplete r sess', s') \<and>
    session_at L uid s' sess' (c @ concat (fst (rq_Body r))) \<and> us_offset sess' = int (length c) + body_len r \<and> same_upload L s sess s' sess'"
proof -
  have a: "announces r (int (length c)) (body_len r) tot" using r(1) by (simp add: is_chunk_def)
  obtain w' st' where c: "session_copy (es 0) r sess (gs_store s) = ((length (concat (fst (rq_Body r))), None), sess\<lparr>us_bw := w'\<rparr>, st')"
      "\<And>off. session_at L uid (set_session uid (sess\<lparr>us_bw := w', us_offset := off\<rparr>) (s\<lparr>gs_store := st'\<rparr>))
       (sess\<lparr>us_bw := w', us_offset := off\<rparr>) (c @ concat (fst (rq_Body r)))"
      "live_st L st' = live_st L (gs_store s)" "files_at st' = files_at (gs_store s)"
    using session_copy_at [OF at(1) e, of r] a by (auto simp: announces_def)
  let ?off = "int (length c) + body_len r"
  let ?sess = "sess\<lparr>us_bw := w', us_offset := ?off\<rparr>"
  have w: "wrap64 ?off = ?off" using a by (intro wrap64_id) (auto simp: announces_def int64_defs)
  have rc: "receiveChunk (es 0) r sess (gs_store s) = (Inr (case tot of None \<Rightarrow> -1 | Some t \<Rightarrow> t), ?sess, st')"
    using receiveChunk_announced [OF a at(2) c(1)] w at(2) by (simp add: body_len_def)
  have m: "rq_Method r = ''PUT'' \<or> rq_Method r = ''POST''" "\<not> us_done sess" "map_of (gs_sessions s) uid = Some sess"
    using a at(1) by (auto simp: announces_def session_at_def session_ok_def)
  have "handleResumableChunk L es r uid s = (writeResumeIncomplete r ?sess, set_session uid ?sess (s\<lparr>gs_store := st'\<rparr>))"
    using m rc r(2) by (auto simp: handleResumableChunk_def split: option.splits)
  with c(2) [of ?off] c(3,4) show ?thesis
    by (intro exI [of _ ?sess] exI [of _ "set_session uid ?sess (s\<lparr>gs_store := st'\<rparr>)"]) (simp add: same_upload_def set_session_def)
qed

text \<open>The last chunk commits what the session's file holds.\<close>

definition commit_ready :: "lib \<Rightarrow> gcs_server \<Rightarrow> uploadSession \<Rightarrow> bytes \<Rightarrow> bool" where
  "commit_ready L s sess c \<longleftrightarrow>
     validObjectName (om_Name (us_meta sess)) \<and> checksums_match L (us_meta sess) c \<and>
     conditions_hold (us_conds sess) (map_option fst (live_st L (gs_store s) (us_bucket sess) (om_Name (us_meta sess)))) \<and>
     json_roundtrip L (om_Metadata (us_meta sess)) \<and> collision_free L (files_at (gs_store s) (us_bucket sess)) c"

lemma commit_ready_same: "same_upload L s sess s' sess' \<Longrightarrow> commit_ready L s sess c \<Longrightarrow> commit_ready L s' sess' c"
  by (simp add: commit_ready_def same_upload_def)

lemma commitUpload_total:
  assumes at: "session_at L uid s sess c" and json: "json_decodes L" and ready: "commit_ready L s sess c" and e: "fault_free e"
  shows "\<exists>i bw' s'. commitUpload L e (us_bw sess) (us_meta sess) (us_conds sess) (del_session uid s) =
      (writeJSON 200 (ObjectJSON (toObjectResource i)), bw', s') \<and>
    spec_put L (env_now e) (us_bucket sess) (om_Name (us_meta sess)) (upload_opts (us_meta sess) (us_conds sess)) c (live_st L (gs_store s)) =
      (Inr i, live_st L (gs_store s')) \<and> map_of (gs_sessions s') uid = None"
proof -
  let ?w = "us_bw sess" and ?s = "del_session uid s"
  have g: "gs_store ?s = gs_store s" by (simp add: del_session_def)
  have i: "store_inv L (gs_store ?s)" "writer_st ?w (gs_store ?s)" "\<not> bw_done ?w" "h_name (st_handles (gs_store ?s) ! bw_b ?w) = us_bucket sess"
    "handle_for (us_bucket sess) (bw_b ?w) (gs_store s)" "tmp_at (gs_store s) (us_bucket sess) (bw_tmp ?w) \<noteq> None" "bw_sha ?w = c"
    using at by (simp_all add: session_at_def session_ok_def g)
  obtain j w2 st2 where cm: "Commit L e ?w (om_Name (us_meta sess)) (upload_opts (us_meta sess) (us_conds sess)) (gs_store s) = (Inr j, w2, st2)"
    using Commit_total [OF i(1) [unfolded g] e i(5,3,6), of "om_Name (us_meta sess)" "upload_opts (us_meta sess) (us_conds sess)"] ready
    by (auto simp: commit_ready_def upload_opts_def)
  have "om_Name (us_meta sess) \<noteq> []" "checksum_refused (us_meta sess) (lib_md5 L c) (lib_crc32c L c) = None"
    using ready by (auto simp: commit_ready_def checksum_refused_iff validObjectName_def)
  then have run: "commitUpload L e ?w (us_meta sess) (us_conds sess) ?s = (writeJSON 200 (ObjectJSON (toObjectResource j)), w2, ?s\<lparr>gs_store := st2\<rparr>)"
    using cm writer_checksums [OF i(2,3), of L] i(7) by (simp add: commitUpload_def g)
  have l: "json_roundtrip L (om_Metadata (us_meta sess))" "collision_free L (files_at (gs_store ?s) (us_bucket sess)) (bw_sha ?w)"
    using ready i(7) by (simp_all add: commit_ready_def g)
  note r = commitUpload_result [OF i(1) json i(2,3,4) run l]
  have "rs_Status (writeJSON 200 (ObjectJSON (toObjectResource j))) = 200" by (simp add: writeJSON_def respond_def)
  from r(1) [OF this] obtain k where k: "writeJSON 200 (ObjectJSON (toObjectResource j)) = writeJSON 200 (ObjectJSON (toObjectResource k))"
      "spec_put L (env_now e) (us_bucket sess) (om_Name (us_meta sess)) (upload_opts (us_meta sess) (us_conds sess)) c (live_st L (gs_store s)) =
      (Inr k, live_st L st2)" by (auto simp: g i(7))
  have "map_of (gs_sessions (?s\<lparr>gs_store := st2\<rparr>)) uid = None" using at by (simp add: del_session_def session_at_def tbl_simps)
  with run k show ?thesis by (intro exI [of _ k] exI [of _ w2] exI [of _ "?s\<lparr>gs_store := st2\<rparr>"]) simp
qed

lemma chunk_finishes:
  assumes at: "session_at L uid s sess c" "us_offset sess = off" and e: "fault_free (es 0)" "fault_free (es 1)" and json: "json_decodes L"
    and r: "is_chunk r off (Some (off + body_len r))"
    and ready: "commit_ready L s sess (c @ concat (fst (rq_Body r)))"
  shows "\<exists>i s'. handleResumableChunk L es r uid s = (writeJSON 200 (ObjectJSON (toObjectResource i)), s') \<and>
    spec_put L (env_now (es 1)) (us_bucket sess) (om_Name (us_meta sess)) (upload_opts (us_meta sess) (us_conds sess))
      (c @ concat (fst (rq_Body r))) (live_st L (gs_store s)) = (Inr i, live_st L (gs_store s')) \<and> map_of (gs_sessions s') uid = None"
proof -
  let ?off = "off + body_len r" and ?c = "c @ concat (fst (rq_Body r))"
  have a: "announces r off (body_len r) (Some ?off)" using r by (simp add: is_chunk_def)
  obtain w' st' where c: "session_copy (es 0) r sess (gs_store s) = ((length (concat (fst (rq_Body r))), None), sess\<lparr>us_bw := w'\<rparr>, st')"
      "\<And>off. session_at L uid (set_session uid (sess\<lparr>us_bw := w', us_offset := off\<rparr>) (s\<lparr>gs_store := st'\<rparr>))
       (sess\<lparr>us_bw := w', us_offset := off\<rparr>) ?c"
      "live_st L st' = live_st L (gs_store s)" "files_at st' = files_at (gs_store s)"
    using session_copy_at [OF at(1) e(1), of r] a by (auto simp: announces_def)
  let ?sess = "sess\<lparr>us_bw := w', us_offset := ?off\<rparr>" and ?s1 = "s\<lparr>gs_store := st'\<rparr>"
  have w: "wrap64 ?off = ?off" using a by (intro wrap64_id) (auto simp: announces_def int64_defs)
  have rc: "receiveChunk (es 0) r sess (gs_store s) = (Inr ?off, ?sess, st')"
    using receiveChunk_announced [OF a at(2) c(1)] w at(2) by (simp add: body_len_def)
  have m: "rq_Method r = ''PUT'' \<or> rq_Method r = ''POST''" "\<not> us_done sess" "map_of (gs_sessions s) uid = Some sess" "tsorted (gs_sessions s)" "0 \<le> ?off"
    using a at(1) by (auto simp: announces_def session_at_def session_ok_def)
  have "commit_ready L (set_session uid ?sess ?s1) ?sess ?c"
    by (rule commit_ready_same [OF _ ready]) (simp add: same_upload_def set_session_def c)
  moreover have d: "del_session uid (set_session uid ?sess ?s1) = del_session uid ?s1"
    using m(4) by (simp add: del_session_def set_session_def tdel_tput)
  ultimately obtain i bw' s' where cu: "commitUpload L (es 1) w' (us_meta sess) (us_conds sess) (del_session uid ?s1) =
      (writeJSON 200 (ObjectJSON (toObjectResource i)), bw', s')"
    "spec_put L (env_now (es 1)) (us_bucket sess) (om_Name (us_meta sess)) (upload_opts (us_meta sess) (us_conds sess)) ?c (live_st L st') =
      (Inr i, live_st L (gs_store s'))" "map_of (gs_sessions s') uid = None"
    using commitUpload_total [OF c(2) [of ?off] json _ e(2)] by (auto simp: set_session_def)
  have "handleResumableChunk L es r uid s = (writeJSON 200 (ObjectJSON (toObjectResource i)), s')"
    using m rc cu(1) by (auto simp: handleResumableChunk_def)
  with cu(2,3) c(3) show ?thesis by auto
qed

section \<open>Whole uploads\<close>

lemma start_session:
  assumes inv: "store_inv L (gs_store s)" "tsorted (gs_sessions s)" and e: "fault_free (es 0)"
    and b: "bucket_exists (gs_store s) bkt" "tmp_ready (es 0) (gs_store s) bkt" and meta: "start_meta M r = Inr meta"
  shows "\<exists>sess s'. startResumableUpload M es ib r bkt conds s =
      (respond 200 [(''Location'', session_location r (hexEncode ib)), (canonicalKey ''X-GUploader-UploadID'', hexEncode ib)] No_json, s') \<and>
    session_at L (hexEncode ib) s' sess [] \<and> us_offset sess = 0 \<and> us_bucket sess = bkt \<and> us_meta sess = meta \<and> us_conds sess = conds \<and>
    live_st L (gs_store s') = live_st L (gs_store s) \<and> files_at (gs_store s') = files_at (gs_store s)"
proof -
  obtain w st1 where n: "NewBlobWriter (es 0) bkt (gs_store s) = (Inr w, st1)" and wt: "map_of (dir_tmp (view st1 (bw_b w))) (bw_tmp w) \<noteq> None"
    using NewBlobWriter_total [OF inv(1) e b] by blast
  note nb = NewBlobWriter_inv [OF inv(1) n]
  have w: "store_inv L st1" "live_st L st1 = live_st L (gs_store s)" "writer_st w st1" "handle_for bkt (bw_b w) st1" "bw_sha w = []" "\<not> bw_done w"
    using nb(1) nb(2) [OF refl] by auto
  have h: "h_name (st_handles st1 ! bw_b w) = bkt" by (rule handle_forD(2) [OF w(1,4)])
  have f: "files_at st1 = files_at (gs_store s)" using NewBlobWriter_files [OF inv(1) n] by blast
  let ?sess = "\<lparr>us_bucket = bkt, us_meta = meta, us_conds = conds, us_bw = w, us_offset = 0, us_done = False\<rparr>"
  let ?s = "set_session (hexEncode ib) ?sess (s\<lparr>gs_store := st1\<rparr>)"
  have "session_at L (hexEncode ib) ?s ?sess []"
    using w h wt inv(2) by (simp add: session_at_def session_ok_def set_session_def tbl_inv tbl_simps tmp_at_view)
  moreover have "startResumableUpload M es ib r bkt conds s =
      (respond 200 [(''Location'', session_location r (hexEncode ib)), (canonicalKey ''X-GUploader-UploadID'', hexEncode ib)] No_json, ?s)"
    using n meta by (simp add: startResumableUpload_def gs_call_def Let_def)
  ultimately show ?thesis using w(2) f by (intro exI [of _ ?sess] exI [of _ ?s]) (simp add: set_session_def)
qed

text \<open>A client that sends one request after the other.\<close>

fun send_all :: "lib \<Rightarrow> (nat \<Rightarrow> nat \<Rightarrow> env) \<Rightarrow> nat \<Rightarrow> string \<Rightarrow> request list \<Rightarrow> gcs_server \<Rightarrow> gcs_response list \<times> gcs_server" where
  "send_all L es k uid [] s = ([], s)"
| "send_all L es k uid (r # rs) s =
     (case handleResumableChunk L (es k) r uid s of
        (resp, s1) \<Rightarrow> (case send_all L es (Suc k) uid rs s1 of (resps, s2) \<Rightarrow> (resp # resps, s2)))"

text \<open>The chunks of a content of \<open>tot\<close> bytes from \<open>off\<close> on; before the last one the total may be left open.\<close>

fun is_upload :: "int \<Rightarrow> int \<Rightarrow> request list \<Rightarrow> bool" where
  "is_upload off tot [] \<longleftrightarrow> False"
| "is_upload off tot [r] \<longleftrightarrow> is_chunk r off (Some tot) \<and> off + body_len r = tot"
| "is_upload off tot (r # r' # rs) \<longleftrightarrow>
     (is_chunk r off None \<or> is_chunk r off (Some tot)) \<and> is_upload (off + body_len r) tot (r' # rs)"

lemma is_upload_longer: "is_upload off tot rs \<Longrightarrow> off < tot"
  by (induction off tot rs rule: is_upload.induct) (auto simp: is_chunk_def announces_def)

definition bodies :: "request list \<Rightarrow> bytes" where
  "bodies rs = concat (map (\<lambda>r. concat (fst (rq_Body r))) rs)"

lemma send_all_ok:
  assumes "session_at L uid s sess c" "us_offset sess = int (length c)" "is_upload (int (length c)) tot rs"
    "commit_ready L s sess (c @ bodies rs)" and e: "\<forall>k i. fault_free (es k i)" and json: "json_decodes L"
  shows "\<exists>i resps s'. send_all L es k uid rs s = (resps @ [writeJSON 200 (ObjectJSON (toObjectResource i))], s') \<and>
    spec_put L (env_now (es (k + length rs - 1) 1)) (us_bucket sess) (om_Name (us_meta sess)) (upload_opts (us_meta sess) (us_conds sess))
      (c @ bodies rs) (live_st L (gs_store s)) = (Inr i, live_st L (gs_store s')) \<and> map_of (gs_sessions s') uid = None \<and>
    list_all (\<lambda>resp. \<exists>r sess. resp = writeResumeIncomplete r sess) resps"
  using assms(1-4)
proof (induction rs arbitrary: k s sess c)
  case (Cons r rs)
  show ?case
  proof (cases rs)
    case Nil
    with Cons.prems have "is_chunk r (int (length c)) (Some (int (length c) + body_len r))" "commit_ready L s sess (c @ concat (fst (rq_Body r)))"
      by (simp_all add: bodies_def)
    from chunk_finishes [OF Cons.prems(1,2) _ _ json this, of "es k"] e Nil show ?thesis by (auto simp: bodies_def)
  next
    case (Cons r' rs')
    let ?b = "concat (fst (rq_Body r))"
    have len: "int (length (c @ ?b)) = int (length c) + body_len r" by (simp add: body_len_def)
    have u: "is_upload (int (length (c @ ?b))) tot rs" using Cons.prems(3) Cons unfolding len by simp
    obtain tot' where t: "is_chunk r (int (length c)) tot'" "tot' \<noteq> Some (int (length c) + body_len r)"
      using Cons.prems(3) Cons is_upload_longer [OF u] len by auto
    obtain sess' s' where c: "handleResumableChunk L (es k) r uid s = (writeResumeIncomplete r sess', s')"
        "session_at L uid s' sess' (c @ ?b)" "us_offset sess' = int (length (c @ ?b))" "same_upload L s sess s' sess'"
      using chunk_continues [OF Cons.prems(1,2) _ t, of "es k"] e len by auto
    have "commit_ready L s' sess' ((c @ ?b) @ bodies rs)" using commit_ready_same [OF c(4) Cons.prems(4)] by (simp add: bodies_def)
    from Cons.IH [OF c(2,3) u this, of "Suc k"] c(1,4) show ?thesis
      by (fastforce simp: same_upload_def bodies_def)
  qed
qed simp

text \<open>C10. A resumable upload stores what was sent: when no call fails, after a session was started in a
  bucket, sending the content in chunks of any sizes, each announced with its range, is answered with
  resume-incomplete for every chunk but the last and then with 200 and the resource of the new object;
  the object is the concatenation of the chunks as the specification of a put says, and the session is
  gone.\<close>

theorem resumable_assembles:
  assumes inv: "store_inv L (gs_store s0)" "tsorted (gs_sessions s0)" "json_decodes L"
    and e: "\<forall>i. fault_free (es0 i)" "\<forall>k i. fault_free (es k i)"
    and start: "startResumableUpload M es0 ib r0 bkt conds s0 = (resp0, s)" "bucket_exists (gs_store s0) bkt" "tmp_ready (es0 0) (gs_store s0) bkt"
      "start_meta M r0 = Inr meta"
    and upload: "is_upload 0 tot rs" "validObjectName (om_Name meta)" "checksums_match L meta (bodies rs)"
      "conditions_hold conds (map_option fst (live_st L (gs_store s0) bkt (om_Name meta)))"
    and lib: "json_roundtrip L (om_Metadata meta)" "collision_free L (files_at (gs_store s0) bkt) (bodies rs)"
  shows "rs_Status resp0 = 200 \<and>
    (\<exists>i resps s'. send_all L es 0 (hexEncode ib) rs s = (resps @ [writeJSON 200 (ObjectJSON (toObjectResource i))], s') \<and>
      list_all (\<lambda>resp. \<exists>r sess. resp = writeResumeIncomplete r sess) resps \<and>
      spec_put L (env_now (es (length rs - 1) 1)) bkt (om_Name meta) (upload_opts meta conds) (bodies rs) (live_st L (gs_store s0)) =
        (Inr i, live_st L (gs_store s')) \<and>
      map_of (gs_sessions s') (hexEncode ib) = None)"
proof -
  obtain sess where ss: "resp0 = respond 200 [(''Location'', session_location r0 (hexEncode ib)), (canonicalKey ''X-GUploader-UploadID'', hexEncode ib)] No_json"
      "session_at L (hexEncode ib) s sess []" "us_offset sess = 0" "us_bucket sess = bkt" "us_meta sess = meta" "us_conds sess = conds"
      "live_st L (gs_store s) = live_st L (gs_store s0)" "files_at (gs_store s) = files_at (gs_store s0)"
    using start_session [where es = es0, OF inv(1,2) spec [OF e(1), of 0] start(2-4), of ib conds] start(1) by auto
  have "commit_ready L s sess (bodies rs)" using upload lib ss by (simp add: commit_ready_def)
  with send_all_ok [OF ss(2) _ _ _ e(2) inv(3), of tot rs 0] ss upload(1) show ?thesis by (fastforce simp: respond_def)
qed

definition demo_start :: request where
  "demo_start = demo_request ''POST'' ''/upload/storage/v1/b/abc/o'' [(''uploadType'', ''resumable''), (''name'', ''r'')] [] []"

definition demo_chunk :: "string \<Rightarrow> bytes list \<Rightarrow> request" where
  "demo_chunk g ps = demo_request ''PUT'' ''/upload/storage/v1/b/abc/o'' [(''upload_id'', ''42'')] [(''Content-Range'', [g])] ps"

definition demo_resumable :: gcs_server where
  "demo_resumable = snd (startResumableUpload demo_mime (\<lambda>_. demo_env 300 [] [''t2'']) ''B'' demo_start ''abc'' no_conditions (NewServer_gcs demo_store1))"

lemma demo_start_meta: "start_meta demo_mime demo_start = Inr (no_meta\<lparr>om_Name := ''r''\<rparr>)"
  by code_simp

lemma demo_is_chunk:
  "is_chunk (demo_chunk ''bytes 0-2/*'' [''he'', ''l'']) 0 None" "is_chunk (demo_chunk ''bytes 3-4/5'' [''lo'']) 3 (Some 5)"
  "is_chunk (demo_chunk ''bytes 0-4/5'' [''hello'']) 0 (Some 5)" "announces (demo_chunk ''bytes 0-4/5'' [''he'']) 0 5 (Some 5)"
  by code_simp+

lemma demo_body:
  "body_len (demo_chunk g ps) = int (length (concat ps))" "bodies [] = []" "bodies (demo_chunk g ps # rs) = concat ps @ bodies rs"
  "fst (rq_Body (demo_chunk g ps)) = ps"
  by (simp_all add: body_len_def bodies_def demo_chunk_def demo_request_def)

lemma demo_no_checksums: "checksums_match L (no_meta\<lparr>om_Name := n\<rparr>) c" "conditions_hold no_conditions ob"
  by (simp_all add: checksums_match_def no_meta_def conditions_hold_def no_conditions_def)

theorem resumable_assembles_witness:
  "\<exists>i. live_st demo_lib (gs_store (snd (send_all demo_lib (\<lambda>_ _. demo_env 301 [] []) 0 ''42''
      [demo_chunk ''bytes 0-2/*'' [''he'', ''l''], demo_chunk ''bytes 3-4/5'' [''lo'']] demo_resumable))) ''abc'' ''r'' = Some (i, ''hello'')"
proof -
  let ?start = "startResumableUpload demo_mime (\<lambda>_. demo_env 300 [] [''t2'']) ''B'' demo_start ''abc'' no_conditions (NewServer_gcs demo_store1)"
  let ?rs = "[demo_chunk ''bytes 0-2/*'' [''he'', ''l''], demo_chunk ''bytes 3-4/5'' [''lo'']]" and ?meta = "no_meta\<lparr>om_Name := ''r''\<rparr>"
  have c: "?start = (fst ?start, demo_resumable)" by (simp add: demo_resumable_def)
  have h: "hexEncode ''B'' = ''42''" "validObjectName ''r''" by code_simp+
  have b: "bodies ?rs = ''hello''" "om_Name ?meta = ''r''" "om_Metadata ?meta = []" by (simp_all add: demo_body no_meta_def)
  have u: "is_upload 0 5 ?rs" using demo_is_chunk by (simp add: demo_body)
  have e: "\<forall>i::nat. fault_free ((\<lambda>_. demo_env 300 [] [''t2'']) i)" "\<forall>(k::nat) (i::nat). fault_free ((\<lambda>_ _. demo_env 301 [] []) k i)" by simp_all
  have s: "store_inv demo_lib (gs_store (NewServer_gcs demo_store1))" "tsorted (gs_sessions (NewServer_gcs demo_store1))"
    "bucket_exists (gs_store (NewServer_gcs demo_store1)) ''abc''" "tmp_ready (demo_env 300 [] [''t2'']) (gs_store (NewServer_gcs demo_store1)) ''abc''"
    using demo_store1_inv demo_bucket(2) demo_tmp(2) by (simp_all add: NewServer_gcs_def tbl_inv)
  have v: "validObjectName (om_Name ?meta)" "json_roundtrip demo_lib (om_Metadata ?meta)" using h(2) by (simp_all add: b)
  obtain i resps s' where "send_all demo_lib (\<lambda>_ _. demo_env 301 [] []) 0 ''42'' ?rs demo_resumable = (resps @ [writeJSON 200 (ObjectJSON (toObjectResource i))], s')"
     "spec_put demo_lib 301 ''abc'' ''r'' (upload_opts ?meta no_conditions) ''hello'' (live_st demo_lib demo_store1) = (Inr i, live_st demo_lib (gs_store s'))"
    using resumable_assembles [where ?es0.0 = "\<lambda>_. demo_env 300 [] [''t2'']" and es = "\<lambda>_ _. demo_env 301 [] []",
        OF s(1,2) demo_lib_ok(1) e c s(3,4) demo_start_meta u v(1) demo_no_checksums(1,2) v(2) demo_collision_free]
    unfolding h(1) b by (auto simp: NewServer_gcs_def)
  with spec_put_view [OF this(2)] show ?thesis by (intro exI [of _ i]) simp
qed

section \<open>A chunk that is cut\<close>

text \<open>C37. A retry after a cut chunk stores bytes twice: when a chunk arrives with fewer or more bytes than
  it announced, the server answers 400 and does not advance the session, but the bytes stay in the
  session's file; when the client sends the chunk again as a whole, the upload is finished and the
  object has the bytes of both attempts, more than the announced total.\<close>

theorem resumable_retry_duplicates:
  assumes at: "session_at L uid s sess c" "us_offset sess = int (length c)" and json: "json_decodes L"
    and e: "fault_free (es1 0)" "fault_free (es2 0)" "fault_free (es2 1)"
    and cut: "announces r1 (int (length c)) n (Some (int (length c) + n))" "0 < body_len r1" "body_len r1 \<noteq> n"
    and retry: "is_chunk r2 (int (length c)) (Some (int (length c) + n))" "body_len r2 = n"
    and ready: "commit_ready L s sess (c @ bodies [r1, r2])"
  shows "\<exists>resp1 s1 i s2. handleResumableChunk L es1 r1 uid s = (resp1, s1) \<and> rs_Status resp1 = 400 \<and>
    handleResumableChunk L es2 r2 uid s1 = (writeJSON 200 (ObjectJSON (toObjectResource i)), s2) \<and>
    live_st L (gs_store s2) (us_bucket sess) (om_Name (us_meta sess)) = Some (i, c @ bodies [r1, r2]) \<and>
    int (length (c @ bodies [r1, r2])) \<noteq> int (length c) + n"
proof -
  let ?b = "concat (fst (rq_Body r1))"
  obtain w' st' where c: "session_copy (es1 0) r1 sess (gs_store s) = ((length ?b, None), sess\<lparr>us_bw := w'\<rparr>, st')"
      "\<And>off. session_at L uid (set_session uid (sess\<lparr>us_bw := w', us_offset := off\<rparr>) (s\<lparr>gs_store := st'\<rparr>))
       (sess\<lparr>us_bw := w', us_offset := off\<rparr>) (c @ ?b)"
      "live_st L st' = live_st L (gs_store s)" "files_at st' = files_at (gs_store s)"
    using session_copy_at [OF at(1) e(1), of r1] cut(1) by (auto simp: announces_def)
  let ?sess = "sess\<lparr>us_bw := w', us_offset := us_offset sess\<rparr>"
  let ?s1 = "set_session uid ?sess (s\<lparr>gs_store := st'\<rparr>)"
  have rc: "\<exists>resp. receiveChunk (es1 0) r1 sess (gs_store s) = (Inl resp, ?sess, st') \<and> rs_Status resp = 400"
    using receiveChunk_announced [OF cut(1) at(2) c(1)] cut(3) by (simp add: body_len_def)
  have m: "rq_Method r1 = ''PUT'' \<or> rq_Method r1 = ''POST''" "\<not> us_done sess" "map_of (gs_sessions s) uid = Some sess"
    using cut(1) at(1) by (auto simp: announces_def session_at_def session_ok_def)
  obtain resp1 where h1: "handleResumableChunk L es1 r1 uid s = (resp1, ?s1)" "rs_Status resp1 = 400"
    using m rc by (auto simp: handleResumableChunk_def)
  have r2: "is_chunk r2 (int (length c)) (Some (int (length c) + body_len r2))" using retry by simp
  have "same_upload L s sess ?s1 ?sess" by (simp add: same_upload_def set_session_def c)
  then have cr: "commit_ready L ?s1 ?sess ((c @ ?b) @ concat (fst (rq_Body r2)))" using commit_ready_same ready by (simp add: bodies_def)
  have "us_offset ?sess = int (length c)" using at(2) by simp
  from chunk_finishes [OF c(2) this e(2,3) json r2 cr] obtain i s2 where h2:
    "handleResumableChunk L es2 r2 uid ?s1 = (writeJSON 200 (ObjectJSON (toObjectResource i)), s2)"
    "spec_put L (env_now (es2 1)) (us_bucket sess) (om_Name (us_meta sess)) (upload_opts (us_meta sess) (us_conds sess))
      (c @ bodies [r1, r2]) (live_st L (gs_store ?s1)) = (Inr i, live_st L (gs_store s2))"
    by (auto simp: bodies_def)
  have "int (length (c @ bodies [r1, r2])) \<noteq> int (length c) + n" using cut(2) retry(2) by (simp add: bodies_def body_len_def)
  with h1 h2(1) spec_put_view [OF h2(2)] show ?thesis by (intro exI [of _ resp1] exI [of _ ?s1] exI [of _ i] exI [of _ s2]) simp
qed

lemma demo_session:
  "\<exists>sess. session_at demo_lib ''42'' demo_resumable sess [] \<and> us_offset sess = 0 \<and> us_bucket sess = ''abc'' \<and>
     us_meta sess = no_meta\<lparr>om_Name := ''r''\<rparr> \<and> us_conds sess = no_conditions"
proof -
  have h: "hexEncode ''B'' = ''42''" by code_simp
  have s: "store_inv demo_lib (gs_store (NewServer_gcs demo_store1))" "tsorted (gs_sessions (NewServer_gcs demo_store1))"
    "bucket_exists (gs_store (NewServer_gcs demo_store1)) ''abc''" "tmp_ready (demo_env 300 [] [''t2'']) (gs_store (NewServer_gcs demo_store1)) ''abc''"
    using demo_store1_inv demo_bucket(2) demo_tmp(2) by (simp_all add: NewServer_gcs_def tbl_inv)
  from start_session [where es = "\<lambda>_. demo_env 300 [] [''t2'']", OF s(1,2) demo_env_simps(1) s(3,4) demo_start_meta, of "''B''" no_conditions]
  show ?thesis unfolding h by (auto simp: demo_resumable_def)
qed

theorem resumable_retry_duplicates_witness:
  "\<exists>i s1 s2. handleResumableChunk demo_lib (\<lambda>_. demo_env 301 [] []) (demo_chunk ''bytes 0-4/5'' [''he'']) ''42'' demo_resumable = s1 \<and>
     handleResumableChunk demo_lib (\<lambda>_. demo_env 302 [] []) (demo_chunk ''bytes 0-4/5'' [''hello'']) ''42'' (snd s1) = s2 \<and>
     rs_Status (fst s1) = 400 \<and> rs_Status (fst s2) = 200 \<and>
     live_st demo_lib (gs_store (snd s2)) ''abc'' ''r'' = Some (i, ''hehello'')"
proof -
  obtain sess where ss: "session_at demo_lib ''42'' demo_resumable sess []" "us_offset sess = 0" "us_bucket sess = ''abc''"
     "us_meta sess = no_meta\<lparr>om_Name := ''r''\<rparr>" "us_conds sess = no_conditions" using demo_session by blast
  let ?r1 = "demo_chunk ''bytes 0-4/5'' [''he'']" and ?r2 = "demo_chunk ''bytes 0-4/5'' [''hello'']"
  have v: "validObjectName ''r''" by code_simp
  have cr: "commit_ready demo_lib demo_resumable sess ([] @ bodies [?r1, ?r2])"
    using v by (simp add: commit_ready_def ss demo_no_checksums) (simp add: no_meta_def)
  have off: "us_offset sess = int (length ([] :: bytes))" using ss(2) by simp
  have a: "announces ?r1 (int (length ([] :: bytes))) 5 (Some (int (length ([] :: bytes)) + 5))" "is_chunk ?r2 (int (length ([] :: bytes))) (Some (int (length ([] :: bytes)) + 5))"
    using demo_is_chunk by simp_all
  have l: "0 < body_len ?r1" "body_len ?r1 \<noteq> 5" "body_len ?r2 = 5" by (simp_all add: demo_body)
  have b: "[] @ bodies [?r1, ?r2] = ''hehello''" "om_Name (us_meta sess) = ''r''" by (simp_all add: demo_body ss)
  obtain resp1 s1 i s2 where "handleResumableChunk demo_lib (\<lambda>_. demo_env 301 [] []) ?r1 ''42'' demo_resumable = (resp1, s1)" "rs_Status resp1 = 400"
    "handleResumableChunk demo_lib (\<lambda>_. demo_env 302 [] []) ?r2 ''42'' s1 = (writeJSON 200 (ObjectJSON (toObjectResource i)), s2)"
    "live_st demo_lib (gs_store s2) ''abc'' ''r'' = Some (i, ''hehello'')"
    using resumable_retry_duplicates [where ?es1.0 = "\<lambda>_. demo_env 301 [] []" and ?es2.0 = "\<lambda>_. demo_env 302 [] []",
        OF ss(1) off demo_lib_ok(1) demo_env_simps(1) demo_env_simps(1) demo_env_simps(1) a(1) l(1,2) a(2) l(3) cr]
    unfolding b ss(3) by blast
  then show ?thesis by (intro exI [of _ i]) (simp add: writeJSON_def respond_def)
qed

section \<open>Chunks under faults\<close>

lemma session_copy_result:
  assumes "store_inv L st" "session_ok st sess" "session_copy e r sess st = ((n, er), sess', st')"
  shows "live_st L st' = live_st L st" "files_at st' = files_at st" "sess' = sess\<lparr>us_bw := us_bw sess'\<rparr>"
    "er = None \<Longrightarrow> bw_sha (us_bw sess') = bw_sha (us_bw sess) @ concat (fst (rq_Body r))"
proof -
  obtain bw' where c: "Copy e (us_bw sess) (fst (rq_Body r)) (snd (rq_Body r)) st = ((n, er), bw', st')" "sess' = sess\<lparr>us_bw := bw'\<rparr>"
    using assms(3) by (auto simp: session_copy_def split: prod.splits)
  have w: "writer_st (us_bw sess) st" using assms(2) by (simp add: session_ok_def)
  note k = Copy_inv [OF assms(1) w c(1)] and f = Copy_files [OF assms(1) w c(1)]
  from k(1) show "live_st L st' = live_st L st" by simp
  from f show "files_at st' = files_at st" by blast
  from c(2) show "sess' = sess\<lparr>us_bw := us_bw sess'\<rparr>" by simp
  show "bw_sha (us_bw sess') = bw_sha (us_bw sess) @ concat (fst (rq_Body r))" if "er = None" using k(2) [OF that] c(2) by simp
qed

lemma receiveChunk_result:
  assumes "store_inv L st" "session_ok st sess" "receiveChunk e r sess st = (res, sess', st')"
  shows "live_st L st' = live_st L st" "files_at st' = files_at st"
    "us_bucket sess' = us_bucket sess" "us_meta sess' = us_meta sess" "us_conds sess' = us_conds sess"
    "res = Inr tot \<Longrightarrow> bw_sha (us_bw sess') \<in> {bw_sha (us_bw sess), bw_sha (us_bw sess) @ concat (fst (rq_Body r))}"
proof -
  obtain n er s1 st1 where c: "session_copy e r sess st = ((n, er), s1, st1)" by (metis surj_pair)
  note k = session_copy_result [OF assms(1,2) c]
  have s1: "us_bucket s1 = us_bucket sess" "us_meta s1 = us_meta sess" "us_conds s1 = us_conds sess"
    by (subst k(3), simp)+
  have "(sess' = sess \<and> st' = st) \<or> (st' = st1 \<and> us_bw sess' = us_bw s1 \<and> us_bucket sess' = us_bucket s1 \<and> us_meta sess' = us_meta s1 \<and>
      us_conds sess' = us_conds s1 \<and> (\<forall>t. res = Inr t \<longrightarrow> er = None))"
    using assms(3) c unfolding receiveChunk_def Let_def by (auto split: option.splits if_splits)
  with k s1 show "live_st L st' = live_st L st" "files_at st' = files_at st"
    "us_bucket sess' = us_bucket sess" "us_meta sess' = us_meta sess" "us_conds sess' = us_conds sess"
    "res = Inr tot \<Longrightarrow> bw_sha (us_bw sess') \<in> {bw_sha (us_bw sess), bw_sha (us_bw sess) @ concat (fst (rq_Body r))}" by auto
qed

text \<open>Answers that carry no object resource.\<close>

definition no_object :: "gcs_response \<Rightarrow> bool" where
  "no_object resp \<longleftrightarrow> (case rs_Body resp of ObjectJSON _ \<Rightarrow> False | _ \<Rightarrow> True)"

lemma no_object_writes [simp]:
  "no_object (writeError k reason m)" "no_object (gcs_writeStoreError er)" "no_object (writeResumeIncomplete r sess)"
  by (cases er; simp add: no_object_def writeError_def writeJSON_def respond_def gcs_writeStoreError_def writeResumeIncomplete_def Let_def)+

lemma commitUpload_no_object:
  "commitUpload L e bw meta conds s = (resp, x) \<Longrightarrow> rs_Status resp \<noteq> 200 \<Longrightarrow> no_object resp"
  by (auto simp: commitUpload_def checksum_refused_def Let_def writeJSON_def [of 200] respond_def
      split: if_splits prod.splits option.splits sum.splits)

lemma receiveChunk_no_object: "receiveChunk e r sess st = (Inl resp, x) \<Longrightarrow> no_object resp"
  by (auto simp: receiveChunk_def Let_def split: option.splits prod.splits if_splits)

lemma no_object_case: "no_object resp \<Longrightarrow> (case rs_Body resp of ObjectJSON ob \<Rightarrow> P ob | _ \<Rightarrow> Q) = Q"
  by (cases "rs_Body resp") (auto simp: no_object_def)


text \<open>The last chunk of the demonstration's upload: the session has \<open>hel\<close>, and the chunk brings \<open>lo\<close>.\<close>

definition demo_prog6 :: program where
  "demo_prog6 = snd (serve_gcs demo_lib (demo_gcs 105 [])
     (demo_request ''PUT'' ''/upload/storage/v1/b/abc/o'' [(''upload_id'', ''42'')] [(''Content-Range'', [''bytes 0-2/*''])] [''he'', ''l'']) demo_prog5)"

lemma demo_prog6_served: "served demo_lib [] demo_prog6"
  unfolding demo_prog6_def
proof (intro served_gcs demo_served(5) fresh_demo)
  show "('':8080'', GCS) \<in> set (pg_servers demo_prog5)" using demo_listening(5) by (simp add: demo_prog5_def serve_listening)
qed simp


end
