(* ===== verification/Program_Props.thy ===== *)
theory Program_Props
  imports Gcs_Props
begin

text \<open>
  The properties of the whole program: its invariant, what one protocol shows of what the other wrote,
  and the paths both servers take requests from.
\<close>

section \<open>Paths\<close>

lemma upper_hex_no_slash: "upper_hex n \<noteq> CHR ''/''"
proof -
  have "list_all (\<lambda>n. upper_hex n \<noteq> CHR ''/'') [0..<16]" by code_simp
  then have "upper_hex (n mod 16) \<noteq> CHR ''/''" by (simp add: list_all_iff del: upt_Suc)
  then show ?thesis by (simp add: upper_hex_def)
qed

lemma path_escape_no_slash: "CHR ''/'' \<notin> set (path_escape s)"
  by (induction s) (auto simp: path_escape_def escape_char_def upper_hex_no_slash [symmetric] dest: unreserved_not_percent)

lemma path_escape_Nil [simp]: "path_escape s = [] \<longleftrightarrow> s = []"
  by (cases s) (auto simp: path_escape_def escape_char_def)

lemma Split_no_slash: "sep \<notin> set s \<Longrightarrow> Split s sep = [s]"
  by (induction s) auto

lemma Split_first: "sep \<notin> set s \<Longrightarrow> Split (s @ sep # t) sep = s # Split t sep"
  by (induction s) auto

lemma Split_Join: "ss \<noteq> [] \<Longrightarrow> \<forall>s \<in> set ss. sep \<notin> set s \<Longrightarrow> Split (Join ss [sep]) sep = ss"
  by (induction ss "[sep]" rule: Join.induct) (auto simp: Split_no_slash Split_first)

lemma Join_ends:
  assumes "ss \<noteq> []" "hd ss \<noteq> []" "last ss \<noteq> []"
  shows "Join ss sep \<noteq> [] \<and> hd (Join ss sep) = hd (hd ss) \<and> last (Join ss sep) = last (last ss)"
proof -
  have l: "s \<noteq> [] \<Longrightarrow> last s \<noteq> [] \<Longrightarrow> Join s sep \<noteq> [] \<and> last (Join s sep) = last (last s)" for s
    by (induction s sep rule: Join.induct) auto
  have "hd (Join ss sep) = hd (hd ss)" using assms(1,2) by (cases "(ss, sep)" rule: Join.cases) auto
  with l assms show ?thesis by blast
qed

lemma Trim_slash:
  assumes "s \<noteq> []" "hd s \<noteq> CHR ''/''" "last s \<noteq> CHR ''/''"
  shows "Trim (''/'' @ s) ''/'' = s" "Trim (''/'' @ s @ ''/'') ''/'' = s"
proof -
  have t: "trim_right (\<lambda>c. c \<in> set ''/'') s = s" "trim_right (\<lambda>c. c \<in> set ''/'') (s @ ''/'') = s"
    using assms by (cases s rule: rev_cases; simp add: trim_right_def)+
  have "trim_left (\<lambda>c. c \<in> set ''/'') (''/'' @ s @ u) = s @ u" for u
    using assms by (cases s) (simp_all add: trim_left_def)
  from this [of "[]"] this [of "''/''"] t show "Trim (''/'' @ s) ''/'' = s" "Trim (''/'' @ s @ ''/'') ''/'' = s"
    by (simp_all add: Trim_def)
qed

lemma unescapeAll_escaped: "unescapeAll (map path_escape ss) = Some ss"
  by (induction ss) (simp_all add: PathUnescape_path_escape)

text \<open>C30. Both servers see the names a client put into the path: from a slash and the percent-encoded
  segments, of which the first and the last are not empty, they read back exactly the segments,
  whatever bytes the segments have. A slash after the last segment is dropped, so a key that ends in an
  unescaped slash is taken for the key without it.\<close>

theorem path_roundtrip:
  assumes "segs \<noteq> []" "hd segs \<noteq> []" "last segs \<noteq> []"
  shows "let p = ''/'' @ Join (map path_escape segs) ''/''
    in splitPath p = Some segs \<and> gcs_splitPath p = Some segs \<and>
       splitPath (p @ ''/'') = Some segs \<and> gcs_splitPath (p @ ''/'') = Some segs"
proof -
  let ?es = "map path_escape segs"
  let ?j = "Join ?es ''/''"
  have ne: "?es \<noteq> []" "hd ?es \<noteq> []" "last ?es \<noteq> []" using assms by (simp_all add: hd_map last_map)
  have slash: "\<forall>s \<in> set ?es. CHR ''/'' \<notin> set s" using path_escape_no_slash by auto
  have e: "hd (hd ?es) \<in> set (hd ?es)" "last (last ?es) \<in> set (last ?es)" "hd ?es \<in> set ?es" "last ?es \<in> set ?es"
    by (rule hd_in_set [OF ne(2)], rule last_in_set [OF ne(3)], rule hd_in_set [OF ne(1)], rule last_in_set [OF ne(1)])
  have j: "?j \<noteq> []" "hd ?j \<noteq> CHR ''/''" "last ?j \<noteq> CHR ''/''"
    using Join_ends [OF ne] e slash by metis+
  have s: "Split ?j CHR ''/'' = ?es" by (rule Split_Join [OF ne(1) slash])
  show ?thesis
    using Trim_slash [OF j] j(1) s by (simp add: splitPath_def gcs_splitPath_def Let_def unescapeAll_escaped)
qed

theorem path_roundtrip_witness: "splitPath ''/abc/a%20b%2F'' = Some [''abc'', ''a b/''] \<and> splitPath ''/abc/dir/'' = Some [''abc'', ''dir'']"
proof -
  have e: "path_escape ''abc'' = ''abc''" "path_escape ''a b/'' = ''a%20b%2F''" "path_escape ''dir'' = ''dir''" by code_simp+
  from path_roundtrip [of "[''abc'', ''a b/'']"] path_roundtrip [of "[''abc'', ''dir'']"] show ?thesis by (simp add: Let_def e)
qed

section \<open>The invariant of the program\<close>

text \<open>C2. Every state the program reaches is consistent, whatever requests it served and whatever calls
  failed: the store satisfies its invariant, every staged part of a multipart upload has the size and
  the MD5 that were recorded, every resumable session writes to an open file of its bucket and has hashed
  what that file holds, and no two parts or sessions share a file.\<close>

theorem program_consistent:
  assumes "json_decodes L" "root_ok L root" "served L root p"
  shows "store_inv L (pg_store p) \<and>
    (\<forall>uid up k part c. map_of (pg_uploads p) uid = Some up \<longrightarrow> map_of (mu_parts up) k = Some part \<longrightarrow>
       tmp_at (pg_store p) (sp_bucket part) (sp_tmp part) = Some c \<longrightarrow> sp_md5 part = lib_md5 L c \<and> sp_size part = int (length c)) \<and>
    (\<forall>uid sess c. map_of (pg_sessions p) uid = Some sess \<longrightarrow>
       tmp_at (pg_store p) (us_bucket sess) (bw_tmp (us_bw sess)) = Some c \<longrightarrow> bw_sha (us_bw sess) = c) \<and>
    (\<forall>a b n. owns (pg_uploads p) (pg_sessions p) a = Some n \<longrightarrow> owns (pg_uploads p) (pg_sessions p) b = Some n \<longrightarrow> a = b)"
proof -
  have i: "srv_inv L (pg_store p) (pg_uploads p) (pg_sessions p)" using served_inv [OF assms] by (simp add: prog_inv_def)
  have s: "bw_sha (us_bw sess) = c" if "map_of (pg_sessions p) uid = Some sess" "tmp_at (pg_store p) (us_bucket sess) (bw_tmp (us_bw sess)) = Some c"
    for uid sess c
  proof -
    have "session_ok (pg_store p) sess" using i that(1) by (auto simp: srv_inv_def)
    with that(2) show ?thesis by (auto simp: session_ok_def writer_st_def writer_ok_def tmp_at_view)
  qed
  have p: "sp_md5 part = lib_md5 L c \<and> sp_size part = int (length c)"
    if "map_of (pg_uploads p) uid = Some up" "map_of (mu_parts up) k = Some part" "tmp_at (pg_store p) (sp_bucket part) (sp_tmp part) = Some c"
    for uid up k part c
    using i that unfolding srv_inv_def upload_ok_def part_ok_def by blast
  have o: "own_ok (owns (pg_uploads p) (pg_sessions p))" "store_inv L (pg_store p)" using i by (simp_all add: srv_inv_def)
  from o(1) have q: "\<forall>a b n. owns (pg_uploads p) (pg_sessions p) a = Some n \<longrightarrow> owns (pg_uploads p) (pg_sessions p) b = Some n \<longrightarrow> a = b"
    unfolding own_ok_def .
  show ?thesis using p s by (intro conjI o(2) q) fast+
qed

text \<open>In a program with two staged parts and a resumable session the parts have the MD5 of their files.\<close>

theorem program_consistent_witness:
  "\<exists>up part. map_of (pg_uploads demo_prog5) ''41'' = Some up \<and> map_of (mu_parts up) 1 = Some part \<and>
     tmp_at (pg_store demo_prog5) (sp_bucket part) (sp_tmp part) = Some ''hel'' \<and> sp_md5 part = lib_md5 demo_lib ''hel'' \<and> sp_size part = 3"
proof -
  have "case map_of (pg_uploads demo_prog5) ''41'' of None \<Rightarrow> False
      | Some up \<Rightarrow> (case map_of (mu_parts up) 1 of None \<Rightarrow> False
          | Some part \<Rightarrow> tmp_at (pg_store demo_prog5) (sp_bucket part) (sp_tmp part) = Some ''hel'')" by code_simp
  then obtain up part where f: "map_of (pg_uploads demo_prog5) ''41'' = Some up" "map_of (mu_parts up) 1 = Some part"
    "tmp_at (pg_store demo_prog5) (sp_bucket part) (sp_tmp part) = Some ''hel''" by (auto split: option.splits)
  have "sp_md5 part = lib_md5 demo_lib ''hel'' \<and> sp_size part = int (length ''hel'')"
    using program_consistent [OF demo_lib_ok(1) root_ok_empty demo_served(5)] f by blast
  with f show ?thesis by auto
qed

section \<open>One store behind two protocols\<close>

lemma live_exists:
  assumes "validBucketName bn" "live_st L st bn n = Some x"
  shows "bucket_exists st bn"
  using assms by (auto simp: bucket_exists_def live_st_def live_eq dir_bucket_def b_db_def split: option.splits)

text \<open>A plain upload over S3 and a plain download over the JSON interface of GCS.\<close>

definition plain_put :: "request \<Rightarrow> string \<Rightarrow> string list \<Rightarrow> bool" where
  "plain_put r bkt segs \<longleftrightarrow>
     rq_Method r = ''PUT'' \<and> splitPath (rq_EscapedPath r) = Some (bkt # segs) \<and> segs \<noteq> [] \<and>
     header_get r ''x-amz-copy-source'' = [] \<and> query_get r ''uploadId'' = []"

definition plain_get :: "request \<Rightarrow> string \<Rightarrow> string list \<Rightarrow> bool" where
  "plain_get g bkt segs \<longleftrightarrow>
     rq_Method g = ''GET'' \<and> gcs_splitPath (rq_EscapedPath g) = Some ([''storage'', ''v1'', ''b'', bkt, ''o''] @ segs) \<and> segs \<noteq> [] \<and>
     query_get g ''alt'' = ''media'' \<and> query_get g ''generation'' = []"

lemma plain_put_runs:
  "plain_put r bkt segs \<Longrightarrow> ServeHTTP_s3 L W r s = s3_putObject L (call_env W) (net_schedule W) r bkt (Join segs ''/'') s"
  by (cases segs) (auto simp: plain_put_def ServeHTTP_s3_def handleObject_def Let_def split: list.split)

lemma plain_get_runs:
  "plain_get g bkt segs \<Longrightarrow> ServeHTTP_gcs L V g s = serveMedia L (gw_env V) g bkt (Join segs ''/'') s"
  by (cases segs) (simp_all add: plain_get_def ServeHTTP_gcs_def handleStorageV1_def Let_def)

text \<open>C8. What was uploaded over S3 is downloaded over GCS: after an upload that was answered with 200,
  whatever calls failed in it, a download of the same bucket and key without faults returns exactly the
  decoded body of the upload, with its content type and with checksums that are those of the bytes, when
  the conditions of the download hold for the object.\<close>

theorem cross_protocol_read:
  assumes inv: "prog_inv L p" "json_decodes L"
    and put: "plain_put r bkt segs" "serve_s3 L W r p = (resp, p1)" "rs_Status resp = 200" "requestBody (net_schedule W) r = (ps, en)"
    and lib: "json_roundtrip L (metadataFromHeaders (rq_Header r))" "collision_free L (files_at (pg_store p) bkt) (concat ps)"
    and get: "plain_get g bkt segs" "fault_free (gw_env V 0)" "validBucketName bkt" "parseConditions g = Inr conds"
  shows "\<exists>i. resp = respond 200 [(canonicalKey ''ETag'', etagFor i)] No_body \<and>
    oi_MD5 i = lib_md5 L (concat ps) \<and> oi_CRC32C i = lib_crc32c L (concat ps) \<and> oi_ContentType i = header_get r ''Content-Type'' \<and>
    fst (serve_gcs L V g p1) =
      (if conditions_hold conds (Some i) then respond 200 (media_headers i) (Media (oi_Updated i) (concat ps))
       else gcs_writeStoreError ErrPreconditionFailed)"
proof -
  let ?key = "Join segs ''/''"
  have st: "store_inv L (pg_store p)" using inv(1) by (simp add: prog_inv_def srv_inv_def)
  obtain rp st1 where po: "PutObject L (call_env W 0) bkt ?key ps en (put_opts_s3 r) (pg_store p) = (rp, st1)" by force
  have run: "resp = (case rp of Inl err \<Rightarrow> writeStoreError err (resource bkt ?key) | Inr i \<Rightarrow> respond 200 [(canonicalKey ''ETag'', etagFor i)] No_body)"
      "pg_store p1 = st1"
    using put(2,4) po by (auto simp: serve_s3_def plain_put_runs [OF put(1)] s3_putObject_def s3_call_def split: sum.splits)
  have ne: "rs_Status (writeStoreError er res) \<noteq> 200" for er res
    by (cases er) (simp_all add: writeStoreError_def writeS3Error_def writeXML_def respond_def)
  obtain i where i: "rp = Inr i" using run(1) put(3) ne by (cases rp) auto
  have md: "json_roundtrip L (po_Metadata (put_opts_s3 r))" using lib(1) by (simp add: put_opts_s3_def)
  note pi = PutObject_inv [OF st inv(2) po]
  have pr: "put_result L (call_env W 0) bkt ?key (put_opts_s3 r) (concat ps) (pg_store p) i st1"
    using pi(3) [OF i lib(2) md] by simp
  then have l: "live_st L st1 bkt ?key = Some (i, concat ps)" by (simp add: put_result_def)
  have "fst (OpenObject L (gw_env V 0) bkt ?key st1) = Inr (i, concat ps)"
    using OpenObject_spec [OF pi(1) get(2), of bkt ?key] live_exists [OF get(3) l] l by (simp add: spec_open_def)
  moreover have "checkReadConditions conds i = (if conditions_hold conds (Some i) then None else Some ErrPreconditionFailed)"
    using checkReadConditions_iff [of conds i] checkReadConditions_error [of conds i] by auto
  ultimately have "fst (serve_gcs L V g p1) =
      (if conditions_hold conds (Some i) then respond 200 (media_headers i) (Media (oi_Updated i) (concat ps))
       else gcs_writeStoreError ErrPreconditionFailed)"
    using get(1,4) run(2)
    by (auto simp: serve_gcs_def plain_get_runs [OF get(1)] serveMedia_def gs_call_def read_refused_def checkGenerationParam_def plain_get_def
        split: prod.splits)
  with run(1) i pr show ?thesis
    by (intro exI [of _ i]) (simp add: put_result_def commit_info_def put_opts_s3_def)
qed

definition demo_put :: request where
  "demo_put = demo_request ''PUT'' ''/abc/a/b'' [] [(''Content-Type'', [''text/plain''])] [''so'', ''me'']"

definition demo_get :: request where
  "demo_get = demo_request ''GET'' ''/storage/v1/b/abc/o/a/b'' [(''alt'', ''media'')] [] []"

theorem cross_protocol_read_witness:
  "\<exists>i. fst (serve_gcs demo_lib (demo_gcs 106 []) demo_get (snd (serve_s3 demo_lib (demo_s3 105 [''w1'']) demo_put demo_prog5))) =
     respond 200 (media_headers i) (Media (oi_Updated i) ''some'') \<and> oi_ContentType i = ''text/plain''"
proof -
  let ?put = "serve_s3 demo_lib (demo_s3 105 [''w1'']) demo_put demo_prog5"
  have q: "plain_put demo_put ''abc'' [''a'', ''b'']" "plain_get demo_get ''abc'' [''a'', ''b'']" "validBucketName ''abc''"
      "parseConditions demo_get = Inr no_conditions" "metadataFromHeaders (rq_Header demo_put) = []"
      "requestBody (net_schedule (demo_s3 105 [''w1''])) demo_put = ([''so'', ''me''], EOF)" "header_get demo_put ''Content-Type'' = ''text/plain''"
    by code_simp+
  have s: "rs_Status (fst ?put) = 200" by code_simp
  have c: "?put = (fst ?put, snd ?put)" by simp
  have m: "json_roundtrip demo_lib (metadataFromHeaders (rq_Header demo_put))" by (simp add: q(5))
  have e: "fault_free (gw_env (demo_gcs 106 []) 0)" by (simp add: demo_gcs_def)
  have iv: "prog_inv demo_lib demo_prog5" by (rule served_inv [OF demo_lib_ok(1) root_ok_empty demo_served(5)])
  have h: "conditions_hold no_conditions (Some i)" for i by (simp add: conditions_hold_def no_conditions_def)
  from cross_protocol_read [OF iv demo_lib_ok(1) q(1) c s q(6) m demo_collision_free q(2) e q(3,4)] h q(7) show ?thesis by auto
qed

section \<open>Restarts\<close>

text \<open>C3. A restart loses no object: when the program is stopped, or crashes between two requests, and is
  started again on its directory, every bucket and every object is there as it was, and reads return the
  same; only unfinished multipart uploads and resumable sessions are forgotten.\<close>

theorem restart_keeps_objects:
  assumes lib: "json_decodes L" "root_ok L root" and p: "served L root p"
    and restart: "root' \<in> {main_stop e' p, st_root (pg_store p)}" "main_start e a1 a2 root' = Inr p'"
  shows "live_st L (pg_store p') = live_st L (pg_store p) \<and> bucket_exists (pg_store p') = bucket_exists (pg_store p) \<and>
    (\<forall>eo bn n. fault_free eo \<longrightarrow> fst (OpenObject L eo bn n (pg_store p')) = fst (OpenObject L eo bn n (pg_store p))) \<and>
    pg_uploads p' = [] \<and> pg_sessions p' = [] \<and> served L root p'"
proof -
  have st: "store_inv L (pg_store p)" by (rule prog_inv_store [OF served_inv [OF lib p]])
  have r: "root' = st_root (pg_store p)" using restart(1) by auto
  note m = main_start_inv [OF root_ok_store [OF st] restart(2) [unfolded r]]
  have l: "live_st L (pg_store p') = live_st L (pg_store p)" by (rule live_st_root [OF m(2)])
  have b: "bucket_exists (pg_store p') = bucket_exists (pg_store p)" using m(2) by (simp add: bucket_exists_def fun_eq_iff)
  have "fst (OpenObject L eo bn n (pg_store p')) = fst (OpenObject L eo bn n (pg_store p))" if "fault_free eo" for eo bn n
    by (simp only: OpenObject_spec [OF st that] OpenObject_spec [OF prog_inv_store [OF m(1)] that] l b)
  moreover have "served L root p'" by (rule crashed [OF p restart(2) [unfolded r]])
  ultimately show ?thesis using l b m(3,4) by simp
qed

theorem restart_keeps_objects_witness:
  "\<exists>p'. main_start (demo_env 200 [] []) '':8080'' [] (main_stop (demo_env 200 [] []) demo_prog5) = Inr p' \<and>
     live_st demo_lib (pg_store p') = live_st demo_lib (pg_store demo_prog5) \<and> pg_uploads p' = []"
proof -
  obtain p' where p': "main_start (demo_env 200 [] []) '':8080'' [] (main_stop (demo_env 200 [] []) demo_prog5) = Inr p'"
    by (simp add: main_start_def Open_def)
  from restart_keeps_objects [OF demo_lib_ok(1) root_ok_empty demo_served(5) insertI1 p'] p' show ?thesis by blast
qed

end
