(* ===== verification/Response_Props.thy ===== *)
theory Response_Props
  imports Program_Props
begin

text \<open>
  The answers of both servers: which bodies go with which status.
\<close>

section \<open>The answers\<close>

text \<open>Which body goes with which status: results with 200, errors with an error status, a response without a
  body with 200, 204 or an error status, and 0 for a request that ended in a panic.\<close>

definition error_status :: "nat \<Rightarrow> bool" where
  "error_status k \<longleftrightarrow> k \<in> {400, 404, 405, 409, 410, 412, 500, 501}"

definition s3_typed :: "s3_response \<Rightarrow> bool" where
  "s3_typed resp \<longleftrightarrow>
     (case rs_Body resp of
        No_body \<Rightarrow> rs_Status resp \<in> {200, 204} \<or> error_status (rs_Status resp)
      | ErrorResponse er \<Rightarrow> error_status (rs_Status resp)
      | Aborted \<Rightarrow> rs_Status resp = 0
      | _ \<Rightarrow> rs_Status resp = 200)"

definition gcs_typed :: "gcs_response \<Rightarrow> bool" where
  "gcs_typed resp \<longleftrightarrow>
     (case rs_Body resp of
        No_json \<Rightarrow> rs_Status resp \<in> {200, 204, 308}
      | ErrorJSON k reason m \<Rightarrow> error_status k \<and> rs_Status resp = k
      | Broken \<Rightarrow> rs_Status resp = 0
      | _ \<Rightarrow> rs_Status resp = 200)"

named_theorems typed \<open>responses whose body goes with their status\<close>

lemma s3_writes [typed]:
  "s3_typed (writeStoreError er res)" "s3_typed (respond 200 hs No_body)" "s3_typed (respond 204 hs No_body)"
  "s3_typed (respond (statusForStoreError er) hs No_body)" "s3_typed (respond 200 hs (Content t c))"
  "s3_typed (writeS3Error k code m res) \<longleftrightarrow> error_status k" "error_status 400" "error_status 404" "error_status 405" "error_status 500"
  by (cases er; simp add: s3_typed_def writeStoreError_def writeS3Error_def writeXML_def respond_def error_status_def statusForStoreError_def)+

lemma s3_results [typed]:
  "s3_typed (writeXML 200 (ListAllMyBucketsResult a))" "s3_typed (writeXML 200 (ListBucketResultV1 b))"
  "s3_typed (writeXML 200 (ListBucketResultV2 c))" "s3_typed (writeXML 200 (LocationConstraint d))"
  "s3_typed (writeXML 200 (CopyObjectResult f))" "s3_typed (writeXML 200 (InitiateMultipartUploadResult g))"
  "s3_typed (writeXML 200 (CompleteMultipartUploadResult h))" "s3_typed (writeXML 200 (DeleteResult i))"
  by (simp_all add: s3_typed_def writeXML_def respond_def)

lemma gcs_writes [typed]:
  "gcs_typed (gcs_writeStoreError er)" "gcs_typed (writeError k reason m) \<longleftrightarrow> error_status k" "error_status 410" "error_status 501"
  "gcs_typed (respond 200 hs No_json)" "gcs_typed (respond 204 hs No_json)" "gcs_typed (writeResumeIncomplete r sess)"
  "gcs_typed (respond 200 hs (Media t c))" "gcs_typed (writeJSON 200 (BucketJSON a))" "gcs_typed (writeJSON 200 (BucketsJSON b))"
  "gcs_typed (writeJSON 200 (ObjectJSON d))" "gcs_typed (writeJSON 200 (ObjectsJSON f))"
  by (cases er; simp add: gcs_typed_def gcs_writeStoreError_def writeError_def writeJSON_def respond_def error_status_def writeResumeIncomplete_def Let_def)+

text \<open>Every handler gives such an answer, whatever the request, the state and the faults.\<close>

lemma s3_bucket_answers [typed]:
  "s3_typed (fst (s3_listBuckets es s))" "s3_typed (fst (s3_createBucket es bkt s))" "s3_typed (fst (s3_headBucket es bkt s))"
  "s3_typed (fst (s3_deleteBucket es bkt s))" "s3_typed (fst (s3_getBucketLocation es bkt s))"
  by (simp_all add: s3_listBuckets_def s3_createBucket_def s3_headBucket_def s3_deleteBucket_def s3_getBucketLocation_def typed
      split: prod.split sum.split)

lemma s3_object_answers [typed]:
  "s3_typed (fst (s3_putObject L es sched r bkt key s))" "s3_typed (fst (s3_getObject L es r bkt key s))"
  "s3_typed (fst (s3_deleteObject L es bkt key s))" "s3_typed (fst (s3_deleteObjects L xml es r bkt s))"
  "s3_typed (fst (s3_copyObject L es r bkt key s))" "s3_typed (fst (s3_listObjects L es r bkt s))"
  by (simp_all add: s3_putObject_def s3_getObject_def s3_deleteObject_def s3_deleteObjects_def s3_copyObject_def s3_listObjects_def
      Let_def typed split: prod.split sum.split option.split)

lemma noSuchUpload_typed [typed]: "s3_typed (noSuchUpload m bkt key)"
  by (simp add: noSuchUpload_def typed)

lemma lookupUpload_typed: "lookupUpload r bkt key s = Inl resp \<Longrightarrow> s3_typed resp"
  by (auto simp: lookupUpload_def typed split: option.splits if_splits)

lemma checkParts_typed: "checkParts up bkt key qs = Some resp \<Longrightarrow> s3_typed resp"
  by (induction qs) (auto simp: Let_def typed split: option.splits if_splits)

lemma s3_multipart_answers [typed]:
  "s3_typed (fst (initiateMultipartUpload es ib r bkt key s))" "s3_typed (fst (uploadPart L es sched r bkt key s))"
  "s3_typed (fst (assembleUpload L es r bkt key up qs s))" "s3_typed (fst (abortMultipartUpload es r bkt key s))"
  "s3_typed (fst (completeMultipartUpload L xml es r bkt key s))"
proof -
  show a: "s3_typed (fst (assembleUpload L es r bkt key up qs s))" for up qs
    by (simp add: assembleUpload_def typed split: prod.split sum.split option.split)
  show "s3_typed (fst (initiateMultipartUpload es ib r bkt key s))"
    by (simp add: initiateMultipartUpload_def Let_def typed split: prod.split sum.split)
  show "s3_typed (fst (uploadPart L es sched r bkt key s))"
    using lookupUpload_typed [of r bkt key s]
    by (simp add: uploadPart_def Let_def typed split: prod.split sum.split option.split)
  show "s3_typed (fst (abortMultipartUpload es r bkt key s))"
    using lookupUpload_typed [of r bkt key s]
    by (simp add: abortMultipartUpload_def Let_def typed split: prod.split sum.split option.split)
  show "s3_typed (fst (completeMultipartUpload L xml es r bkt key s))"
    using lookupUpload_typed [of r bkt key s] checkParts_typed a
    by (auto simp: completeMultipartUpload_def Let_def typed split: sum.split option.split)
qed

lemma gcs_object_answers [typed]:
  "gcs_typed (fst (gcs_createBucket json es r s))" "gcs_typed (fst (gcs_getBucket es bkt s))" "gcs_typed (fst (gcs_listBuckets es s))"
  "gcs_typed (fst (gcs_deleteBucket es bkt s))" "gcs_typed (fst (gcs_deleteObject L es r bkt obj s))" "gcs_typed (fst (gcs_listObjects L es r bkt s))"
  by (simp_all add: gcs_createBucket_def gcs_getBucket_def gcs_listBuckets_def gcs_deleteBucket_def gcs_deleteObject_def gcs_listObjects_def typed
      split: prod.split sum.split option.split)

lemma read_refused_typed: "read_refused r i = Some resp \<Longrightarrow> gcs_typed resp"
  by (auto simp: read_refused_def typed split: option.splits sum.splits)

lemma gcs_read_answers [typed]:
  "gcs_typed (fst (gcs_getObject L es r bkt obj s))" "gcs_typed (fst (serveMedia L es r bkt obj s))"
  using read_refused_typed [of r] by (simp_all add: gcs_getObject_def serveMedia_def typed split: prod.split sum.split option.split)

lemma commitUpload_typed [typed]: "gcs_typed (fst (commitUpload L e bw meta conds s))"
proof -
  have "gcs_typed resp" if "checksum_refused meta md5 crc = Some resp" for md5 crc resp
    using that by (auto simp: checksum_refused_def typed split: if_splits)
  then show ?thesis
    by (auto simp: commitUpload_def Let_def typed split: prod.split sum.split option.split)
qed

lemma commitUpload_typed_eq: "commitUpload L e bw meta conds s = (resp, x) \<Longrightarrow> gcs_typed resp"
  using commitUpload_typed [of L e bw meta conds s] by simp

lemma gcs_put_typed [typed]: "gcs_typed (fst (gcs_putObject L es media bkt meta conds s))"
  using commitUpload_typed_eq by (auto simp: gcs_putObject_def typed split: prod.split sum.split option.split)

lemma receiveChunk_typed: "receiveChunk e r sess st = (Inl resp, x) \<Longrightarrow> gcs_typed resp"
  by (auto simp: receiveChunk_def Let_def typed split: option.splits prod.splits if_splits)

lemma gcs_upload_answers [typed]:
  "gcs_typed (fst (handleMultipartUpload L M es r bkt conds s))" "gcs_typed (fst (startResumableUpload M es ib r bkt conds s))"
  "gcs_typed (fst (handleResumableChunk L es r uid s))"
  using receiveChunk_typed commitUpload_typed_eq
  by (auto simp: handleMultipartUpload_def startResumableUpload_def handleResumableChunk_def Let_def typed
      split: prod.split sum.split option.split)

lemma handleUpload_typed [typed]: "gcs_typed (fst (handleUpload L M es ib r bkt s))"
  by (simp add: handleUpload_def typed split: sum.split)


end
